(* ===== verification/Prelude.thy ===== *)
theory Prelude
  imports Main "HOL-Library.Word" "HOL-Library.Multiset" "HOL-Library.Monad_Syntax"
begin

text \<open>
  Shared vocabulary of the girth development: machine integer types, the reading of a
  Rust panic as a value, byte buffers with bounds-checked slices, little-endian codecs,
  and the priority queue interface the loss scanner and the retransmit queue rely on.

  A Rust operation that can panic has the result type \<open>'a may_panic\<close>: \<^term>\<open>None\<close>
  is the panic, \<^term>\<open>Some x\<close> is a normal return of \<open>x\<close>. Sequencing is the option
  monad, so a panic ends the computation as it does in the program (the release profile
  of \<open>src/Cargo.toml\<close> sets \<open>panic = "abort"\<close>). Arithmetic on \<open>u64\<close> values kept as
  words wraps, as it does in that profile.
\<close>

unbundle bit_operations_syntax

type_synonym byte = "8 word"
type_synonym u16 = "16 word"
type_synonym u32 = "32 word"
type_synonym u64 = "64 word"

text \<open>A signed 64-bit integer is its bit pattern, read with \<^const>\<open>sint\<close>: Rust's
  \<open>as\<close> casts between \<open>u64\<close> and \<open>i64\<close> are the identity on bits.\<close>

type_synonym i64 = "64 word"

type_synonym 'a may_panic = "'a option"

named_theorems buffer_simps \<open>evaluation of slices and writes on concrete buffers\<close>

section \<open>Byte buffers\<close>

text \<open>\<open>buf[i]\<close>: panics out of range.\<close>

definition index_at :: "'a list \<Rightarrow> nat \<Rightarrow> 'a may_panic" where
  "index_at xs i = (if i < length xs then Some (xs ! i) else None)"

text \<open>\<open>&buf[i..j]\<close>: panics when the range is reversed or runs past the end.\<close>

definition subslice :: "'a list \<Rightarrow> nat \<Rightarrow> nat \<Rightarrow> 'a list may_panic" where
  "subslice xs i j = (if i \<le> j \<and> j \<le> length xs then Some (take (j - i) (drop i xs)) else None)"

text \<open>\<open>buf[off..off + bs.len()].copy_from_slice(bs)\<close>.\<close>

definition write_at :: "'a list \<Rightarrow> nat \<Rightarrow> 'a list \<Rightarrow> 'a list may_panic" where
  "write_at xs off bs =
     (if off + length bs \<le> length xs
      then Some (take off xs @ bs @ drop (off + length bs) xs) else None)"

lemma write_at_0 [buffer_simps]:
  "write_at xs 0 bs = (if length bs \<le> length xs then Some (bs @ drop (length bs) xs) else None)"
  by (simp add: write_at_def)

lemma write_at_Cons [buffer_simps]:
  "write_at (x # xs) (Suc n) bs = map_option ((#) x) (write_at xs n bs)"
  by (simp add: write_at_def)

lemma write_at_Cons_numeral [buffer_simps]:
  "write_at (x # xs) (numeral k) bs = map_option ((#) x) (write_at xs (pred_numeral k) bs)"
  by (simp add: numeral_eq_Suc write_at_Cons)

lemma write_at_append [buffer_simps]:
  "length ys \<le> off \<Longrightarrow>
   write_at (ys @ xs) off bs = map_option ((@) ys) (write_at xs (off - length ys) bs)"
  by (auto simp: write_at_def)

lemma length_write_at [dest?]: "write_at xs off bs = Some ys \<Longrightarrow> length ys = length xs"
  by (auto simp: write_at_def split: if_splits)

lemma write_at_Some_iff:
  "(\<exists>ys. write_at xs off bs = Some ys) \<longleftrightarrow> off + length bs \<le> length xs"
  by (simp add: write_at_def)

lemma index_at_0 [buffer_simps]: "index_at (x # xs) 0 = Some x"
  by (simp add: index_at_def)

lemma index_at_Cons [buffer_simps]: "index_at (x # xs) (Suc n) = index_at xs n"
  by (simp add: index_at_def)

lemma index_at_Cons_numeral [buffer_simps]:
  "index_at (x # xs) (numeral k) = index_at xs (pred_numeral k)"
  by (simp add: numeral_eq_Suc index_at_Cons)

lemma index_at_append [buffer_simps]:
  "length ys \<le> i \<Longrightarrow> index_at (ys @ xs) i = index_at xs (i - length ys)"
  by (auto simp: index_at_def nth_append)

lemma subslice_Cons [buffer_simps]: "subslice (x # xs) (Suc i) (Suc j) = subslice xs i j"
  by (simp add: subslice_def)

lemma subslice_Cons_numeral [buffer_simps]:
  "subslice (x # xs) (numeral i) (numeral j) = subslice xs (pred_numeral i) (pred_numeral j)"
  by (simp add: numeral_eq_Suc subslice_Cons)

lemma subslice_Cons_Suc_numeral [buffer_simps]:
  "subslice (x # xs) (Suc i) (numeral j) = subslice xs i (pred_numeral j)"
  by (simp add: numeral_eq_Suc subslice_Cons)

lemma subslice_append [buffer_simps]:
  "length ys \<le> i \<Longrightarrow> i \<le> j \<Longrightarrow> subslice (ys @ xs) i j = subslice xs (i - length ys) (j - length ys)"
  by (auto simp: subslice_def)

lemma subslice_prefix [buffer_simps]: "n = length ys \<Longrightarrow> subslice (ys @ xs) 0 n = Some ys"
  by (simp add: subslice_def)

lemma subslice_whole [buffer_simps]: "n = length ys \<Longrightarrow> subslice ys 0 n = Some ys"
  by (simp add: subslice_def)

lemma subslice_in_range:
  "i \<le> j \<Longrightarrow> j \<le> length xs \<Longrightarrow> subslice xs i j = Some (take (j - i) (drop i xs))"
  by (simp add: subslice_def)

lemma index_in_range: "i < length xs \<Longrightarrow> index_at xs i = Some (xs ! i)"
  by (simp add: index_at_def)

lemma split_chunk:
  "n + m \<le> length xs \<Longrightarrow> \<exists>ys zs. xs = ys @ zs \<and> length ys = n \<and> m \<le> length zs"
  by (rule exI [of _ "take n xs"], rule exI [of _ "drop n xs"]) simp

section \<open>Little-endian integers\<close>

text \<open>\<open>to_le_bytes\<close> and \<open>from_le_bytes\<close>, for any width.\<close>

definition le_bytes :: "nat \<Rightarrow> 'a::len word \<Rightarrow> byte list" where
  "le_bytes n w = map (\<lambda>i. ucast (drop_bit (8 * i) w)) [0..<n]"

fun le_word :: "byte list \<Rightarrow> 'a::len word" where
  "le_word [] = 0"
| "le_word (b # bs) = ucast b OR push_bit 8 (le_word bs)"

lemma length_le_bytes [simp]: "length (le_bytes n w) = n"
  by (simp add: le_bytes_def)

lemma nth_le_bytes: "i < n \<Longrightarrow> le_bytes n w ! i = ucast (drop_bit (8 * i) w)"
  by (simp add: le_bytes_def)

lemma bit_le_word:
  "bit (le_word bs :: 'a::len word) k \<longleftrightarrow>
     k < LENGTH('a) \<and> k div 8 < length bs \<and> bit (bs ! (k div 8)) (k mod 8)"
proof (induction bs arbitrary: k)
  case Nil
  then show ?case by simp
next
  case (Cons b bs)
  show ?case
  proof (cases "k < 8")
    case True
    then show ?thesis
      by (auto simp: bit_or_iff bit_push_bit_iff bit_ucast_iff)
  next
    case False
    then have "\<not> bit b k" and "k div 8 = Suc ((k - 8) div 8)" and "k mod 8 = (k - 8) mod 8"
      by (auto simp: le_div_geq le_mod_geq dest: bit_imp_le_length)
    with False show ?thesis
      by (auto simp: bit_or_iff bit_push_bit_iff bit_ucast_iff Cons)
  qed
qed

lemma le_word_le_bytes [simp]:
  assumes "LENGTH('a::len) \<le> 8 * n"
  shows "le_word (le_bytes n w) = (w :: 'a word)"
proof (rule bit_eqI)
  fix k
  show "bit (le_word (le_bytes n w) :: 'a word) k \<longleftrightarrow> bit w k"
  proof (cases "k < LENGTH('a)")
    case True
    with assms have "k div 8 < n" by auto
    with True show ?thesis
      by (simp add: bit_le_word nth_le_bytes bit_ucast_iff bit_drop_bit_eq)
  next
    case False
    then show ?thesis
      by (auto simp: bit_le_word dest: bit_imp_le_length)
  qed
qed

lemma le_bytes_le_word [simp]:
  assumes "length bs = n" and "8 * n \<le> LENGTH('a::len)"
  shows "le_bytes n (le_word bs :: 'a word) = bs"
proof (rule nth_equalityI)
  fix i assume "i < length (le_bytes n (le_word bs :: 'a word))"
  then have i: "i < n" by simp
  have "le_bytes n (le_word bs :: 'a word) ! i = ucast (drop_bit (8 * i) (le_word bs :: 'a word))"
    using i by (rule nth_le_bytes)
  also have "\<dots> = bs ! i"
    using i assms
    by (auto intro!: bit_eqI simp: bit_ucast_iff bit_drop_bit_eq bit_le_word
        dest: bit_imp_le_length)
  finally show "le_bytes n (le_word bs :: 'a word) ! i = bs ! i" .
qed (simp add: assms)

section \<open>Priority queues\<close>

text \<open>
  What the code relies on of \<open>std::collections::BinaryHeap<Reverse<_>>\<close>: a queue whose
  \<open>peek\<close> and \<open>pop\<close> give a least element. \<open>items\<close> is the multiset held, \<open>wf\<close> the
  representation invariant.
\<close>

locale min_queue =
  fixes empty :: 'q
    and push :: "'a::linorder \<Rightarrow> 'q \<Rightarrow> 'q"
    and peek :: "'q \<Rightarrow> 'a option"
    and pop :: "'q \<Rightarrow> ('a \<times> 'q) option"
    and wf :: "'q \<Rightarrow> bool"
    and items :: "'q \<Rightarrow> 'a multiset"
  assumes wf_empty: "wf empty"
    and items_empty: "items empty = {#}"
    and wf_push: "wf q \<Longrightarrow> wf (push x q)"
    and items_push: "items (push x q) = add_mset x (items q)"
    and peek_None: "peek q = None \<longleftrightarrow> items q = {#}"
    and peek_least: "wf q \<Longrightarrow> peek q = Some x \<Longrightarrow> y \<in># items q \<Longrightarrow> x \<le> y"
    and pop_None: "pop q = None \<longleftrightarrow> peek q = None"
    and pop_Some: "pop q = Some (x, q') \<Longrightarrow> peek q = Some x \<and> items q = add_mset x (items q')"
    and wf_pop: "wf q \<Longrightarrow> pop q = Some (x, q') \<Longrightarrow> wf q'"
begin

lemma peek_mem: "peek q = Some x \<Longrightarrow> x \<in># items q"
  using pop_None [of q] pop_Some [of q] by (cases "pop q") auto

lemma pop_after_peek: "peek q = Some x \<Longrightarrow> \<exists>q'. pop q = Some (x, q')"
  using pop_None [of q] pop_Some [of q] by (cases "pop q") auto

lemma pop_least: "wf q \<Longrightarrow> pop q = Some (x, q') \<Longrightarrow> y \<in># items q' \<Longrightarrow> x \<le> y"
  using pop_Some [of q x q'] peek_least [of q x y] by auto

lemma size_pop: "pop q = Some (x, q') \<Longrightarrow> size (items q) = Suc (size (items q'))"
  using pop_Some [of q x q'] by simp

end

text \<open>The heap as the sorted list of its items; ties between equal items cannot be told
  apart.\<close>

definition heap_push :: "'a::linorder \<Rightarrow> 'a list \<Rightarrow> 'a list" where
  "heap_push x q = insort x q"

fun heap_peek :: "'a list \<Rightarrow> 'a option" where
  "heap_peek [] = None"
| "heap_peek (x # q) = Some x"

fun heap_pop :: "'a list \<Rightarrow> ('a \<times> 'a list) option" where
  "heap_pop [] = None"
| "heap_pop (x # q) = Some (x, q)"

interpretation heap: min_queue "[]" heap_push heap_peek heap_pop sorted mset
proof unfold_locales
  show "x \<le> y" if "sorted q" "heap_peek q = Some x" "y \<in># mset q" for q :: "'a list" and x y
    using that by (cases q) auto
  show "heap_peek q = Some x \<and> mset q = add_mset x (mset q')" if "heap_pop q = Some (x, q')"
    for q q' :: "'a list" and x
    using that by (cases q) auto
  show "sorted q'" if "sorted q" "heap_pop q = Some (x, q')" for q q' :: "'a list" and x
    using that by (cases q) auto
  show "(heap_peek q = None) = (mset q = {#})" for q :: "'a list" by (cases q) auto
  show "(heap_pop q = None) = (heap_peek q = None)" for q :: "'a list" by (cases q) auto
qed (auto simp: heap_push_def sorted_insort)

lemma set_heap_push [simp]: "set (heap_push x q) = insert x (set q)"
  by (simp add: heap_push_def set_insort_key)

lemma length_heap_push [simp]: "length (heap_push x q) = Suc (length q)"
  by (simp add: heap_push_def)

end
