(* ===== verification/Wire.thy ===== *)
theory Wire
  imports Prelude
begin

text \<open>
  The wire protocol of \<open>src/src/protocol.rs\<close>: the DATA, FEEDBACK, START and FIN
  datagrams, their encoders into caller-supplied buffers and their decoders over
  peer-supplied bytes. Encoders return the updated buffer (and the length the Rust
  function returns); decoders return \<open>'a option may_panic\<close>, the inner option being the
  Rust \<open>Option\<close> and the outer \<^term>\<open>None\<close> a panic.

  Groups of lemmas: closed forms of the encoders and decoders, round trips in both
  directions, absence of panics in every decoder, disjointness of the datagram types,
  and the block count.
\<close>

section \<open>Constants\<close>

definition PROTOCOL_VERSION :: int where "PROTOCOL_VERSION = 1"
definition DEFAULT_BLOCK_SIZE :: nat where "DEFAULT_BLOCK_SIZE = 1400"
definition DATA_HEADER_SIZE :: nat where "DATA_HEADER_SIZE = 36"

definition PDU_DATA :: byte where "PDU_DATA = 1"
definition PDU_FEEDBACK :: byte where "PDU_FEEDBACK = 2"
definition PDU_START :: byte where "PDU_START = 5"
definition PDU_FIN :: byte where "PDU_FIN = 4"

definition FLAG_RETRANSMIT :: byte where "FLAG_RETRANSMIT = push_bit 0 1"
definition FLAG_TICK_N :: byte where "FLAG_TICK_N = push_bit 1 1"
definition FLAG_HAS_TICK :: byte where "FLAG_HAS_TICK = push_bit 2 1"
definition FLAG_LAST_BLOCK :: byte where "FLAG_LAST_BLOCK = push_bit 3 1"

definition FEEDBACK_HEADER_SIZE :: nat where "FEEDBACK_HEADER_SIZE = 36"
definition NACK_ENTRY_SIZE :: nat where "NACK_ENTRY_SIZE = 16"

lemmas pdu_defs = PDU_DATA_def PDU_FEEDBACK_def PDU_START_def PDU_FIN_def

lemmas size_defs = DATA_HEADER_SIZE_def FEEDBACK_HEADER_SIZE_def NACK_ENTRY_SIZE_def

section \<open>Little-endian helpers\<close>

text \<open>The writers take the buffer and the start of the destination slice.\<close>

definition put_u16 :: "byte list \<Rightarrow> nat \<Rightarrow> u16 \<Rightarrow> byte list may_panic" where
  "put_u16 b off v = write_at b off (le_bytes 2 v)"

definition put_u32 :: "byte list \<Rightarrow> nat \<Rightarrow> u32 \<Rightarrow> byte list may_panic" where
  "put_u32 b off v = write_at b off (le_bytes 4 v)"

definition put_u64 :: "byte list \<Rightarrow> nat \<Rightarrow> u64 \<Rightarrow> byte list may_panic" where
  "put_u64 b off v = write_at b off (le_bytes 8 v)"

text \<open>\<open>buf[i] = v\<close>.\<close>

definition put_u8 :: "byte list \<Rightarrow> nat \<Rightarrow> byte \<Rightarrow> byte list may_panic" where
  "put_u8 b i v = write_at b i [v]"

definition get_u16 :: "byte list \<Rightarrow> u16 may_panic" where
  "get_u16 b = do { b0 \<leftarrow> index_at b 0; b1 \<leftarrow> index_at b 1; Some (le_word [b0, b1]) }"

definition get_u32 :: "byte list \<Rightarrow> u32 may_panic" where
  "get_u32 b = do {
     b0 \<leftarrow> index_at b 0; b1 \<leftarrow> index_at b 1; b2 \<leftarrow> index_at b 2; b3 \<leftarrow> index_at b 3;
     Some (le_word [b0, b1, b2, b3]) }"

definition get_u64 :: "byte list \<Rightarrow> u64 may_panic" where
  "get_u64 b = do {
     b0 \<leftarrow> index_at b 0; b1 \<leftarrow> index_at b 1; b2 \<leftarrow> index_at b 2; b3 \<leftarrow> index_at b 3;
     b4 \<leftarrow> index_at b 4; b5 \<leftarrow> index_at b 5; b6 \<leftarrow> index_at b 6; b7 \<leftarrow> index_at b 7;
     Some (le_word [b0, b1, b2, b3, b4, b5, b6, b7]) }"

definition put_echo_tick :: "byte list \<Rightarrow> u64 \<Rightarrow> byte list may_panic" where
  "put_echo_tick buf v = put_u64 buf 16 v"

lemmas put_defs = put_u8_def put_u16_def put_u32_def put_u64_def

lemma get_u16_exact: "length b = 2 \<Longrightarrow> get_u16 b = Some (le_word b)"
  by (auto simp: get_u16_def buffer_simps numeral_2_eq_2 length_Suc_conv)

lemma get_u32_exact: "length b = 4 \<Longrightarrow> get_u32 b = Some (le_word b)"
  by (auto simp: get_u32_def buffer_simps numeral_eq_Suc length_Suc_conv)

lemma get_u64_exact: "length b = 8 \<Longrightarrow> get_u64 b = Some (le_word b)"
  by (auto simp: get_u64_def buffer_simps numeral_eq_Suc length_Suc_conv)

lemmas get_exact = get_u16_exact get_u32_exact get_u64_exact

section \<open>DATA datagrams\<close>

record data_header =
  dh_flags :: byte
  dh_payload_len :: u16
  dh_session :: u32
  dh_block_seq :: u64
  dh_echo_tick :: u64
  dh_rex_index :: i64
  dh_payload_crc :: u32

definition encode_data_header :: "byte list \<Rightarrow> data_header \<Rightarrow> byte list may_panic" where
  "encode_data_header buf h = do {
     buf \<leftarrow> put_u8 buf 0 PDU_DATA;
     buf \<leftarrow> put_u8 buf 1 (dh_flags h);
     buf \<leftarrow> put_u16 buf 2 (dh_payload_len h);
     buf \<leftarrow> put_u32 buf 4 (dh_session h);
     buf \<leftarrow> put_u64 buf 8 (dh_block_seq h);
     buf \<leftarrow> put_u64 buf 16 (dh_echo_tick h);
     buf \<leftarrow> put_u64 buf 24 (dh_rex_index h);
     put_u32 buf 32 (dh_payload_crc h) }"

definition decode_data_header :: "byte list \<Rightarrow> data_header option may_panic" where
  "decode_data_header buf =
     (if length buf < DATA_HEADER_SIZE then Some None
      else do {
        t \<leftarrow> index_at buf 0;
        if t \<noteq> PDU_DATA then Some None
        else do {
          flags \<leftarrow> index_at buf 1;
          plen \<leftarrow> subslice buf 2 4 \<bind> get_u16;
          session \<leftarrow> subslice buf 4 8 \<bind> get_u32;
          seq \<leftarrow> subslice buf 8 16 \<bind> get_u64;
          tick \<leftarrow> subslice buf 16 24 \<bind> get_u64;
          rex \<leftarrow> subslice buf 24 32 \<bind> get_u64;
          crc \<leftarrow> subslice buf 32 36 \<bind> get_u32;
          Some (Some \<lparr>dh_flags = flags, dh_payload_len = plen, dh_session = session,
            dh_block_seq = seq, dh_echo_tick = tick, dh_rex_index = rex,
            dh_payload_crc = crc\<rparr>) } })"

text \<open>The 36 bytes of a header, as one list.\<close>

definition data_header_bytes :: "data_header \<Rightarrow> byte list" where
  "data_header_bytes h =
     PDU_DATA # dh_flags h # le_bytes 2 (dh_payload_len h) @ le_bytes 4 (dh_session h) @
     le_bytes 8 (dh_block_seq h) @ le_bytes 8 (dh_echo_tick h) @ le_bytes 8 (dh_rex_index h) @
     le_bytes 4 (dh_payload_crc h)"

lemma length_data_header_bytes [simp]: "length (data_header_bytes h) = 36"
  by (simp add: data_header_bytes_def)

lemma decode_data_header_bytes:
  "decode_data_header (data_header_bytes h @ rest) = Some (Some h)"
  by (simp add: decode_data_header_def data_header_bytes_def size_defs buffer_simps get_exact)

text \<open>Both 36-byte headers have the same field widths.\<close>

lemma header_layout:
  assumes "36 \<le> length (buf :: byte list)"
  obtains t f a b c d e g rest where
    "buf = t # f # a @ b @ c @ d @ e @ g @ rest" and "length a = 2" and "length b = 4"
    and "length c = 8" and "length d = 8" and "length e = 8" and "length g = 4"
proof -
  obtain t f r where b0: "buf = t # f # r"
    using assms that by (cases buf rule: remdups_adj.cases) auto
  with assms have r: "2 + 32 \<le> length r" by simp
  obtain a r1 where 1: "r = a @ r1" "length a = 2" "4 + 28 \<le> length r1"
    using split_chunk [OF r] by auto
  obtain b r2 where 2: "r1 = b @ r2" "length b = 4" "8 + 20 \<le> length r2"
    using split_chunk [OF 1(3)] by auto
  obtain c r3 where 3: "r2 = c @ r3" "length c = 8" "8 + 12 \<le> length r3"
    using split_chunk [OF 2(3)] by auto
  obtain d r4 where 4: "r3 = d @ r4" "length d = 8" "8 + 4 \<le> length r4"
    using split_chunk [OF 3(3)] by auto
  obtain e r5 where 5: "r4 = e @ r5" "length e = 8" "4 + 0 \<le> length r5"
    using split_chunk [OF 4(3)] by auto
  obtain g r6 where 6: "r5 = g @ r6" "length g = 4"
    using split_chunk [OF 5(3)] by auto
  show thesis
    by (rule that [of t f a b c d e g r6]) (simp_all add: b0 1(1,2) 2(1,2) 3(1,2) 4(1,2) 5(1,2) 6)
qed

lemma encode_data_header_eq:
  "36 \<le> length buf \<Longrightarrow> encode_data_header buf h = Some (data_header_bytes h @ drop 36 buf)"
  by (erule header_layout)
    (simp add: encode_data_header_def data_header_bytes_def put_defs buffer_simps)

text \<open>Every 36 bytes with the DATA type byte are the encoding of exactly one header.\<close>

lemma decode_data_header_cases:
  "36 \<le> length buf \<Longrightarrow> buf ! 0 = PDU_DATA \<Longrightarrow>
   \<exists>h. decode_data_header buf = Some (Some h) \<and> buf = data_header_bytes h @ drop 36 buf"
  by (erule header_layout)
    (auto simp: decode_data_header_def data_header_bytes_def size_defs buffer_simps get_exact
      split: option.splits)

lemma decode_data_header_reject:
  "length buf < 36 \<or> buf ! 0 \<noteq> PDU_DATA \<Longrightarrow> decode_data_header buf = Some None"
  by (auto simp: decode_data_header_def size_defs index_at_def)

lemma decode_data_header_Some_iff:
  "decode_data_header buf = Some (Some h) \<longleftrightarrow> (\<exists>rest. buf = data_header_bytes h @ rest)"
proof
  assume dec: "decode_data_header buf = Some (Some h)"
  then have "36 \<le> length buf" and "buf ! 0 = PDU_DATA"
    using decode_data_header_reject [of buf] by fastforce+
  then show "\<exists>rest. buf = data_header_bytes h @ rest"
    using decode_data_header_cases dec by fastforce
qed (auto simp: decode_data_header_bytes)

section \<open>FEEDBACK datagrams\<close>

record feedback_header =
  fh_tick_is_network :: bool
  fh_nack_count :: u16
  fh_session :: u32
  fh_tick :: u64
  fh_target_rate :: u64
  fh_hi_contig :: u64
  fh_done :: bool

record nack_entry =
  ne_block_seq :: u64
  ne_rex_index :: i64

text \<open>The loop of \<open>encode_feedback\<close> over the NACK entries, from offset \<open>off\<close>.\<close>

fun write_nacks :: "byte list \<Rightarrow> nat \<Rightarrow> nack_entry list \<Rightarrow> (byte list \<times> nat) may_panic" where
  "write_nacks buf off [] = Some (buf, off)"
| "write_nacks buf off (n # ns) = do {
     buf \<leftarrow> put_u64 buf off (ne_block_seq n);
     buf \<leftarrow> put_u64 buf (off + 8) (ne_rex_index n);
     write_nacks buf (off + NACK_ENTRY_SIZE) ns }"

definition encode_feedback ::
  "byte list \<Rightarrow> feedback_header \<Rightarrow> nack_entry list \<Rightarrow> (byte list \<times> nat) may_panic" where
  "encode_feedback buf h nacks = do {
     buf \<leftarrow> put_u8 buf 0 PDU_FEEDBACK;
     let flags = (if fh_tick_is_network h then 0 OR FLAG_TICK_N else 0);
     buf \<leftarrow> put_u8 buf 1 flags;
     buf \<leftarrow> put_u16 buf 2 (of_nat (length nacks));
     buf \<leftarrow> put_u32 buf 4 (fh_session h);
     buf \<leftarrow> put_u64 buf 8 (fh_tick h);
     buf \<leftarrow> put_u64 buf 16 (fh_target_rate h);
     buf \<leftarrow> put_u64 buf 24 (fh_hi_contig h);
     buf \<leftarrow> put_u8 buf 32 (if fh_done h then 1 else 0);
     buf \<leftarrow> put_u8 buf 33 0;
     buf \<leftarrow> put_u8 buf 34 0;
     buf \<leftarrow> put_u8 buf 35 0;
     write_nacks buf FEEDBACK_HEADER_SIZE nacks }"

fun read_nacks :: "byte list \<Rightarrow> nat \<Rightarrow> nat \<Rightarrow> nack_entry list may_panic" where
  "read_nacks buf off 0 = Some []"
| "read_nacks buf off (Suc n) = do {
     seq \<leftarrow> subslice buf off (off + 8) \<bind> get_u64;
     rex \<leftarrow> subslice buf (off + 8) (off + 16) \<bind> get_u64;
     ns \<leftarrow> read_nacks buf (off + NACK_ENTRY_SIZE) n;
     Some (\<lparr>ne_block_seq = seq, ne_rex_index = rex\<rparr> # ns) }"

definition decode_feedback ::
  "byte list \<Rightarrow> (feedback_header \<times> nack_entry list) option may_panic" where
  "decode_feedback buf =
     (if length buf < FEEDBACK_HEADER_SIZE then Some None
      else do {
        t \<leftarrow> index_at buf 0;
        if t \<noteq> PDU_FEEDBACK then Some None
        else do {
          flags \<leftarrow> index_at buf 1;
          cnt \<leftarrow> subslice buf 2 4 \<bind> get_u16;
          session \<leftarrow> subslice buf 4 8 \<bind> get_u32;
          tick \<leftarrow> subslice buf 8 16 \<bind> get_u64;
          rate \<leftarrow> subslice buf 16 24 \<bind> get_u64;
          hi \<leftarrow> subslice buf 24 32 \<bind> get_u64;
          dn \<leftarrow> index_at buf 32;
          let h = \<lparr>fh_tick_is_network = (flags AND FLAG_TICK_N \<noteq> 0), fh_nack_count = cnt,
            fh_session = session, fh_tick = tick, fh_target_rate = rate, fh_hi_contig = hi,
            fh_done = (dn = 1)\<rparr>;
          let need = FEEDBACK_HEADER_SIZE + unat cnt * NACK_ENTRY_SIZE;
          if length buf < need then Some None
          else do {
            nacks \<leftarrow> read_nacks buf FEEDBACK_HEADER_SIZE (unat cnt);
            Some (Some (h\<lparr>fh_nack_count := of_nat (length nacks)\<rparr>, nacks)) } } })"

definition nack_bytes :: "nack_entry \<Rightarrow> byte list" where
  "nack_bytes n = le_bytes 8 (ne_block_seq n) @ le_bytes 8 (ne_rex_index n)"

lemma length_nack_bytes [simp]: "length (nack_bytes n) = 16"
  by (simp add: nack_bytes_def)

lemma length_concat_nacks [simp]: "length (concat (map nack_bytes ns)) = 16 * length ns"
  by (induction ns) auto

lemma write_nacks_eq:
  "length buf = length pre + 16 * length ns + k \<Longrightarrow> length pre = off \<Longrightarrow> take off buf = pre \<Longrightarrow>
   write_nacks buf off ns =
     Some (pre @ concat (map nack_bytes ns) @ drop (off + 16 * length ns) buf,
           off + 16 * length ns)"
proof (induction ns arbitrary: buf off pre)
  case Nil
  then show ?case by (metis add_0_right append_Nil append_take_drop_id concat.simps(1)
      list.map_disc_iff list.size(3) mult_0_right write_nacks.simps(1) list.simps(8))
next
  case (Cons n ns)
  let ?mid = "le_bytes 8 (ne_block_seq n)"
  let ?b1 = "pre @ ?mid @ drop (off + 8) buf" and ?b2 = "pre @ nack_bytes n @ drop (off + 16) buf"
  have w1: "put_u64 buf off (ne_block_seq n) = Some ?b1"
    using Cons.prems by (simp add: put_defs write_at_def)
  have w2: "put_u64 ?b1 (off + 8) (ne_rex_index n) = Some ?b2"
    using Cons.prems by (simp add: put_defs write_at_def nack_bytes_def add.commute)
  have "write_nacks ?b2 (off + 16) ns =
      Some ((pre @ nack_bytes n) @ concat (map nack_bytes ns) @
        drop (off + 16 + 16 * length ns) ?b2, off + 16 + 16 * length ns)"
    using Cons.prems by (intro Cons.IH) auto
  with w1 w2 Cons.prems show ?case
    by (simp add: NACK_ENTRY_SIZE_def ac_simps)
qed

lemma read_nacks_eq:
  "length pre = off \<Longrightarrow> read_nacks (pre @ concat (map nack_bytes ns) @ rest) off (length ns) = Some ns"
proof (induction ns arbitrary: off pre)
  case Nil
  then show ?case by simp
next
  case (Cons n ns)
  have IH: "read_nacks ((pre @ nack_bytes n) @ concat (map nack_bytes ns) @ rest) (off + 16)
      (length ns) = Some ns"
    using Cons.prems by (intro Cons.IH) simp
  with Cons.prems show ?case
    by (simp add: NACK_ENTRY_SIZE_def subslice_def nack_bytes_def [of n] get_exact)
qed

lemma read_nacks_total:
  "off + 16 * n \<le> length buf \<Longrightarrow> \<exists>ns. read_nacks buf off n = Some ns \<and> length ns = n"
proof (induction n arbitrary: off)
  case 0
  then show ?case by simp
next
  case (Suc n)
  from Suc.IH [of "off + 16"] Suc.prems
  obtain ns where "read_nacks buf (off + 16) n = Some ns" "length ns = n"
    by auto
  with Suc.prems show ?case
    by (simp add: NACK_ENTRY_SIZE_def subslice_def get_exact)
qed

definition feedback_header_bytes :: "feedback_header \<Rightarrow> nat \<Rightarrow> byte list" where
  "feedback_header_bytes h cnt =
     PDU_FEEDBACK # (if fh_tick_is_network h then FLAG_TICK_N else 0) #
     le_bytes 2 (of_nat cnt :: u16) @ le_bytes 4 (fh_session h) @ le_bytes 8 (fh_tick h) @
     le_bytes 8 (fh_target_rate h) @ le_bytes 8 (fh_hi_contig h) @
     [if fh_done h then 1 else 0, 0, 0, 0]"

lemma length_feedback_header_bytes [simp]: "length (feedback_header_bytes h c) = 36"
  by (simp add: feedback_header_bytes_def)

lemma encode_feedback_header:
  assumes "36 \<le> length buf"
  shows "encode_feedback buf h ns = write_nacks (feedback_header_bytes h (length ns) @ drop 36 buf) 36 ns"
proof -
  from assms obtain t f a b c d e g rest where buf: "buf = t # f # a @ b @ c @ d @ e @ g @ rest"
    and len: "length a = 2" "length b = 4" "length c = 8" "length d = 8" "length e = 8"
      "length g = 4"
    by (rule header_layout)
  from \<open>length g = 4\<close> obtain g0 g1 g2 g3 where g: "g = [g0, g1, g2, g3]"
    by (auto simp: numeral_eq_Suc length_Suc_conv)
  show ?thesis
    by (simp add: encode_feedback_def feedback_header_bytes_def put_defs buffer_simps size_defs
        Let_def buf len g)
qed

lemma encode_feedback_eq:
  assumes "36 + 16 * length ns \<le> length buf"
  shows "encode_feedback buf h ns =
    Some (feedback_header_bytes h (length ns) @ concat (map nack_bytes ns) @
          drop (36 + 16 * length ns) buf, 36 + 16 * length ns)"
proof -
  let ?hd = "feedback_header_bytes h (length ns)"
  have "encode_feedback buf h ns = write_nacks (?hd @ drop 36 buf) 36 ns"
    using assms by (simp add: encode_feedback_header)
  also have "\<dots> = Some (?hd @ concat (map nack_bytes ns) @
      drop (36 + 16 * length ns) (?hd @ drop 36 buf), 36 + 16 * length ns)"
    using assms by (intro write_nacks_eq [where k = "length buf - (36 + 16 * length ns)"]) auto
  finally show ?thesis by (simp add: add.commute)
qed

lemma decode_feedback_bytes:
  assumes "length ns < 2 ^ 16"
  shows "decode_feedback (feedback_header_bytes h (length ns) @ concat (map nack_bytes ns) @ rest) =
    Some (Some (h\<lparr>fh_nack_count := of_nat (length ns)\<rparr>, ns))"
proof -
  let ?hd = "feedback_header_bytes h (length ns)"
  have n: "unat (of_nat (length ns) :: u16) = length ns"
    using assms by (simp add: unat_of_nat)
  have rd: "read_nacks (?hd @ concat (map nack_bytes ns) @ rest) 36 (length ns) = Some ns"
    by (rule read_nacks_eq) simp
  then show ?thesis
    by (simp add: decode_feedback_def feedback_header_bytes_def size_defs buffer_simps get_exact
        n Let_def FLAG_TICK_N_def)
qed

lemma decode_feedback_total: "decode_feedback buf \<noteq> None"
proof (cases "36 \<le> length buf")
  case True
  then obtain t f a b c d e g rest where buf: "buf = t # f # a @ b @ c @ d @ e @ g @ rest"
    and len: "length a = 2" "length b = 4" "length c = 8" "length d = 8" "length e = 8"
      "length g = 4"
    by (rule header_layout)
  from \<open>length g = 4\<close> obtain g0 g1 g2 g3 where g: "g = [g0, g1, g2, g3]"
    by (auto simp: numeral_eq_Suc length_Suc_conv)
  have "\<exists>ns. read_nacks buf 36 n = Some ns" if "36 + n * 16 \<le> length buf" for n
    using read_nacks_total [of 36 n buf] that by (auto simp: mult.commute)
  then have rd: "read_nacks buf 36 (unat (le_word a :: u16)) \<noteq> None"
    if "\<not> length buf < 36 + unat (le_word a :: u16) * 16"
    using that by (metis not_less option.distinct(1))
  have "decode_feedback buf =
      (if t \<noteq> PDU_FEEDBACK then Some None
       else if length buf < 36 + unat (le_word a :: u16) * 16 then Some None
       else read_nacks buf 36 (unat (le_word a :: u16)) \<bind> (\<lambda>ns. Some (Some
         (\<lparr>fh_tick_is_network = (f AND FLAG_TICK_N \<noteq> 0), fh_nack_count = of_nat (length ns),
           fh_session = le_word b, fh_tick = le_word c, fh_target_rate = le_word d,
           fh_hi_contig = le_word e, fh_done = (g0 = 1)\<rparr>, ns))))"
    by (simp add: decode_feedback_def size_defs buffer_simps get_exact buf len g Let_def)
  with rd show ?thesis
    by (auto split: option.splits)
qed (simp add: decode_feedback_def size_defs)

section \<open>START and FIN datagrams\<close>

definition encode_start :: "byte list \<Rightarrow> u32 \<Rightarrow> (byte list \<times> nat) may_panic" where
  "encode_start buf session = do {
     buf \<leftarrow> put_u8 buf 0 PDU_START;
     buf \<leftarrow> put_u8 buf 1 0;
     buf \<leftarrow> put_u8 buf 2 0;
     buf \<leftarrow> put_u8 buf 3 0;
     buf \<leftarrow> put_u32 buf 4 session;
     Some (buf, 8) }"

definition decode_start :: "byte list \<Rightarrow> u32 option may_panic" where
  "decode_start buf =
     (if length buf < 8 then Some None
      else do {
        t \<leftarrow> index_at buf 0;
        if t \<noteq> PDU_START then Some None
        else do { session \<leftarrow> subslice buf 4 8 \<bind> get_u32; Some (Some session) } })"

definition encode_fin :: "byte list \<Rightarrow> u32 \<Rightarrow> u64 \<Rightarrow> (byte list \<times> nat) may_panic" where
  "encode_fin buf session total_blocks = do {
     buf \<leftarrow> put_u8 buf 0 PDU_FIN;
     buf \<leftarrow> put_u8 buf 1 0;
     buf \<leftarrow> put_u8 buf 2 0;
     buf \<leftarrow> put_u8 buf 3 0;
     buf \<leftarrow> put_u32 buf 4 session;
     buf \<leftarrow> put_u64 buf 8 total_blocks;
     Some (buf, 16) }"

definition decode_fin :: "byte list \<Rightarrow> (u32 \<times> u64) option may_panic" where
  "decode_fin buf =
     (if length buf < 16 then Some None
      else do {
        t \<leftarrow> index_at buf 0;
        if t \<noteq> PDU_FIN then Some None
        else do {
          session \<leftarrow> subslice buf 4 8 \<bind> get_u32;
          total \<leftarrow> subslice buf 8 16 \<bind> get_u64;
          Some (Some (session, total)) } })"

definition pdu_type :: "byte list \<Rightarrow> byte may_panic" where
  "pdu_type buf = (if buf = [] then Some 0 else index_at buf 0)"

lemma encode_start_eq:
  "length buf = 8 \<Longrightarrow> encode_start buf session = Some (PDU_START # 0 # 0 # 0 # le_bytes 4 session, 8)"
  by (auto simp: encode_start_def put_defs buffer_simps numeral_eq_Suc length_Suc_conv)

lemma encode_fin_eq:
  "length buf = 16 \<Longrightarrow> encode_fin buf session tot =
     Some (PDU_FIN # 0 # 0 # 0 # le_bytes 4 session @ le_bytes 8 tot, 16)"
  by (simp add: encode_fin_def put_defs write_at_def)

lemma decode_start_bytes:
  "decode_start (PDU_START # 0 # 0 # 0 # le_bytes 4 session) = Some (Some session)"
  by (simp add: decode_start_def buffer_simps get_exact)

lemma decode_fin_bytes:
  "decode_fin (PDU_FIN # 0 # 0 # 0 # le_bytes 4 session @ le_bytes 8 tot) =
     Some (Some (session, tot))"
  by (simp add: decode_fin_def buffer_simps get_exact)

lemma decode_data_header_total: "decode_data_header buf \<noteq> None"
  using decode_data_header_cases [of buf] decode_data_header_reject [of buf]
  by (metis not_less option.distinct(1))

lemma decode_start_total: "decode_start buf \<noteq> None"
  by (auto simp: decode_start_def index_at_def subslice_def get_exact)

lemma decode_fin_total: "decode_fin buf \<noteq> None"
  by (auto simp: decode_fin_def index_at_def subslice_def get_exact)

lemma pdu_type_total: "pdu_type buf \<noteq> None"
  by (simp add: pdu_type_def index_at_def)

lemmas decode_total = decode_data_header_total decode_feedback_total decode_start_total decode_fin_total pdu_type_total

section \<open>Block count\<close>

text \<open>Sizes are \<open>i64\<close> values as integers; \<open>u64::div_ceil\<close> panics on a zero divisor.\<close>

definition num_blocks :: "int \<Rightarrow> nat \<Rightarrow> nat may_panic" where
  "num_blocks sz block_size =
     (if sz \<le> 0 then Some 0
      else if block_size = 0 then None
      else Some (nat sz div block_size + (if nat sz mod block_size > 0 then 1 else 0)))"

lemma num_blocks_0 [simp]: "num_blocks 0 bs = Some 0"
  by (simp add: num_blocks_def)

lemma num_blocks_less_iff:
  assumes "num_blocks sz bs = Some n" and "0 < bs"
  shows "seq < n \<longleftrightarrow> int (seq * bs) < sz"
proof (cases "sz \<le> 0")
  case True
  moreover have "0 \<le> int (seq * bs)" by simp
  ultimately show ?thesis using assms by (auto simp: num_blocks_def simp del: of_nat_mult)
next
  case False
  then obtain k where k: "sz = int k" "0 < k"
    by (metis not_le zero_less_imp_eq_int)
  have "seq < k div bs + (if k mod bs > 0 then 1 else 0) \<longleftrightarrow> seq * bs < k"
  proof (cases "k mod bs = 0")
    case True
    then have "k = (k div bs) * bs" by (metis add_0_right div_mult_mod_eq)
    with assms(2) True show ?thesis by (metis add_0_right less_irrefl mult_less_cancel2)
  next
    case False
    have "seq * bs < k \<longleftrightarrow> seq \<le> k div bs"
    proof
      assume "seq \<le> k div bs"
      then have "seq * bs \<le> (k div bs) * bs" by simp
      then show "seq * bs < k" using div_mult_mod_eq [of k bs] False by linarith
    qed (use assms(2) in \<open>metis div_le_mono div_mult_self_is_m less_imp_le mult.commute\<close>)
    with False show ?thesis by auto
  qed
  with k assms show ?thesis by (simp add: num_blocks_def del: of_nat_mult)
qed

lemma num_blocks_Some: "0 < bs \<Longrightarrow> \<exists>n. num_blocks sz bs = Some n"
  by (simp add: num_blocks_def)

section \<open>Properties\<close>

text \<open>A DATA header written into any buffer of at least 36 bytes is read back
  unchanged by the decoder, the buffer keeps its length and the payload area behind the
  header is untouched.\<close>

theorem data_header_roundtrip:
  assumes "DATA_HEADER_SIZE \<le> length buf"
  shows "\<exists>buf'. encode_data_header buf h = Some buf' \<and> length buf' = length buf \<and>
    drop DATA_HEADER_SIZE buf' = drop DATA_HEADER_SIZE buf \<and>
    decode_data_header buf' = Some (Some h)"
  using assms by (simp add: encode_data_header_eq decode_data_header_bytes size_defs)

theorem data_header_roundtrip_witness:
  "\<exists>buf'. encode_data_header (replicate 40 7)
      \<lparr>dh_flags = 9, dh_payload_len = 4, dh_session = 77, dh_block_seq = 2 ^ 40,
       dh_echo_tick = 5, dh_rex_index = - 1, dh_payload_crc = 123456\<rparr> = Some buf' \<and>
    drop DATA_HEADER_SIZE buf' = [7, 7, 7, 7]"
proof -
  have "DATA_HEADER_SIZE \<le> length (replicate 40 (7 :: byte))"
    by (simp add: size_defs)
  from data_header_roundtrip [OF this] show ?thesis
    by (fastforce simp: size_defs eval_nat_numeral)
qed

text \<open>The DATA header encoding is canonical. Whenever the decoder accepts a
  datagram, encoding the decoded header over it reproduces the datagram byte for byte, so no
  two byte strings of the same payload decode to one header.\<close>

theorem data_header_canonical:
  assumes "decode_data_header buf = Some (Some h)"
  shows "encode_data_header buf h = Some buf"
proof -
  from assms obtain rest where "buf = data_header_bytes h @ rest"
    by (auto simp: decode_data_header_Some_iff)
  then show ?thesis by (simp add: encode_data_header_eq)
qed

theorem data_header_canonical_witness:
  "encode_data_header (1 # replicate 35 0)
     \<lparr>dh_flags = 0, dh_payload_len = 0, dh_session = 0, dh_block_seq = 0,
      dh_echo_tick = 0, dh_rex_index = 0, dh_payload_crc = 0\<rparr> = Some (1 # replicate 35 0)"
  by (rule data_header_canonical) code_simp

text \<open>Property C32: a FEEDBACK datagram with up to 65535 NACK entries, written into a buffer
  that has room for them, has length 36 + 16 n and is read back as the same header (with the
  entry count filled in) and the same entries in order.\<close>

theorem feedback_roundtrip:
  assumes "length ns < 2 ^ 16"
    and "FEEDBACK_HEADER_SIZE + length ns * NACK_ENTRY_SIZE \<le> length buf"
  shows "\<exists>buf' n. encode_feedback buf h ns = Some (buf', n) \<and>
    n = FEEDBACK_HEADER_SIZE + length ns * NACK_ENTRY_SIZE \<and>
    decode_feedback (take n buf') =
      Some (Some (h\<lparr>fh_nack_count := of_nat (length ns)\<rparr>, ns))"
  using assms decode_feedback_bytes [of ns h "[]"]
  by (simp add: size_defs encode_feedback_eq mult.commute)

theorem feedback_roundtrip_witness:
  "\<exists>buf' n. encode_feedback (replicate 52 0)
      \<lparr>fh_tick_is_network = True, fh_nack_count = 0, fh_session = 7, fh_tick = 1000,
       fh_target_rate = 100000000, fh_hi_contig = 3, fh_done = False\<rparr>
      [\<lparr>ne_block_seq = 3, ne_rex_index = 3\<rparr>] = Some (buf', n) \<and> n = 52"
proof -
  have "length [\<lparr>ne_block_seq = 3, ne_rex_index = 3\<rparr>] < 2 ^ 16"
    and "FEEDBACK_HEADER_SIZE + length [\<lparr>ne_block_seq = 3 :: u64, ne_rex_index = 3 :: i64\<rparr>] *
      NACK_ENTRY_SIZE \<le> length (replicate 52 (0 :: byte))"
    by (simp_all add: size_defs)
  from feedback_roundtrip [OF this] show ?thesis
    by (fastforce simp: size_defs)
qed

text \<open>START and FIN datagrams, written into the 8- and 16-byte buffers the
  receiver and the sender use, decode to the session (and block count) they were built from.\<close>

theorem start_fin_roundtrip:
  "(\<exists>b. encode_start (replicate 8 0) session = Some (b, 8) \<and>
      decode_start (take 8 b) = Some (Some session)) \<and>
   (\<exists>b. encode_fin (replicate 16 0) session tot = Some (b, 16) \<and>
      decode_fin (take 16 b) = Some (Some (session, tot)))"
  using decode_start_bytes [of session] decode_fin_bytes [of session tot]
  by (simp_all add: encode_start_eq encode_fin_eq)

text \<open>No datagram, however short or malformed, makes a decoder index out of
  range: every decoder returns for every byte string.\<close>

theorem decoders_never_panic:
  "decode_data_header buf \<noteq> None \<and> decode_feedback buf \<noteq> None \<and> decode_start buf \<noteq> None \<and>
   decode_fin buf \<noteq> None \<and> pdu_type buf \<noteq> None"
  using decode_total by blast

text \<open>The type byte selects the decoder. The decoder of a datagram type
  accepts nothing that carries another type byte, so the four types are disjoint on the
  wire.\<close>

theorem pdu_type_selects_decoder:
  "(pdu_type buf \<noteq> Some PDU_DATA \<longrightarrow> decode_data_header buf = Some None) \<and>
   (pdu_type buf \<noteq> Some PDU_FEEDBACK \<longrightarrow> decode_feedback buf = Some None) \<and>
   (pdu_type buf \<noteq> Some PDU_START \<longrightarrow> decode_start buf = Some None) \<and>
   (pdu_type buf \<noteq> Some PDU_FIN \<longrightarrow> decode_fin buf = Some None) \<and>
   distinct [PDU_DATA, PDU_FEEDBACK, PDU_START, PDU_FIN]"
  by (auto simp: decode_data_header_def decode_feedback_def decode_start_def decode_fin_def
      pdu_type_def index_at_def pdu_defs size_defs)

theorem pdu_type_selects_decoder_witness:
  "decode_feedback (1 # replicate 51 0) = Some None"
  using pdu_type_selects_decoder [of "1 # replicate 51 0"]
  by (simp add: pdu_type_def index_at_def pdu_defs)

text \<open>The block count covers the file exactly. For a positive block size, block
  \<open>seq\<close> is one of the counted blocks if and only if its first byte lies inside the file.\<close>

theorem num_blocks_covers:
  assumes "0 < bs"
  shows "\<exists>n. num_blocks sz bs = Some n \<and> (\<forall>seq. seq < n \<longleftrightarrow> int (seq * bs) < sz)"
  using num_blocks_Some [OF assms] num_blocks_less_iff [OF _ assms] by metis

theorem num_blocks_covers_witness:
  "\<exists>n. num_blocks 2801 1400 = Some n \<and> (\<forall>seq. seq < n \<longleftrightarrow> int (seq * 1400) < 2801)"
  by (rule num_blocks_covers) simp

end
