(* ===== verification/Float64.thy ===== *)
theory Float64
  imports Complex_Main Prelude
begin

text \<open>
  The \<open>f64\<close> arithmetic the rate controller, the RTT estimator, the loss scanner and the
  pacer compute with: IEEE 754 binary64 with round-to-nearest, ties to even, as a rounding
  function on the reals applied after every operation. Subnormal spacing is modelled (the
  least exponent is -1074); the exponent range is not bounded above, because every value
  these components hold stays below 2 to the 65 (rates are clamped to a \<open>u64\<close>, times are
  microsecond counts), far from the overflow threshold, and no operation produces a NaN
  (no division by zero is reached). Casts \<open>as u64\<close> saturate, as in Rust.

  The locale \<open>fp_rounding\<close> states what the components use of the rounding function; it is
  interpreted on \<open>f64_round\<close>.
\<close>

section \<open>What the components rely on\<close>

locale fp_rounding =
  fixes rnd :: "real \<Rightarrow> real"
  assumes rnd_mono: "x \<le> y \<Longrightarrow> rnd x \<le> rnd y"
    and rnd_idem: "rnd (rnd x) = rnd x"
    and rnd_minus: "rnd (- x) = - rnd x"
    and rnd_error: "\<bar>rnd x - x\<bar> \<le> \<bar>x\<bar>"
    and rnd_int: "\<bar>n\<bar> \<le> 2 ^ 53 \<Longrightarrow> rnd (of_int n) = of_int n"
    and rnd_double: "rnd x = x \<Longrightarrow> rnd (2 * x) = 2 * x"
begin

lemma rnd_0 [simp]: "rnd 0 = 0"
  using rnd_int [of 0] by simp

lemma rnd_le_rep: "rnd r = r \<Longrightarrow> x \<le> r \<Longrightarrow> rnd x \<le> r"
  using rnd_mono by metis

lemma rnd_ge_rep: "rnd r = r \<Longrightarrow> r \<le> x \<Longrightarrow> r \<le> rnd x"
  using rnd_mono by metis

lemma rnd_nonneg: "0 \<le> x \<Longrightarrow> 0 \<le> rnd x"
  using rnd_ge_rep [of 0 x] by simp

lemma rnd_upper: "0 \<le> x \<Longrightarrow> rnd x \<le> 2 * x"
  using rnd_error [of x] by linarith

lemma rnd_nat: "n \<le> 2 ^ 53 \<Longrightarrow> rnd (real n) = real n"
  using rnd_int [of "int n"] by (simp flip: of_nat_power)

lemma rnd_numeral: "numeral n \<le> (2 ^ 53 :: nat) \<Longrightarrow> rnd (numeral n) = numeral n"
  using rnd_nat [of "numeral n"] by simp

text \<open>One smoothing step \<open>s + fl(c (t - s))\<close> with a gain of at most a quarter stays between
  any representable bounds on the old value and the sample.\<close>

lemma smooth_le:
  assumes "rnd M = M" and "s \<le> M" and "t \<le> M" and "0 \<le> c" and "c \<le> 1 / 4"
  shows "rnd (s + rnd (c * rnd (t - s))) \<le> M"
proof (rule rnd_le_rep [OF assms(1)])
  have "rnd (t - s) \<le> 2 * (M - s)"
  proof (cases "0 \<le> t - s")
    case True
    then show ?thesis using rnd_upper [OF True] assms by simp
  next
    case False
    then have "rnd (t - s) \<le> 0" using rnd_mono [of "t - s" 0] by simp
    then show ?thesis using assms by simp
  qed
  then have "c * rnd (t - s) \<le> c * (2 * (M - s))"
    using assms by (intro mult_left_mono)
  also have "\<dots> \<le> 1 / 4 * (2 * (M - s))"
    using assms by (intro mult_right_mono) auto
  finally have *: "c * rnd (t - s) \<le> (M - s) / 2" by simp
  then have "rnd (c * rnd (t - s)) \<le> rnd ((M - s) / 2)" by (rule rnd_mono)
  also have "\<dots> \<le> M - s" using rnd_upper [of "(M - s) / 2"] assms by simp
  finally show "s + rnd (c * rnd (t - s)) \<le> M" by simp
qed

lemma smooth_ge:
  assumes "rnd M = M" and "M \<le> s" and "M \<le> t" and "0 \<le> c" and "c \<le> 1 / 4"
  shows "M \<le> rnd (s + rnd (c * rnd (t - s)))"
proof -
  have "rnd (- s + rnd (c * rnd (- t - - s))) \<le> - M"
    using assms by (intro smooth_le) (auto simp: rnd_minus)
  moreover have "- s + rnd (c * rnd (- t - - s)) = - (s + rnd (c * rnd (t - s)))"
    using rnd_minus [of "t - s"] rnd_minus [of "c * rnd (t - s)"] by simp
  ultimately show ?thesis by (simp only: rnd_minus)
qed

end

section \<open>Round to nearest, ties to even\<close>

definition round_even :: "real \<Rightarrow> int" where
  "round_even y =
     (let f = \<lfloor>y\<rfloor>; d = y - of_int f
      in if d < 1 / 2 then f else if 1 / 2 < d then f + 1 else if even f then f else f + 1)"

text \<open>The exponent of the last place of the 53-bit significand of \<open>x\<close>.\<close>

definition f64_exp :: "real \<Rightarrow> int" where
  "f64_exp x = max (\<lfloor>log 2 \<bar>x\<bar>\<rfloor> - 52) (- 1074)"

definition f64_round :: "real \<Rightarrow> real" where
  "f64_round x = of_int (round_even (x / 2 powi f64_exp x)) * 2 powi f64_exp x"

lemma round_even_int [simp]: "round_even (of_int n) = n"
  by (simp add: round_even_def)

lemma round_even_0 [simp]: "round_even 0 = 0"
  using round_even_int [of 0] by simp

lemma round_even_cases: "round_even y = \<lfloor>y\<rfloor> \<or> round_even y = \<lfloor>y\<rfloor> + 1"
  by (simp add: round_even_def Let_def)

lemma round_even_dist: "\<bar>of_int (round_even y) - y\<bar> \<le> 1 / 2"
  unfolding round_even_def Let_def
  by (cases "y - of_int \<lfloor>y\<rfloor> < 1 / 2") (auto simp: abs_if, linarith+)

lemma round_even_mono:
  assumes "x \<le> y"
  shows "round_even x \<le> round_even y"
proof (cases "\<lfloor>x\<rfloor> = \<lfloor>y\<rfloor>")
  case True
  with assms show ?thesis by (auto simp: round_even_def Let_def)
next
  case False
  with assms have "\<lfloor>x\<rfloor> + 1 \<le> \<lfloor>y\<rfloor>" using floor_mono [OF assms] by linarith
  then show ?thesis using round_even_cases [of x] round_even_cases [of y] by linarith
qed

lemma round_even_minus: "round_even (- y) = - round_even y"
proof (cases "y = of_int \<lfloor>y\<rfloor>")
  case True
  then show ?thesis by (metis of_int_minus round_even_int)
next
  case False
  then have f: "\<lfloor>- y\<rfloor> = - \<lfloor>y\<rfloor> - 1" by (simp add: floor_eq_iff, linarith)
  show ?thesis by (auto simp: round_even_def Let_def f)
qed

lemma round_even_le: "y \<le> of_int n \<Longrightarrow> round_even y \<le> n"
  using round_even_mono [of y "of_int n"] by simp

lemma round_even_ge: "of_int n \<le> y \<Longrightarrow> n \<le> round_even y"
  using round_even_mono [of "of_int n" y] by simp

lemma round_even_abs: "\<bar>y\<bar> \<le> of_int n \<Longrightarrow> \<bar>round_even y\<bar> \<le> n"
  using round_even_le [of y n] round_even_ge [of "- n" y] by (auto simp: abs_le_iff)

section \<open>Representable values and the laws of rounding\<close>

definition f64_rep :: "real \<Rightarrow> bool" where
  "f64_rep x \<longleftrightarrow> (\<exists>m e. x = of_int m * 2 powi e \<and> \<bar>m\<bar> \<le> 2 ^ 53 \<and> - 1074 \<le> e)"

lemma powi_split: "(2::real) powi a = 2 powi b * 2 powi (a - b)"
  by (simp flip: power_int_add)

lemma powi_nonneg_int: "0 \<le> k \<Longrightarrow> (2::real) powi k = of_int (2 ^ nat k)"
  by (simp add: power_int_def)

lemma log_bounds:
  assumes "x \<noteq> 0"
  shows "2 powi \<lfloor>log 2 \<bar>x\<bar>\<rfloor> \<le> \<bar>x\<bar>" and "\<bar>x\<bar> < 2 powi (\<lfloor>log 2 \<bar>x\<bar>\<rfloor> + 1)"
  using floor_log_eq_powr_iff [of "\<bar>x\<bar>" 2 "\<lfloor>log 2 \<bar>x\<bar>\<rfloor>"] assms
  by (auto simp flip: powr_real_of_int')

lemma f64_round_minus: "f64_round (- x) = - f64_round x"
  using round_even_minus [of "x / 2 powi f64_exp x"] by (simp add: f64_round_def f64_exp_def)

lemma f64_round_exactI:
  assumes "x = of_int k * 2 powi f64_exp x"
  shows "f64_round x = x"
proof -
  have "x / 2 powi f64_exp x = of_int k"
    by (subst assms) simp
  then show ?thesis using assms by (simp add: f64_round_def)
qed

lemma f64_exp_le_imp_exact:
  assumes "f64_exp x \<le> e" and "x = of_int m * 2 powi e"
  shows "f64_round x = x"
proof (rule f64_round_exactI)
  have "(2::real) powi e = of_int (2 ^ nat (e - f64_exp x)) * 2 powi f64_exp x"
    using powi_nonneg_int [of "e - f64_exp x"] assms(1) powi_split [of e "f64_exp x"]
    by (metis diff_ge_0_iff_ge mult.commute)
  then show "x = of_int (m * 2 ^ nat (e - f64_exp x)) * 2 powi f64_exp x"
    by (metis assms(2) mult.assoc of_int_mult)
qed

text \<open>A significand of at most 53 bits needs an exponent one larger only when it is a power
  of two.\<close>

lemma f64_exp_rep_cases:
  assumes x: "x = of_int m * 2 powi e" and m: "\<bar>m\<bar> \<le> 2 ^ 53" and e: "- 1074 \<le> e" and "x \<noteq> 0"
  shows "f64_exp x \<le> e \<or> \<bar>m\<bar> = 2 ^ 53 \<and> f64_exp x = e + 1"
proof (rule disjCI)
  define k where "k = \<lfloor>log 2 \<bar>x\<bar>\<rfloor>"
  assume less: "\<not> (\<bar>m\<bar> = 2 ^ 53 \<and> f64_exp x = e + 1)"
  have le: "(2::real) powi k \<le> of_int \<bar>m\<bar> * 2 powi e"
    using log_bounds(1) [OF \<open>x \<noteq> 0\<close>] by (simp add: k_def x abs_mult)
  have up: "(2::real) powi e * of_int \<bar>m\<bar> \<le> 2 powi (e + 53)"
    using m by (simp add: power_int_add)
  have "(2::real) powi k \<le> 2 powi (e + 53)" using le up by (simp add: mult.commute)
  then have k: "k \<le> e + 53" using power_int_strict_increasing [of "e + 53" k "2::real"] by force
  show "f64_exp x \<le> e"
  proof (cases "k = e + 53")
    case True
    then have "(2::real) powi e * 2 ^ 53 \<le> 2 powi e * of_int \<bar>m\<bar>"
      using le by (simp add: power_int_add mult.commute)
    then have "2 ^ 53 \<le> \<bar>m\<bar>" by (simp del: of_int_abs)
    then have "\<bar>m\<bar> = 2 ^ 53" using m by simp
    then show ?thesis using less True e by (simp add: f64_exp_def flip: k_def)
  next
    case False
    then show ?thesis using k e by (simp add: f64_exp_def flip: k_def)
  qed
qed

lemma f64_round_rep:
  assumes "f64_rep x"
  shows "f64_round x = x"
proof (cases "x = 0")
  case False
  obtain m e where rep: "x = of_int m * 2 powi e" "\<bar>m\<bar> \<le> 2 ^ 53" "- 1074 \<le> e"
    using assms by (auto simp: f64_rep_def)
  from f64_exp_rep_cases [OF rep False] show ?thesis
  proof (elim disjE conjE)
    assume m: "\<bar>m\<bar> = 2 ^ 53" and E: "f64_exp x = e + 1"
    then have "even m" by (metis dvd_abs_iff even_power even_numeral zero_less_numeral)
    then have "x = of_int (m div 2) * 2 powi (e + 1)"
      by (auto simp: rep(1) power_int_add elim!: evenE)
    then show ?thesis using E by (intro f64_round_exactI) simp
  qed (rule f64_exp_le_imp_exact [OF _ rep(1)])
qed (simp add: f64_round_def)

lemma f64_scaled_bound:
  assumes "x \<noteq> 0"
  shows "\<bar>x / 2 powi f64_exp x\<bar> < 2 ^ 53"
proof -
  have "\<bar>x\<bar> < 2 powi (\<lfloor>log 2 \<bar>x\<bar>\<rfloor> + 1)" by (rule log_bounds(2) [OF assms])
  also have "\<dots> \<le> 2 powi (f64_exp x + 53)" by (intro power_int_increasing) (simp_all add: f64_exp_def)
  finally show ?thesis by (simp add: power_int_add abs_divide divide_less_eq mult.commute)
qed

lemma f64_rep_round: "f64_rep (f64_round x)"
proof (cases "x = 0")
  case True
  have "f64_rep 0" unfolding f64_rep_def by (rule exI [of _ 0]) auto
  then show ?thesis using True by (simp add: f64_round_def)
next
  case False
  then have "\<bar>x / 2 powi f64_exp x\<bar> < 2 ^ 53" by (rule f64_scaled_bound)
  then have "\<bar>round_even (x / 2 powi f64_exp x)\<bar> \<le> 2 ^ 53" by (intro round_even_abs) simp
  moreover have "- 1074 \<le> f64_exp x" by (simp add: f64_exp_def)
  ultimately show ?thesis unfolding f64_rep_def f64_round_def by blast
qed

lemma f64_round_le_int:
  assumes "x \<le> of_int n * 2 powi f64_exp x"
  shows "f64_round x \<le> of_int n * 2 powi f64_exp x"
  using assms round_even_le [of "x / 2 powi f64_exp x" n]
  by (simp add: f64_round_def divide_le_eq)

lemma f64_round_ge_int:
  assumes "of_int n * 2 powi f64_exp x \<le> x"
  shows "of_int n * 2 powi f64_exp x \<le> f64_round x"
  using assms round_even_ge [of n "x / 2 powi f64_exp x"]
  by (simp add: f64_round_def le_divide_eq)

lemma f64_round_nonneg: "0 \<le> x \<Longrightarrow> 0 \<le> f64_round x"
  using f64_round_ge_int [of 0 x] by simp

lemma f64_round_nonpos: "x \<le> 0 \<Longrightarrow> f64_round x \<le> 0"
  using f64_round_le_int [of x 0] by simp

text \<open>A power of two between two numbers separates their roundings.\<close>

lemma f64_round_mono_pos:
  assumes "0 < x" and "x \<le> y"
  shows "f64_round x \<le> f64_round y"
proof -
  define k where "k = \<lfloor>log 2 \<bar>y\<bar>\<rfloor>"
  have mono: "\<lfloor>log 2 \<bar>x\<bar>\<rfloor> \<le> k" using assms by (auto simp: k_def intro: floor_mono)
  consider "f64_exp x = f64_exp y" | "f64_exp y = k - 52" "f64_exp x < k - 52" "\<lfloor>log 2 \<bar>x\<bar>\<rfloor> + 1 \<le> k"
    by (cases "f64_exp x = f64_exp y")
      (use mono in \<open>auto simp: f64_exp_def max_def simp flip: k_def split: if_splits\<close>)
  then show ?thesis
  proof cases
    case 1
    then show ?thesis
      using assms round_even_mono [of "x / 2 powi f64_exp x" "y / 2 powi f64_exp x"]
      by (simp add: f64_round_def divide_right_mono)
  next
    case 2
    have P: "(2::real) powi k = of_int (2 ^ nat (k - E)) * 2 powi E" if "E \<le> k" for E
      using that powi_split [of k E] powi_nonneg_int [of "k - E"]
      by (metis diff_ge_0_iff_ge mult.commute)
    have "x < 2 powi (\<lfloor>log 2 \<bar>x\<bar>\<rfloor> + 1)" using log_bounds(2) [of x] assms by simp
    also have "\<dots> \<le> 2 powi k" using 2 by (intro power_int_increasing) auto
    finally have "f64_round x \<le> 2 powi k"
      using f64_round_le_int [of x "2 ^ nat (k - f64_exp x)"] P [of "f64_exp x"] 2(2) by simp
    also have "2 powi k \<le> y" using log_bounds(1) [of y] assms by (simp add: k_def)
    then have "2 powi k \<le> f64_round y"
      using f64_round_ge_int [of "2 ^ nat (k - f64_exp y)" y] P [of "f64_exp y"] 2(1) by simp
    finally show ?thesis .
  qed
qed

lemma f64_round_mono:
  assumes "x \<le> y"
  shows "f64_round x \<le> f64_round y"
proof -
  consider "0 < x" | "x \<le> 0" "0 \<le> y" | "y < 0" by linarith
  then show ?thesis
  proof cases
    case 2
    then show ?thesis using f64_round_nonpos [of x] f64_round_nonneg [of y] by linarith
  next
    case 3
    then show ?thesis using f64_round_mono_pos [of "- y" "- x"] assms by (simp add: f64_round_minus)
  qed (rule f64_round_mono_pos [OF _ assms])
qed

lemma f64_round_error: "\<bar>f64_round x - x\<bar> \<le> \<bar>x\<bar>"
proof -
  define p where "p = (2::real) powi f64_exp x"
  define y where "y = x / p"
  have p: "0 < p" by (simp add: p_def)
  have "\<bar>of_int (round_even y) - y\<bar> \<le> \<bar>y\<bar>"
  proof (cases "\<bar>y\<bar> < 1 / 2")
    case True
    then have "\<bar>real_of_int (round_even y)\<bar> < 1" using round_even_dist [of y] by linarith
    then have "round_even y = 0" by linarith
    then show ?thesis by simp
  next
    case False
    then show ?thesis using round_even_dist [of y] by linarith
  qed
  then have "p * \<bar>of_int (round_even y) - y\<bar> \<le> p * \<bar>y\<bar>" using p by simp
  moreover have "p * \<bar>of_int (round_even y) - y\<bar> = \<bar>f64_round x - x\<bar>"
  proof -
    have "p * \<bar>of_int (round_even y) - y\<bar> = \<bar>p * (of_int (round_even y) - y)\<bar>"
      using p by (simp add: abs_mult)
    also have "p * (of_int (round_even y) - y) = f64_round x - x"
      using p by (simp add: f64_round_def y_def algebra_simps flip: p_def)
    finally show ?thesis .
  qed
  moreover have "p * \<bar>y\<bar> = \<bar>x\<bar>" using p by (simp add: y_def abs_divide)
  ultimately show ?thesis by simp
qed

lemma f64_rep_double: "f64_rep x \<Longrightarrow> f64_rep (2 * x)"
proof -
  assume "f64_rep x"
  then obtain m e where "x = of_int m * 2 powi e" "\<bar>m\<bar> \<le> 2 ^ 53" "- 1074 \<le> e"
    by (auto simp: f64_rep_def)
  then have "2 * x = of_int m * 2 powi (e + 1)" "\<bar>m\<bar> \<le> 2 ^ 53" "- 1074 \<le> e + 1"
    by (auto simp: power_int_add)
  then show ?thesis unfolding f64_rep_def by blast
qed

lemma f64_round_dyadic:
  assumes "\<bar>m\<bar> \<le> 2 ^ 53" and "- 1074 \<le> e"
  shows "f64_round (of_int m * 2 powi e) = of_int m * 2 powi e"
  by (rule f64_round_rep) (use assms in \<open>auto simp: f64_rep_def\<close>)

interpretation f64: fp_rounding f64_round
proof unfold_locales
  show "f64_round (of_int n) = of_int n" if "\<bar>n\<bar> \<le> 2 ^ 53" for n
    using f64_round_dyadic [of n 0] that by simp
  show "f64_round (2 * x) = 2 * x" if "f64_round x = x" for x
    using f64_rep_double [of x] f64_rep_round [of x] that by (simp add: f64_round_rep)
qed (simp_all add: f64_round_mono f64_round_minus f64_round_error f64_round_rep f64_rep_round)

section \<open>The operations of the source\<close>

definition fadd :: "real \<Rightarrow> real \<Rightarrow> real" where
  "fadd x y = f64_round (x + y)"

definition fsub :: "real \<Rightarrow> real \<Rightarrow> real" where
  "fsub x y = f64_round (x - y)"

definition fmul :: "real \<Rightarrow> real \<Rightarrow> real" where
  "fmul x y = f64_round (x * y)"

definition fdiv :: "real \<Rightarrow> real \<Rightarrow> real" where
  "fdiv x y = f64_round (x / y)"

text \<open>\<open>n as f64\<close> for an unsigned \<open>n\<close>, and the saturating \<open>x as u64\<close>.\<close>

definition f64_of_nat :: "nat \<Rightarrow> real" where
  "f64_of_nat n = f64_round (real n)"

definition as_u64 :: "real \<Rightarrow> nat" where
  "as_u64 x = (if x \<le> 0 then 0 else if 2 ^ 64 \<le> x then 2 ^ 64 - 1 else nat \<lfloor>x\<rfloor>)"

text \<open>A decimal literal of the source is the binary64 nearest to it.\<close>

definition f64_lit :: "real \<Rightarrow> real" where
  "f64_lit q = f64_round q"

text \<open>\<open>f64::clamp\<close> panics when the bounds are crossed.\<close>

definition f64_clamp :: "real \<Rightarrow> real \<Rightarrow> real \<Rightarrow> real may_panic" where
  "f64_clamp x lo hi = (if lo \<le> hi then Some (if x < lo then lo else if hi < x then hi else x) else None)"

lemmas f64_ops = fadd_def fsub_def fmul_def fdiv_def

lemma f64_clamp_bounds: "f64_clamp x lo hi = Some y \<Longrightarrow> lo \<le> y \<and> y \<le> hi"
  by (auto simp: f64_clamp_def split: if_splits)

lemma f64_clamp_None_iff: "f64_clamp x lo hi = None \<longleftrightarrow> hi < lo"
  by (auto simp: f64_clamp_def)

lemma f64_clamp_id: "lo \<le> x \<Longrightarrow> x \<le> hi \<Longrightarrow> f64_clamp x lo hi = Some x"
  by (simp add: f64_clamp_def)

lemma f64_of_nat_mono: "m \<le> n \<Longrightarrow> f64_of_nat m \<le> f64_of_nat n"
  by (simp add: f64_of_nat_def f64.rnd_mono)

lemma f64_of_nat_nonneg [simp]: "0 \<le> f64_of_nat n"
  by (simp add: f64_of_nat_def f64.rnd_nonneg)

lemma f64_of_nat_round [simp]: "f64_round (f64_of_nat n) = f64_of_nat n"
  by (simp add: f64_of_nat_def f64.rnd_idem)

lemma f64_of_nat_exact: "n \<le> 2 ^ 53 \<Longrightarrow> f64_of_nat n = real n"
  by (simp add: f64_of_nat_def f64.rnd_nat)

lemma nat_floor_u64: "x < 2 ^ 64 \<Longrightarrow> nat \<lfloor>x\<rfloor> \<le> 2 ^ 64 - 1" for x :: real
  by (simp add: nat_le_iff floor_le_iff)

lemma as_u64_mono: "x \<le> y \<Longrightarrow> as_u64 x \<le> as_u64 y"
  using nat_floor_u64 [of x] by (auto simp: as_u64_def not_le intro!: nat_mono floor_mono)

lemma as_u64_less: "as_u64 x < 2 ^ 64"
  using nat_floor_u64 [of x] by (auto simp: as_u64_def)

lemma as_u64_of_nat: "n < 2 ^ 64 \<Longrightarrow> as_u64 (real n) = n"
  by (auto simp: as_u64_def)

lemma as_u64_floor: "0 \<le> x \<Longrightarrow> x < 2 ^ 64 \<Longrightarrow> as_u64 x = nat \<lfloor>x\<rfloor>"
  by (auto simp: as_u64_def)

text \<open>The last place of a number whose binary order is known: how a concrete rounding is
  evaluated.\<close>

lemma f64_exp_eq:
  assumes "2 powi k \<le> \<bar>x\<bar>" and "\<bar>x\<bar> < 2 powi (k + 1)"
  shows "f64_exp x = max (k - 52) (- 1074)"
proof -
  have "0 < \<bar>x\<bar>" using assms(1) zero_less_power_int [of "2::real" k] by linarith
  then have "\<lfloor>log 2 \<bar>x\<bar>\<rfloor> = k"
    using assms by (subst floor_log_eq_powr_iff) (simp_all add: powr_real_of_int' del: of_int_add)
  then show ?thesis by (simp add: f64_exp_def)
qed

lemma f64_of_nat_0 [simp]: "f64_of_nat 0 = 0"
  by (simp add: f64_of_nat_def)

end
