(* ===== verification/Rate_Control.thy ===== *)
theory Rate_Control
  imports Float64
begin

text \<open>
  \<open>src/src/rate.rs\<close>: the round-trip estimator (\<open>rtt_estimator\<close> with \<open>rtt_new\<close>,
  \<open>rtt_sample\<close>, \<open>rtt_rto\<close>, \<open>rtt_seed\<close>) and the injection-rate controller
  (\<open>rate_controller\<close> with \<open>rate_controller_new\<close>, \<open>rate_update\<close>, \<open>set_rate\<close>). Every
  \<open>f64\<close> operation of the source is the rounded operation of \<open>Float64\<close>, in the order the
  source evaluates it; \<open>f64::clamp\<close> panics on crossed bounds, so the operations that clamp
  return \<open>may_panic\<close>.
\<close>

section \<open>Constants\<close>

definition RTT_GAIN :: real where "RTT_GAIN = 1 / 8"
definition RTT_ATTEN_K :: real where "RTT_ATTEN_K = 4"
definition RTT_RTO_K :: real where "RTT_RTO_K = 4"
definition RTT_PREC_US :: real where "RTT_PREC_US = 1000"
definition DEF_MIN_RTO_US :: real where "DEF_MIN_RTO_US = 2000"
definition DEF_MAX_RTO_US :: real where "DEF_MAX_RTO_US = 4000000"

lemmas rtt_consts = RTT_GAIN_def RTT_ATTEN_K_def RTT_RTO_K_def DEF_MIN_RTO_US_def DEF_MAX_RTO_US_def

section \<open>The round-trip estimator\<close>

record rtt_estimator =
  srtt :: real
  vrtt :: real
  min_rtt :: real
  have_any :: bool
  min_rto :: real
  max_rto :: real

definition rtt_new :: rtt_estimator where
  "rtt_new = \<lparr>srtt = 0, vrtt = 0, min_rtt = 0, have_any = False,
              min_rto = DEF_MIN_RTO_US, max_rto = DEF_MAX_RTO_US\<rparr>"

definition rtt_rto :: "rtt_estimator \<Rightarrow> real may_panic" where
  "rtt_rto e = f64_clamp (fadd (srtt e) (fmul RTT_RTO_K (vrtt e))) (min_rto e) (max_rto e)"

definition rtt_sample :: "real \<Rightarrow> rtt_estimator \<Rightarrow> (real \<times> rtt_estimator) may_panic" where
  "rtt_sample rtt e = do {
     let rtt = (if rtt < 0 then 0 else rtt);
     let e' =
       (if \<not> have_any e
        then e\<lparr>srtt := rtt, vrtt := fdiv rtt 2, min_rtt := rtt, have_any := True\<rparr>
        else let err = fsub rtt (srtt e)
             in e\<lparr>srtt := fadd (srtt e) (fmul RTT_GAIN err),
                  vrtt := fadd (vrtt e) (fdiv (fsub \<bar>err\<bar> (vrtt e)) RTT_ATTEN_K),
                  min_rtt := (if rtt < min_rtt e then rtt else min_rtt e)\<rparr>);
     r \<leftarrow> rtt_rto e';
     Some (r, e')
   }"

definition rtt_seed :: "nat \<Rightarrow> nat \<Rightarrow> rtt_estimator \<Rightarrow> rtt_estimator" where
  "rtt_seed srtt_us min_rtt_us e =
     (if srtt_us = 0 then e
      else e\<lparr>srtt := f64_of_nat srtt_us,
             vrtt := max (fdiv (f64_of_nat srtt_us) 4) 1,
             min_rtt := (if min_rtt_us = 0 then f64_of_nat srtt_us else f64_of_nat (min min_rtt_us srtt_us)),
             have_any := True\<rparr>)"

subsection \<open>Its invariant\<close>

text \<open>The estimates are non-negative binary64 values, and the base RTT is below the smoothed
  one.\<close>

definition rtt_ok :: "rtt_estimator \<Rightarrow> bool" where
  "rtt_ok e \<longleftrightarrow>
     f64_round (srtt e) = srtt e \<and> f64_round (min_rtt e) = min_rtt e \<and>
     0 \<le> min_rtt e \<and> min_rtt e \<le> srtt e \<and> 0 \<le> vrtt e \<and>
     min_rto e = DEF_MIN_RTO_US \<and> max_rto e = DEF_MAX_RTO_US"

lemma rtt_ok_new: "rtt_ok rtt_new"
  by (simp add: rtt_ok_def rtt_new_def)

lemma rtt_ok_seed:
  assumes "rtt_ok e"
  shows "rtt_ok (rtt_seed srtt_us min_rtt_us e)"
  using assms f64_of_nat_mono [of "min min_rtt_us srtt_us" srtt_us]
  by (simp add: rtt_ok_def rtt_seed_def le_max_iff_disj)

lemma rtt_rto_ok:
  assumes "rtt_ok e"
  shows "\<exists>r. rtt_rto e = Some r \<and> 2000 \<le> r \<and> r \<le> 4000000"
  using assms by (auto simp: rtt_ok_def rtt_rto_def f64_clamp_def rtt_consts)

lemma gain_smooth: "fadd s (fmul RTT_GAIN (fsub t s)) = f64_round (s + f64_round (1 / 8 * f64_round (t - s)))"
  by (simp add: f64_ops RTT_GAIN_def)

lemma atten_smooth:
  "fadd v (fdiv (fsub t v) RTT_ATTEN_K) = f64_round (v + f64_round (1 / 4 * f64_round (t - v)))"
  by (simp add: f64_ops RTT_ATTEN_K_def)

lemma fadd_round [simp]: "f64_round (fadd x y) = fadd x y"
  by (simp add: fadd_def f64.rnd_idem)

lemma rtt_sample_ok:
  assumes "rtt_ok e" and "f64_round rtt = rtt"
  shows "\<exists>r e'. rtt_sample rtt e = Some (r, e') \<and> rtt_ok e' \<and> 2000 \<le> r \<and> r \<le> 4000000"
proof -
  define x where "x = (if rtt < 0 then 0 else rtt)"
  have x: "0 \<le> x" "f64_round x = x" using assms(2) by (auto simp: x_def)
  define e' where "e' = (if \<not> have_any e
        then e\<lparr>srtt := x, vrtt := fdiv x 2, min_rtt := x, have_any := True\<rparr>
        else e\<lparr>srtt := fadd (srtt e) (fmul RTT_GAIN (fsub x (srtt e))),
               vrtt := fadd (vrtt e) (fdiv (fsub \<bar>fsub x (srtt e)\<bar> (vrtt e)) RTT_ATTEN_K),
               min_rtt := (if x < min_rtt e then x else min_rtt e)\<rparr>)"
  have "rtt_ok e'"
  proof (cases "have_any e")
    case False
    then show ?thesis
      using assms(1) x by (simp add: e'_def rtt_ok_def fdiv_def f64.rnd_nonneg)
  next
    case True
    define m where "m = (if x < min_rtt e then x else min_rtt e)"
    have m: "f64_round m = m" "0 \<le> m" "m \<le> srtt e" "m \<le> x"
      using assms(1) x by (auto simp: m_def rtt_ok_def)
    have "m \<le> fadd (srtt e) (fmul RTT_GAIN (fsub x (srtt e)))"
      unfolding gain_smooth by (rule f64.smooth_ge [OF m(1,3,4)]) simp_all
    moreover have "0 \<le> fadd (vrtt e) (fdiv (fsub \<bar>fsub x (srtt e)\<bar> (vrtt e)) RTT_ATTEN_K)"
      unfolding atten_smooth using assms(1) by (intro f64.smooth_ge) (simp_all add: rtt_ok_def)
    ultimately show ?thesis
      using True assms(1) m by (simp add: e'_def rtt_ok_def flip: m_def)
  qed
  moreover have "rtt_sample rtt e = do { r \<leftarrow> rtt_rto e'; Some (r, e') }"
    by (simp add: rtt_sample_def e'_def x_def Let_def)
  ultimately show ?thesis using rtt_rto_ok [of e'] by auto
qed

text \<open>The estimator over a sequence of measurements.\<close>

fun rtt_samples :: "real list \<Rightarrow> rtt_estimator \<Rightarrow> (real list \<times> rtt_estimator) may_panic" where
  "rtt_samples [] e = Some ([], e)"
| "rtt_samples (x # xs) e = do {
     (r, e') \<leftarrow> rtt_sample x e;
     (rs, e'') \<leftarrow> rtt_samples xs e';
     Some (r # rs, e'')
   }"

lemma rtt_samples_ok:
  "rtt_ok e \<Longrightarrow> \<forall>x \<in> set xs. f64_round x = x \<Longrightarrow>
     \<exists>rs e'. rtt_samples xs e = Some (rs, e') \<and> rtt_ok e' \<and> length rs = length xs \<and>
       (\<forall>r \<in> set rs. 2000 \<le> r \<and> r \<le> 4000000)"
proof (induction xs arbitrary: e)
  case (Cons x xs)
  obtain r e' where "rtt_sample x e = Some (r, e')" "rtt_ok e'" "2000 \<le> r" "r \<le> 4000000"
    using rtt_sample_ok [of e x] Cons.prems by auto
  then show ?case using Cons.IH [of e'] Cons.prems by fastforce
qed simp

text \<open>The base RTT is the least of the measurements.\<close>

lemma rtt_sample_min:
  assumes "rtt_sample x e = Some (r, e')"
  shows "have_any e' \<and> min_rtt e' = (if have_any e then min (min_rtt e) (max x 0) else max x 0)"
  using assms by (auto simp: rtt_sample_def Let_def bind_eq_Some_conv split: if_splits)

lemma rtt_samples_min:
  "rtt_samples xs e = Some (rs, e') \<Longrightarrow> have_any e \<Longrightarrow>
     min_rtt e' = Min (insert (min_rtt e) ((\<lambda>x. max x 0) ` set xs))"
proof (induction xs arbitrary: e rs)
  case (Cons x xs)
  then obtain r e1 rs1 where "rtt_sample x e = Some (r, e1)" "rtt_samples xs e1 = Some (rs1, e')"
    by (auto simp: bind_eq_Some_conv)
  then show ?case
    using Cons.IH [of e1 rs1] rtt_sample_min [of x e r e1] Cons.prems(2)
    by (cases "xs = []") (auto simp: min.assoc)
qed simp

text \<open>The smoothed RTT stays below any bound on the measurements.\<close>

lemma rtt_sample_srtt_le:
  assumes "rtt_sample x e = Some (r, e')" and "f64_round b = b" and "0 \<le> b" and "x \<le> b" and "srtt e \<le> b"
  shows "srtt e' \<le> b"
proof -
  have "max x 0 \<le> b" using assms by simp
  then have "fadd (srtt e) (fmul RTT_GAIN (fsub (max x 0) (srtt e))) \<le> b"
    unfolding gain_smooth using assms by (intro f64.smooth_le) simp_all
  moreover have "(if x < 0 then 0 else x) = max x 0" by auto
  ultimately show ?thesis
    using assms(1) \<open>max x 0 \<le> b\<close> by (auto simp: rtt_sample_def Let_def bind_eq_Some_conv split: if_splits)
qed

lemma rtt_samples_srtt_le:
  "rtt_samples xs e = Some (rs, e') \<Longrightarrow> f64_round b = b \<Longrightarrow> 0 \<le> b \<Longrightarrow> \<forall>x \<in> set xs. x \<le> b \<Longrightarrow>
     srtt e \<le> b \<Longrightarrow> srtt e' \<le> b"
proof (induction xs arbitrary: e rs)
  case (Cons x xs)
  then obtain r e1 rs1 where "rtt_sample x e = Some (r, e1)" "rtt_samples xs e1 = Some (rs1, e')"
    by (auto simp: bind_eq_Some_conv)
  then show ?case
    using Cons.IH [of e1 rs1] rtt_sample_srtt_le [of x e r e1 b] Cons.prems by simp
qed simp

section \<open>The injection-rate controller\<close>

datatype rate_mode = Fixed | Adaptive

record rate_config =
  rc_mode :: rate_mode
  target_bps :: nat
  min_bps :: nat
  max_bps :: nat
  alpha :: real

record rate_warm_start =
  warm_rate_bps :: nat
  warm_srtt_net_us :: nat
  warm_base_rtt_us :: nat

definition warm_is_empty :: "rate_warm_start \<Rightarrow> bool" where
  "warm_is_empty w \<longleftrightarrow> warm_rate_bps w = 0 \<and> warm_srtt_net_us w = 0 \<and> warm_base_rtt_us w = 0"

record rate_controller =
  cfg :: rate_config
  cur_rate :: real

definition with_defaults :: "rate_config \<Rightarrow> rate_config" where
  "with_defaults c = c\<lparr>min_bps := (if min_bps c = 0 then 64 * 1000 else min_bps c),
                        max_bps := (if max_bps c = 0 then 10000000000 else max_bps c),
                        alpha := (if alpha c = 0 then 30000000 else alpha c)\<rparr>"

definition start_rate :: "rate_config \<Rightarrow> real" where
  "start_rate c =
     (let start = f64_of_nat (target_bps c)
      in if rc_mode c = Adaptive
         then let start = (if start = 0 \<or> start > f64_of_nat (max_bps c) then f64_of_nat (max_bps c) else start);
                  start = fmul start (f64_lit (5 / 100))
              in if start < f64_of_nat (min_bps c) then f64_of_nat (min_bps c) else start
         else start)"

definition rate_controller_new :: "rate_config \<Rightarrow> rate_controller" where
  "rate_controller_new c = (let c' = with_defaults c in \<lparr>cfg = c', cur_rate = start_rate c'\<rparr>)"

definition base_avg :: "real \<Rightarrow> real \<Rightarrow> real may_panic" where
  "base_avg srtt_net_us base_us =
     (if \<not> (base_us < 5000 \<and> srtt_net_us < 20000)
      then f64_clamp (fdiv base_us srtt_net_us) 0 1 else Some 1)"

definition rate_update :: "real \<Rightarrow> real \<Rightarrow> rate_controller \<Rightarrow> (nat \<times> rate_controller) may_panic" where
  "rate_update srtt_net_us base_us rc =
     (if rc_mode (cfg rc) = Fixed
      then let rc' = rc\<lparr>cur_rate := f64_of_nat (target_bps (cfg rc))\<rparr> in Some (as_u64 (cur_rate rc'), rc')
      else if srtt_net_us \<le> 0 then Some (as_u64 (cur_rate rc), rc)
      else do {
        avg \<leftarrow> base_avg srtt_net_us base_us;
        let r = fmul (1 / 2) (fadd (fadd (fmul (cur_rate rc) avg) (cur_rate rc)) (alpha (cfg rc)));
        r' \<leftarrow> f64_clamp r (f64_of_nat (min_bps (cfg rc))) (f64_of_nat (max_bps (cfg rc)));
        Some (as_u64 r', rc\<lparr>cur_rate := r'\<rparr>)
      })"

definition set_rate :: "nat \<Rightarrow> rate_controller \<Rightarrow> rate_controller may_panic" where
  "set_rate rate_bps rc =
     (if rate_bps = 0 then Some rc
      else do {
        r \<leftarrow> f64_clamp (f64_of_nat rate_bps) (f64_of_nat (min_bps (cfg rc))) (f64_of_nat (max_bps (cfg rc)));
        Some (rc\<lparr>cur_rate := r\<rparr>)
      })"

subsection \<open>Its invariant\<close>

definition rate_ok :: "rate_controller \<Rightarrow> bool" where
  "rate_ok rc \<longleftrightarrow>
     f64_round (cur_rate rc) = cur_rate rc \<and>
     f64_of_nat (min_bps (cfg rc)) \<le> cur_rate rc \<and> cur_rate rc \<le> f64_of_nat (max_bps (cfg rc))"

lemma base_avg_Some: "\<exists>a. base_avg srtt_net base = Some a \<and> 0 \<le> a \<and> a \<le> 1"
  by (auto simp: base_avg_def f64_clamp_def)

lemma f64_clamp_round:
  assumes "f64_clamp x lo hi = Some y" and "f64_round x = x" and "f64_round lo = lo" and "f64_round hi = hi"
  shows "f64_round y = y"
  using assms by (auto simp: f64_clamp_def split: if_splits)

lemma fmul_round [simp]: "f64_round (fmul x y) = fmul x y"
  by (simp add: fmul_def f64.rnd_idem)

lemma lit_005: "0 \<le> f64_lit (5 / 100)" "f64_lit (5 / 100) \<le> 1"
  using f64.rnd_le_rep [of 1 "5 / 100"] f64.rnd_int [of 1]
  by (simp_all add: f64_lit_def f64.rnd_nonneg)

lemma start_rate_ok:
  assumes "rc_mode c = Adaptive" and "f64_of_nat (min_bps c) \<le> f64_of_nat (max_bps c)"
  shows "rate_ok \<lparr>cfg = c, cur_rate = start_rate c\<rparr>"
proof -
  define t where "t = f64_of_nat (target_bps c)"
  define s where "s = (if t = 0 \<or> t > f64_of_nat (max_bps c) then f64_of_nat (max_bps c) else t)"
  have s: "0 \<le> s" "s \<le> f64_of_nat (max_bps c)" by (auto simp: s_def t_def)
  have "s * f64_lit (5 / 100) \<le> s * 1" using s(1) lit_005 by (intro mult_left_mono) auto
  then have "fmul s (f64_lit (5 / 100)) \<le> f64_of_nat (max_bps c)"
    unfolding fmul_def using s by (intro f64.rnd_le_rep) auto
  moreover have "start_rate c = (if fmul s (f64_lit (5 / 100)) < f64_of_nat (min_bps c)
      then f64_of_nat (min_bps c) else fmul s (f64_lit (5 / 100)))"
    using assms(1) by (simp add: start_rate_def s_def t_def Let_def)
  ultimately show ?thesis using assms(2) by (auto simp: rate_ok_def)
qed

lemma rate_update_ok:
  assumes "rc_mode (cfg rc) = Adaptive" and "rate_ok rc"
  shows "\<exists>r rc'. rate_update srtt_net base rc = Some (r, rc') \<and> rate_ok rc' \<and> cfg rc' = cfg rc \<and> r = as_u64 (cur_rate rc')"
proof (cases "srtt_net \<le> 0")
  case True
  then show ?thesis using assms by (simp add: rate_update_def)
next
  case False
  obtain a where a: "base_avg srtt_net base = Some a" using base_avg_Some by blast
  define r where "r = fmul (1 / 2) (fadd (fadd (fmul (cur_rate rc) a) (cur_rate rc)) (alpha (cfg rc)))"
  have "f64_of_nat (min_bps (cfg rc)) \<le> f64_of_nat (max_bps (cfg rc))"
    using assms(2) by (auto simp: rate_ok_def)
  then obtain r' where r': "f64_clamp r (f64_of_nat (min_bps (cfg rc))) (f64_of_nat (max_bps (cfg rc))) = Some r'"
    using f64_clamp_None_iff [of r] by (cases "f64_clamp r (f64_of_nat (min_bps (cfg rc))) (f64_of_nat (max_bps (cfg rc)))") auto
  then have "rate_ok (rc\<lparr>cur_rate := r'\<rparr>)"
    using f64_clamp_bounds [OF r'] f64_clamp_round [OF r'] by (simp add: rate_ok_def r_def)
  then show ?thesis using False assms(1) a r' by (simp add: rate_update_def flip: r_def)
qed

lemma set_rate_ok:
  assumes "rate_ok rc"
  shows "\<exists>rc'. set_rate bps rc = Some rc' \<and> rate_ok rc' \<and> cfg rc' = cfg rc"
proof (cases "bps = 0")
  case True
  then show ?thesis using assms by (simp add: set_rate_def)
next
  case False
  have "\<not> f64_of_nat (max_bps (cfg rc)) < f64_of_nat (min_bps (cfg rc))"
    using assms by (auto simp: rate_ok_def)
  then obtain r where r: "f64_clamp (f64_of_nat bps) (f64_of_nat (min_bps (cfg rc))) (f64_of_nat (max_bps (cfg rc))) = Some r"
    using f64_clamp_None_iff [of "f64_of_nat bps" "f64_of_nat (min_bps (cfg rc))"] by fastforce
  then show ?thesis
    using False f64_clamp_bounds [OF r] f64_clamp_round [OF r] by (simp add: set_rate_def rate_ok_def)
qed

subsection \<open>Histories of the controller\<close>

datatype rate_op = Update real real | SetRate nat

fun rate_ops :: "rate_op list \<Rightarrow> rate_controller \<Rightarrow> (nat list \<times> rate_controller) may_panic" where
  "rate_ops [] rc = Some ([], rc)"
| "rate_ops (Update srtt_net base # ops) rc = do {
     (r, rc') \<leftarrow> rate_update srtt_net base rc;
     (rs, rc'') \<leftarrow> rate_ops ops rc';
     Some (r # rs, rc'')
   }"
| "rate_ops (SetRate bps # ops) rc = do {
     rc' \<leftarrow> set_rate bps rc;
     rate_ops ops rc'
   }"

lemma rate_ops_ok:
  "rc_mode (cfg rc) = Adaptive \<Longrightarrow> rate_ok rc \<Longrightarrow>
     \<exists>rs rc'. rate_ops ops rc = Some (rs, rc') \<and> rate_ok rc' \<and> cfg rc' = cfg rc \<and>
       (\<forall>r \<in> set rs. as_u64 (f64_of_nat (min_bps (cfg rc))) \<le> r \<and> r \<le> as_u64 (f64_of_nat (max_bps (cfg rc))))"
proof (induction ops rc rule: rate_ops.induct)
  case (2 srtt_net base ops rc)
  obtain r rc' where u: "rate_update srtt_net base rc = Some (r, rc')" "rate_ok rc'" "cfg rc' = cfg rc"
      "r = as_u64 (cur_rate rc')"
    using rate_update_ok [OF "2.prems"] by blast
  then have "as_u64 (f64_of_nat (min_bps (cfg rc))) \<le> r" "r \<le> as_u64 (f64_of_nat (max_bps (cfg rc)))"
    by (auto simp: rate_ok_def intro: as_u64_mono)
  then show ?case using "2.IH" [OF u(1) refl] u "2.prems"(1) by fastforce
next
  case (3 bps ops rc)
  obtain rc' where "set_rate bps rc = Some rc'" "rate_ok rc'" "cfg rc' = cfg rc"
    using set_rate_ok [OF "3.prems"(2)] by blast
  then show ?case using "3.IH" "3.prems"(1) by simp
qed simp

section \<open>Properties\<close>

text \<open>Property C30: over any sequence of measurements, after any warm-start seed, the estimator
  never panics, every RTO it returns lies between 2 ms and 4 s, and the base RTT stays
  non-negative and at most the smoothed RTT.\<close>

theorem rto_always_bounded:
  assumes "\<forall>x \<in> set xs. f64_round x = x"
  shows "\<exists>rs e. rtt_samples xs (rtt_seed srtt_us min_rtt_us rtt_new) = Some (rs, e) \<and>
           (\<forall>r \<in> set rs. 2000 \<le> r \<and> r \<le> 4000000) \<and> 0 \<le> min_rtt e \<and> min_rtt e \<le> srtt e"
  using rtt_samples_ok [OF rtt_ok_seed [OF rtt_ok_new] assms, of srtt_us min_rtt_us]
  unfolding rtt_ok_def by blast

theorem rto_always_bounded_witness:
  "\<exists>rs e. rtt_samples [30000, -5, 100000000] (rtt_seed 40000 0 rtt_new) = Some (rs, e) \<and>
     (\<forall>r \<in> set rs. 2000 \<le> r \<and> r \<le> 4000000) \<and> 0 \<le> min_rtt e \<and> min_rtt e \<le> srtt e"
proof (rule rto_always_bounded)
  show "\<forall>x \<in> set [30000, -5, 100000000]. f64_round x = x"
    by (simp add: f64.rnd_numeral f64.rnd_minus)
qed

text \<open>The base RTT is exactly the least measurement (negative ones counting as
  zero), and the smoothed RTT never exceeds a bound that holds for all of them.\<close>

theorem base_rtt_is_least:
  assumes "rtt_samples (x # xs) rtt_new = Some (rs, e)"
  shows "min_rtt e = Min ((\<lambda>y. max y 0) ` set (x # xs)) \<and>
         (\<forall>b. f64_round b = b \<and> 0 \<le> b \<and> (\<forall>y \<in> set (x # xs). y \<le> b) \<longrightarrow> srtt e \<le> b)"
proof -
  obtain r e1 rs1 where s: "rtt_sample x rtt_new = Some (r, e1)" "rtt_samples xs e1 = Some (rs1, e)"
    using assms by (auto simp: bind_eq_Some_conv)
  then have "have_any e1" "min_rtt e1 = max x 0"
    using rtt_sample_min [OF s(1)] by (simp_all add: rtt_new_def)
  then have "min_rtt e = Min ((\<lambda>y. max y 0) ` set (x # xs))"
    using rtt_samples_min [OF s(2)] by simp
  moreover have "srtt rtt_new = 0" by (simp add: rtt_new_def)
  ultimately show ?thesis using rtt_samples_srtt_le [OF assms] by simp
qed

theorem base_rtt_is_least_witness:
  "\<exists>rs e. rtt_samples [30000, 20000] rtt_new = Some (rs, e) \<and> min_rtt e = 20000 \<and> srtt e \<le> 30000"
proof -
  have "\<forall>x \<in> set [30000, 20000]. f64_round x = x" by (simp add: f64.rnd_numeral)
  then obtain rs e where e: "rtt_samples [30000, 20000] rtt_new = Some (rs, e)"
    using rtt_samples_ok [OF rtt_ok_new] by blast
  have "min_rtt e = Min ((\<lambda>y. max y 0) ` set [30000, 20000])" "srtt e \<le> 30000"
    using base_rtt_is_least [OF e] by (simp_all add: f64.rnd_numeral)
  then show ?thesis using e by simp
qed

text \<open>Property C29: an adaptive controller whose bounds are not crossed (after the defaults are
  filled in) never panics, and after any history of updates and warm starts its rate and
  every rate it returned lie between the bounds.\<close>

theorem adaptive_rate_within_bounds:
  assumes "rc_mode c = Adaptive" and "min_bps (with_defaults c) \<le> max_bps (with_defaults c)"
    and "max_bps (with_defaults c) \<le> 2 ^ 53"
  shows "\<exists>rs rc. rate_ops ops (rate_controller_new c) = Some (rs, rc) \<and>
           real (min_bps (with_defaults c)) \<le> cur_rate rc \<and> cur_rate rc \<le> real (max_bps (with_defaults c)) \<and>
           (\<forall>r \<in> set rs. min_bps (with_defaults c) \<le> r \<and> r \<le> max_bps (with_defaults c))"
proof -
  let ?c = "with_defaults c"
  have e: "f64_of_nat (min_bps ?c) = real (min_bps ?c)" "f64_of_nat (max_bps ?c) = real (max_bps ?c)"
    using assms(2,3) by (auto intro!: f64_of_nat_exact)
  have u: "as_u64 (real (min_bps ?c)) = min_bps ?c" "as_u64 (real (max_bps ?c)) = max_bps ?c"
    using assms(2,3) by (simp_all add: as_u64_of_nat)
  have "rc_mode ?c = Adaptive" using assms(1) by (simp add: with_defaults_def)
  moreover have "rate_ok (rate_controller_new c)"
    using start_rate_ok [OF calculation] assms(2) e by (simp add: rate_controller_new_def Let_def)
  moreover have "cfg (rate_controller_new c) = ?c" by (simp add: rate_controller_new_def Let_def)
  ultimately show ?thesis
    using rate_ops_ok [of "rate_controller_new c" ops] e u by (auto simp: rate_ok_def)
qed

definition sample_config :: rate_config where
  "sample_config = \<lparr>rc_mode = Adaptive, target_bps = 0, min_bps = 0, max_bps = 100000000, alpha = 0\<rparr>"

theorem adaptive_rate_within_bounds_witness:
  "\<exists>rs rc. rate_ops [SetRate 1, Update 50000 10000, Update 0 0] (rate_controller_new sample_config) = Some (rs, rc) \<and>
     64000 \<le> cur_rate rc \<and> cur_rate rc \<le> 100000000 \<and> (\<forall>r \<in> set rs. 64000 \<le> r \<and> r \<le> 100000000)"
  using adaptive_rate_within_bounds [of sample_config "[SetRate 1, Update 50000 10000, Update 0 0]"]
  by (simp add: sample_config_def with_defaults_def del: rate_ops.simps)

text \<open>An adaptive controller created with the floor left at its default and a
  ceiling below that floor (64 kbit/s) panics on its first update with a positive RTT and on
  its first warm start, because \<open>f64::clamp\<close> is called with crossed bounds.\<close>

theorem adaptive_panics_below_floor:
  assumes "rc_mode c = Adaptive" and "min_bps c = 0" and "0 < max_bps c" and "max_bps c < 64000"
    and "0 < srtt_net" and "0 < bps"
  shows "rate_update srtt_net base (rate_controller_new c) = None \<and> set_rate bps (rate_controller_new c) = None"
proof -
  obtain a where a: "base_avg srtt_net base = Some a" using base_avg_Some by blast
  have "f64_of_nat (max_bps c) < f64_of_nat (64 * 1000)"
    using assms(4) by (simp add: f64_of_nat_exact)
  then have "f64_clamp r (f64_of_nat (64 * 1000)) (f64_of_nat (max_bps c)) = None" for r
    by (simp only: f64_clamp_None_iff)
  then show ?thesis
    using assms a by (simp add: rate_update_def set_rate_def rate_controller_new_def with_defaults_def Let_def)
qed

theorem adaptive_panics_below_floor_witness:
  "rate_update 30000 10000 (rate_controller_new (sample_config\<lparr>max_bps := 1\<rparr>)) = None \<and>
   set_rate 1 (rate_controller_new (sample_config\<lparr>max_bps := 1\<rparr>)) = None"
  by (rule adaptive_panics_below_floor) (simp_all add: sample_config_def)

lemma rate_update_adaptive:
  assumes "rc_mode (cfg rc) = Adaptive" and "0 < srtt_net" and "rate_update srtt_net base rc = Some (r, rc')"
  obtains a where "base_avg srtt_net base = Some a"
    and "f64_clamp (fmul (1 / 2) (fadd (fadd (fmul (cur_rate rc) a) (cur_rate rc)) (alpha (cfg rc))))
           (f64_of_nat (min_bps (cfg rc))) (f64_of_nat (max_bps (cfg rc))) = Some (cur_rate rc')"
    and "r = as_u64 (cur_rate rc')"
  using assms by (auto simp: rate_update_def bind_eq_Some_conv Let_def)

lemma f64_clamp_mono:
  assumes "x \<le> y" and "f64_clamp x lo hi = Some x'" and "f64_clamp y lo hi = Some y'"
  shows "x' \<le> y'"
  using assms by (auto simp: f64_clamp_def split: if_splits)

lemma base_avg_1:
  assumes "0 < srtt_net" and "base < 5000 \<and> srtt_net < 20000 \<or> srtt_net \<le> base"
  shows "base_avg srtt_net base = Some 1"
proof (cases "base < 5000 \<and> srtt_net < 20000")
  case True
  then show ?thesis by (simp add: base_avg_def)
next
  case False
  then have "1 \<le> fdiv base srtt_net"
    unfolding fdiv_def using assms f64.rnd_int [of 1] by (intro f64.rnd_ge_rep) auto
  then show ?thesis using False by (auto simp: base_avg_def f64_clamp_def)
qed

text \<open>While the RTT shows no queueing (a LAN-scale RTT, or a smoothed RTT no
  larger than the base RTT), an adaptive update never lowers the rate.\<close>

theorem no_queueing_no_backoff:
  assumes "rc_mode (cfg rc) = Adaptive" and "rate_ok rc" and "0 \<le> alpha (cfg rc)" and "0 < srtt_net"
    and "base < 5000 \<and> srtt_net < 20000 \<or> srtt_net \<le> base"
    and "rate_update srtt_net base rc = Some (r, rc')"
  shows "cur_rate rc \<le> cur_rate rc' \<and> as_u64 (cur_rate rc) \<le> r"
proof -
  let ?x = "cur_rate rc"
  have x: "f64_round ?x = ?x" "f64_of_nat (min_bps (cfg rc)) \<le> ?x" "?x \<le> f64_of_nat (max_bps (cfg rc))"
    using assms(2) by (auto simp: rate_ok_def)
  have "fadd (fmul ?x 1) ?x = 2 * ?x"
    using f64.rnd_double [OF x(1)] by (simp add: f64_ops x(1))
  then have "2 * ?x \<le> fadd (fadd (fmul ?x 1) ?x) (alpha (cfg rc))"
    unfolding fadd_def [of _ "alpha (cfg rc)"] using f64.rnd_double [OF x(1)] assms(3)
    by (intro f64.rnd_ge_rep) auto
  then have *: "?x \<le> fmul (1 / 2) (fadd (fadd (fmul ?x 1) ?x) (alpha (cfg rc)))"
    unfolding fmul_def [of "1 / 2"] using x(1) by (intro f64.rnd_ge_rep) auto
  obtain a where a: "base_avg srtt_net base = Some a"
    and cl: "f64_clamp (fmul (1 / 2) (fadd (fadd (fmul ?x a) ?x) (alpha (cfg rc))))
           (f64_of_nat (min_bps (cfg rc))) (f64_of_nat (max_bps (cfg rc))) = Some (cur_rate rc')"
    and r: "r = as_u64 (cur_rate rc')"
    using rate_update_adaptive [OF assms(1,4,6)] .
  have "a = 1" using a base_avg_1 [OF assms(4,5)] by simp
  then have "?x \<le> cur_rate rc'"
    using f64_clamp_mono [OF * f64_clamp_id [OF x(2,3)]] cl by simp
  then show ?thesis using r as_u64_mono by simp
qed

lemma base_avg_antimono:
  assumes "0 < s" and "s \<le> s'" and "0 \<le> base" and "base_avg s base = Some a" and "base_avg s' base = Some a'"
  shows "a' \<le> a"
proof (cases "base < 5000 \<and> s < 20000")
  case True
  then have "a = 1" using assms(4) by (simp add: base_avg_def)
  then show ?thesis using base_avg_Some [of s' base] assms(5) by auto
next
  case False
  then have "fdiv base s' \<le> fdiv base s"
    unfolding fdiv_def using assms by (intro f64.rnd_mono divide_left_mono) auto
  moreover have "f64_clamp (fdiv base s) 0 1 = Some a" "f64_clamp (fdiv base s') 0 1 = Some a'"
    using False assms by (auto simp: base_avg_def)
  ultimately show ?thesis by (blast intro: f64_clamp_mono)
qed

text \<open>The controller is delay-based: for the same state and base RTT, a larger
  smoothed RTT never gives a larger rate.\<close>

theorem rate_antitone_in_delay:
  assumes "rc_mode (cfg rc) = Adaptive" and "rate_ok rc" and "0 < s" and "s \<le> s'" and "0 \<le> base"
    and "rate_update s base rc = Some (r, rc')" and "rate_update s' base rc = Some (r', rc'')"
  shows "cur_rate rc'' \<le> cur_rate rc' \<and> r' \<le> r"
proof -
  let ?f = "\<lambda>a. fmul (1 / 2) (fadd (fadd (fmul (cur_rate rc) a) (cur_rate rc)) (alpha (cfg rc)))"
  have "0 < s'" using assms(3,4) by simp
  obtain a where a: "base_avg s base = Some a" "r = as_u64 (cur_rate rc')"
    "f64_clamp (?f a) (f64_of_nat (min_bps (cfg rc))) (f64_of_nat (max_bps (cfg rc))) = Some (cur_rate rc')"
    using rate_update_adaptive [OF assms(1,3,6)] .
  obtain a' where a': "base_avg s' base = Some a'" "r' = as_u64 (cur_rate rc'')"
    "f64_clamp (?f a') (f64_of_nat (min_bps (cfg rc))) (f64_of_nat (max_bps (cfg rc))) = Some (cur_rate rc'')"
    using rate_update_adaptive [OF assms(1) \<open>0 < s'\<close> assms(7)] .
  have "0 \<le> cur_rate rc"
    using assms(2) f64_of_nat_nonneg [of "min_bps (cfg rc)"] by (auto simp: rate_ok_def simp del: f64_of_nat_nonneg)
  then have "?f a' \<le> ?f a"
    using base_avg_antimono [OF assms(3-5) a(1) a'(1)] unfolding f64_ops
    by (intro f64.rnd_mono mult_left_mono add_right_mono) auto
  then have "cur_rate rc'' \<le> cur_rate rc'" by (rule f64_clamp_mono [OF _ a'(3) a(3)])
  then show ?thesis using a a' as_u64_mono by simp
qed

text \<open>In fixed mode the controller never panics and always returns its target.\<close>

theorem fixed_rate_is_target:
  assumes "rc_mode c = Fixed" and "target_bps c \<le> 2 ^ 53"
  shows "\<exists>rc. rate_update srtt_net base (rate_controller_new c) = Some (target_bps c, rc) \<and>
              cur_rate rc = real (target_bps c) \<and> cur_rate (rate_controller_new c) = real (target_bps c)"
  using assms
  by (simp add: rate_update_def rate_controller_new_def with_defaults_def start_rate_def Let_def
      f64_of_nat_exact as_u64_of_nat)

theorem fixed_rate_is_target_witness:
  "\<exists>rc. rate_update 10 5 (rate_controller_new (sample_config\<lparr>rc_mode := Fixed, target_bps := 1000000\<rparr>)) = Some (1000000, rc) \<and>
     cur_rate rc = 1000000"
  using fixed_rate_is_target [of "sample_config\<lparr>rc_mode := Fixed, target_bps := 1000000\<rparr>" 10 5]
  by auto

definition sample_controller :: rate_controller where
  "sample_controller = \<lparr>cfg = \<lparr>rc_mode = Adaptive, target_bps = 0, min_bps = 64000, max_bps = 100000000, alpha = 2000000\<rparr>,
                        cur_rate = 5000000\<rparr>"

lemma sample_controller_ok: "rate_ok sample_controller" "rc_mode (cfg sample_controller) = Adaptive"
    "0 \<le> alpha (cfg sample_controller)"
  by (simp_all add: rate_ok_def sample_controller_def f64_of_nat_exact f64.rnd_numeral)

theorem no_queueing_no_backoff_witness:
  "\<exists>r rc'. rate_update 10000 1000 sample_controller = Some (r, rc') \<and> 5000000 \<le> cur_rate rc'"
proof -
  obtain r rc' where u: "rate_update 10000 1000 sample_controller = Some (r, rc')"
    using rate_update_ok [OF sample_controller_ok(2,1)] by blast
  have "cur_rate sample_controller \<le> cur_rate rc'"
    using no_queueing_no_backoff [OF sample_controller_ok(2,1,3) _ _ u] by simp
  then show ?thesis using u by (simp add: sample_controller_def)
qed

theorem rate_antitone_in_delay_witness:
  "\<exists>r rc1 r' rc2. rate_update 30000 10000 sample_controller = Some (r, rc1) \<and>
     rate_update 90000 10000 sample_controller = Some (r', rc2) \<and> r' \<le> r"
proof -
  obtain r rc1 r' rc2 where u: "rate_update 30000 10000 sample_controller = Some (r, rc1)"
      "rate_update 90000 10000 sample_controller = Some (r', rc2)"
    using rate_update_ok [OF sample_controller_ok(2,1)] by metis
  have "r' \<le> r"
    using rate_antitone_in_delay [OF sample_controller_ok(2,1) _ _ _ u] by simp
  then show ?thesis using u by blast
qed

end
