(* ===== verification/Loss_Tracker.thy ===== *)
theory Loss_Tracker
  imports Rate_Control
begin

text \<open>
  \<open>src/src/losstracker.rs\<close>: the received-block bitmap that the ingest threads set, and the
  loss scanner of the feedback thread.

  \<^item> \<open>recv_bitmap\<close> with \<open>recv_bitmap_new\<close>, \<open>set_and_test\<close>, \<open>is_set\<close>: the words of 64
    bits, indexed as the code does, an index past the vector being a panic. The locale
    \<open>block_bitmap\<close> is what the users of the bitmap rely on.
  \<^item> \<open>heap_item\<close> with its order, \<open>loss_scanner\<close> with \<open>loss_scanner_new\<close>, \<open>advance\<close>,
    \<open>scan_holes\<close>, \<open>collect_due\<close>, \<open>pending_count\<close>, \<open>completed\<close>. The shared
    \<open>Arc<RecvBitmap>\<close> is an argument of the operations that read it.
  \<^item> \<open>run_events\<close>: the operations interleaved with block arrivals.

  Sequence numbers and due times are \<open>u64\<close> values below the block count or produced by a
  saturating cast, so no operation on them wraps and they are natural numbers here.
\<close>

section \<open>The received-block bitmap\<close>

record recv_bitmap =
  bm_words :: "u64 list"
  bm_total :: nat

definition recv_bitmap_new :: "nat \<Rightarrow> recv_bitmap" where
  "recv_bitmap_new tot = \<lparr>bm_words = replicate ((tot + 63) div 64) 0, bm_total = tot\<rparr>"

definition bit_mask :: "nat \<Rightarrow> u64" where
  "bit_mask seq = push_bit (seq mod 64) 1"

definition set_and_test :: "recv_bitmap \<Rightarrow> nat \<Rightarrow> (bool \<times> recv_bitmap) may_panic" where
  "set_and_test bm seq = do {
     prev \<leftarrow> index_at (bm_words bm) (seq div 64);
     Some (prev AND bit_mask seq = 0,
           bm\<lparr>bm_words := (bm_words bm)[seq div 64 := prev OR bit_mask seq]\<rparr>)
   }"

definition is_set :: "recv_bitmap \<Rightarrow> nat \<Rightarrow> bool may_panic" where
  "is_set bm seq = do {
     w \<leftarrow> index_at (bm_words bm) (seq div 64);
     Some (w AND bit_mask seq \<noteq> 0)
   }"

text \<open>The blocks a bitmap records, and how many it has room for.\<close>

definition bm_seqs :: "recv_bitmap \<Rightarrow> nat set" where
  "bm_seqs bm = {seq. seq div 64 < length (bm_words bm) \<and> bit (bm_words bm ! (seq div 64)) (seq mod 64)}"

definition bm_cap :: "recv_bitmap \<Rightarrow> nat" where
  "bm_cap bm = 64 * length (bm_words bm)"

subsection \<open>What the users of the bitmap rely on\<close>

text \<open>Marking a sequence of arrivals, counting the ones reported as new.\<close>

fun mark_all :: "('b \<Rightarrow> nat \<Rightarrow> (bool \<times> 'b) option) \<Rightarrow> 'b \<Rightarrow> nat list \<Rightarrow> (nat \<times> 'b) option" where
  "mark_all mark b [] = Some (0, b)"
| "mark_all mark b (s # ss) = do {
     (fresh, b') \<leftarrow> mark b s;
     (n, b'') \<leftarrow> mark_all mark b' ss;
     Some ((if fresh then Suc n else n), b'')
   }"

locale block_bitmap =
  fixes mark :: "'b \<Rightarrow> nat \<Rightarrow> (bool \<times> 'b) option"
    and test :: "'b \<Rightarrow> nat \<Rightarrow> bool option"
    and seqs :: "'b \<Rightarrow> nat set"
    and cap :: "'b \<Rightarrow> nat"
  assumes mark_panics: "mark b s = None \<longleftrightarrow> cap b \<le> s"
    and mark_first: "mark b s = Some (fresh, b') \<Longrightarrow> fresh \<longleftrightarrow> s \<notin> seqs b"
    and mark_seqs: "mark b s = Some (fresh, b') \<Longrightarrow> seqs b' = insert s (seqs b)"
    and mark_cap: "mark b s = Some (fresh, b') \<Longrightarrow> cap b' = cap b"
    and test_panics: "test b s = None \<longleftrightarrow> cap b \<le> s"
    and test_seqs: "test b s = Some r \<Longrightarrow> r \<longleftrightarrow> s \<in> seqs b"
    and finite_seqs: "finite (seqs b)"
begin

lemma test_eq:
  assumes "s < cap b"
  shows "test b s = Some (s \<in> seqs b)"
proof -
  obtain r where r: "test b s = Some r"
    using test_panics [of b s] assms by (cases "test b s") auto
  with test_seqs [OF r] show ?thesis by simp
qed

lemma mark_ok:
  assumes "s < cap b"
  obtains b' where "mark b s = Some (s \<notin> seqs b, b')" "seqs b' = insert s (seqs b)" "cap b' = cap b"
proof -
  obtain fresh b' where m: "mark b s = Some (fresh, b')"
    using mark_panics [of b s] assms by (cases "mark b s") auto
  show thesis
    using that [of b'] m mark_first [OF m] mark_seqs [OF m] mark_cap [OF m] by simp
qed

lemma mark_all_ok:
  "\<forall>s \<in> set ss. s < cap b \<Longrightarrow>
     \<exists>b'. mark_all mark b ss = Some (card (set ss - seqs b), b') \<and> seqs b' = seqs b \<union> set ss \<and> cap b' = cap b"
proof (induction ss arbitrary: b)
  case (Cons s ss)
  obtain b' where b': "mark b s = Some (s \<notin> seqs b, b')" "seqs b' = insert s (seqs b)" "cap b' = cap b"
    using mark_ok [of s b] Cons.prems by (metis list.set_intros(1))
  have "\<forall>s \<in> set ss. s < cap b'" using Cons.prems b'(3) by simp
  from Cons.IH [OF this] obtain b'' where b'': "mark_all mark b' ss = Some (card (set ss - seqs b'), b'')"
      "seqs b'' = seqs b' \<union> set ss" "cap b'' = cap b'"
    by blast
  have "card (set (s # ss) - seqs b) = (if s \<notin> seqs b then Suc (card (set ss - seqs b')) else card (set ss - seqs b'))"
  proof (cases "s \<in> seqs b")
    case True
    then have "set (s # ss) - seqs b = set ss - seqs b'" using b'(2) by auto
    with True show ?thesis by simp
  next
    case False
    then have "set (s # ss) - seqs b = insert s (set ss - seqs b')" using b'(2) by auto
    with False show ?thesis using b'(2) by simp
  qed
  with b' b'' show ?case by simp
qed simp

end

lemma bit_bit_mask: "bit (bit_mask seq) k \<longleftrightarrow> k = seq mod 64"
  by (auto simp: bit_mask_def bit_exp_iff)

lemma and_bit_mask: "w AND bit_mask seq = 0 \<longleftrightarrow> \<not> bit w (seq mod 64)"
proof -
  have "bit (w AND bit_mask seq) (seq mod 64) \<longleftrightarrow> bit w (seq mod 64)"
    by (simp add: bit_and_iff bit_bit_mask)
  moreover have "w AND bit_mask seq = 0" if "\<not> bit w (seq mod 64)"
    using that by (intro bit_eqI) (auto simp: bit_and_iff bit_bit_mask)
  ultimately show ?thesis by auto
qed

lemma bit_or_mask: "bit (w OR bit_mask seq) k \<longleftrightarrow> bit w k \<or> k = seq mod 64"
  by (simp add: bit_or_iff bit_bit_mask)

lemma div_less_iff_cap: "seq div 64 < length ws \<longleftrightarrow> seq < 64 * length ws" for seq :: nat
  by (simp add: div_less_iff_less_mult mult.commute)

lemma set_and_test_seqs:
  assumes "seq div 64 < length (bm_words bm)"
  shows "bm_seqs (bm\<lparr>bm_words := (bm_words bm)[seq div 64 := bm_words bm ! (seq div 64) OR bit_mask seq]\<rparr>)
       = insert seq (bm_seqs bm)"
proof -
  have "s = seq" if "s div 64 = seq div 64" "s mod 64 = seq mod 64" for s
    using that by (metis div_mult_mod_eq)
  then show ?thesis using assms by (auto simp: bm_seqs_def nth_list_update bit_or_mask)
qed

interpretation bitmap: block_bitmap set_and_test is_set bm_seqs bm_cap
proof unfold_locales
  fix b :: recv_bitmap
  have "bm_seqs b \<subseteq> {..<64 * length (bm_words b)}"
    by (auto simp: bm_seqs_def div_less_iff_cap)
  then show "finite (bm_seqs b)" by (rule finite_subset) simp
qed (auto simp: set_and_test_def is_set_def index_at_def bm_cap_def div_less_iff_cap and_bit_mask
    set_and_test_seqs not_less split: if_splits, auto simp: bm_seqs_def div_less_iff_cap and_bit_mask)

lemma recv_bitmap_new_seqs [simp]: "bm_seqs (recv_bitmap_new tot) = {}"
  by (auto simp: bm_seqs_def recv_bitmap_new_def)

lemma recv_bitmap_new_cap: "tot \<le> bm_cap (recv_bitmap_new tot)"
  by (simp add: bm_cap_def recv_bitmap_new_def)

section \<open>The loss scanner\<close>

datatype heap_item = HeapItem (hi_due: nat) (hi_seq: nat)

text \<open>\<open>impl Ord for HeapItem\<close>: by due time, then by sequence number.\<close>

instantiation heap_item :: linorder
begin

definition less_eq_heap_item :: "heap_item \<Rightarrow> heap_item \<Rightarrow> bool" where
  "less_eq_heap_item a b \<longleftrightarrow> hi_due a < hi_due b \<or> hi_due a = hi_due b \<and> hi_seq a \<le> hi_seq b"

definition less_heap_item :: "heap_item \<Rightarrow> heap_item \<Rightarrow> bool" where
  "less_heap_item a b \<longleftrightarrow> hi_due a < hi_due b \<or> hi_due a = hi_due b \<and> hi_seq a < hi_seq b"

instance
  by standard (auto simp: less_eq_heap_item_def less_heap_item_def intro: heap_item.expand)

end

record loss_scanner =
  ls_total :: nat
  hi_contig :: nat
  next_scan :: nat
  pending :: "nat set"
  ls_heap :: "heap_item list"

definition loss_scanner_new :: "nat \<Rightarrow> loss_scanner" where
  "loss_scanner_new tot =
     \<lparr>ls_total = tot, hi_contig = 0, next_scan = 0, pending = {}, ls_heap = []\<rparr>"

function advance_loop :: "recv_bitmap \<Rightarrow> loss_scanner \<Rightarrow> loss_scanner may_panic" where
  "advance_loop bm ls =
     (if hi_contig ls < ls_total ls then
        case is_set bm (hi_contig ls) of
          None \<Rightarrow> None
        | Some received \<Rightarrow>
            if received
            then advance_loop bm (ls\<lparr>pending := pending ls - {hi_contig ls}, hi_contig := hi_contig ls + 1\<rparr>)
            else Some ls
      else Some ls)"
  by auto
termination
  by (relation "measure (\<lambda>(bm, ls). ls_total ls - hi_contig ls)") auto

definition advance :: "recv_bitmap \<Rightarrow> loss_scanner \<Rightarrow> (nat \<times> loss_scanner) may_panic" where
  "advance bm ls = do {
     ls' \<leftarrow> advance_loop bm ls;
     Some (hi_contig ls', ls')
   }"

text \<open>\<open>(now + rto + RTT_PREC_US) as u64\<close>.\<close>

definition due_time :: "real \<Rightarrow> real \<Rightarrow> nat" where
  "due_time now rto = as_u64 (fadd (fadd now rto) RTT_PREC_US)"

function scan_loop :: "recv_bitmap \<Rightarrow> nat \<Rightarrow> nat \<Rightarrow> nat \<Rightarrow> loss_scanner \<Rightarrow> loss_scanner may_panic" where
  "scan_loop bm due max_seen seq ls =
     (if seq \<le> max_seen then
        case is_set bm seq of
          None \<Rightarrow> None
        | Some received \<Rightarrow>
            scan_loop bm due max_seen (seq + 1)
              (if \<not> received \<and> seq \<notin> pending ls
               then ls\<lparr>pending := insert seq (pending ls),
                       ls_heap := heap_push (HeapItem due seq) (ls_heap ls)\<rparr>
               else ls)
      else Some ls)"
  by auto
termination
  by (relation "measure (\<lambda>(bm, due, max_seen, seq, ls). Suc max_seen - seq)") auto

definition scan_holes :: "recv_bitmap \<Rightarrow> nat \<Rightarrow> real \<Rightarrow> real \<Rightarrow> loss_scanner \<Rightarrow> loss_scanner may_panic" where
  "scan_holes bm max_seen now rto ls =
     (if ls_total ls = 0 then Some ls
      else do {
        let max_seen = (if max_seen \<ge> ls_total ls then ls_total ls - 1 else max_seen);
        ls' \<leftarrow> scan_loop bm (due_time now rto) max_seen (next_scan ls) ls;
        Some (if max_seen + 1 > next_scan ls' then ls'\<lparr>next_scan := max_seen + 1\<rparr> else ls')
      })"

function collect_loop ::
  "recv_bitmap \<Rightarrow> real \<Rightarrow> nat \<Rightarrow> nat \<Rightarrow> nat list \<Rightarrow> loss_scanner \<Rightarrow> (nat list \<times> loss_scanner) may_panic"
where
  "collect_loop bm now re_due max_out out ls =
     (if length out < max_out then
        case heap_peek (ls_heap ls) of
          None \<Rightarrow> Some (out, ls)
        | Some item \<Rightarrow>
            if f64_of_nat (hi_due item) > now then Some (out, ls)
            else case heap_pop (ls_heap ls) of
              None \<Rightarrow> None
            | Some (item, rest) \<Rightarrow>
                if hi_seq item \<notin> pending ls
                then collect_loop bm now re_due max_out out (ls\<lparr>ls_heap := rest\<rparr>)
                else case is_set bm (hi_seq item) of
                  None \<Rightarrow> None
                | Some received \<Rightarrow>
                    if received
                    then collect_loop bm now re_due max_out out
                           (ls\<lparr>ls_heap := rest, pending := pending ls - {hi_seq item}\<rparr>)
                    else collect_loop bm now re_due max_out (out @ [hi_seq item])
                           (ls\<lparr>ls_heap := heap_push (HeapItem re_due (hi_seq item)) rest\<rparr>)
      else Some (out, ls))"
  by auto
termination
  by (relation "measure (\<lambda>(bm, now, re_due, max_out, out, ls). 2 * (max_out - length out) + length (ls_heap ls))")
    (auto dest: heap.size_pop)

definition collect_due ::
  "recv_bitmap \<Rightarrow> real \<Rightarrow> real \<Rightarrow> nat \<Rightarrow> loss_scanner \<Rightarrow> (nat list \<times> loss_scanner) may_panic"
where
  "collect_due bm now rto max_out ls = collect_loop bm now (due_time now rto) max_out [] ls"

definition pending_count :: "loss_scanner \<Rightarrow> nat" where
  "pending_count ls = card (pending ls)"

definition completed :: "loss_scanner \<Rightarrow> bool" where
  "completed ls \<longleftrightarrow> hi_contig ls = ls_total ls"

declare advance_loop.simps [simp del] scan_loop.simps [simp del] collect_loop.simps [simp del]

section \<open>The invariant of the scanner\<close>

text \<open>
  The heap is in order and holds at most one entry per block. Every pending block has an
  entry, and every block below \<open>next_scan\<close> that has not arrived is pending: no hole the
  scanner has passed is forgotten.
\<close>

definition heap_seqs :: "loss_scanner \<Rightarrow> nat list" where
  "heap_seqs ls = map hi_seq (ls_heap ls)"

definition queue_ok :: "loss_scanner \<Rightarrow> bool" where
  "queue_ok ls \<longleftrightarrow>
     sorted (ls_heap ls) \<and> distinct (heap_seqs ls) \<and>
     set (heap_seqs ls) \<subseteq> {..<ls_total ls} \<and> pending ls \<subseteq> set (heap_seqs ls)"

definition scanner_inv :: "recv_bitmap \<Rightarrow> loss_scanner \<Rightarrow> bool" where
  "scanner_inv bm ls \<longleftrightarrow>
     ls_total ls \<le> bm_cap bm \<and> hi_contig ls \<le> ls_total ls \<and> next_scan ls \<le> ls_total ls \<and>
     {..<hi_contig ls} \<subseteq> bm_seqs bm \<and> {..<next_scan ls} - bm_seqs bm \<subseteq> pending ls \<and>
     set (heap_seqs ls) \<subseteq> {..<next_scan ls} \<and> queue_ok ls"

lemma scanner_inv_new: "scanner_inv (recv_bitmap_new tot) (loss_scanner_new tot)"
  using recv_bitmap_new_cap [of tot]
  by (simp add: scanner_inv_def loss_scanner_new_def queue_ok_def heap_seqs_def)

text \<open>Blocks that arrive while the scanner runs keep the invariant.\<close>

lemma scanner_inv_mono:
  assumes "scanner_inv bm ls" and "bm_seqs bm \<subseteq> bm_seqs bm'" and "bm_cap bm' = bm_cap bm"
  shows "scanner_inv bm' ls"
  using assms unfolding scanner_inv_def by auto

lemma is_set_eq: "seq < bm_cap bm \<Longrightarrow> is_set bm seq = Some (seq \<in> bm_seqs bm)"
  by (rule bitmap.test_eq)

subsection \<open>\<open>advance\<close>\<close>

lemma advance_loop_inv:
  "scanner_inv bm ls \<Longrightarrow>
     \<exists>ls'. advance_loop bm ls = Some ls' \<and> scanner_inv bm ls' \<and>
       hi_contig ls \<le> hi_contig ls' \<and>
       (hi_contig ls' < ls_total ls \<longrightarrow> hi_contig ls' \<notin> bm_seqs bm) \<and>
       ls_total ls' = ls_total ls \<and> next_scan ls' = next_scan ls \<and> ls_heap ls' = ls_heap ls \<and>
       pending ls' = pending ls - {hi_contig ls..<hi_contig ls'}"
proof (induction bm ls rule: advance_loop.induct)
  case (1 bm ls)
  show ?case
  proof (cases "hi_contig ls < ls_total ls \<and> hi_contig ls \<in> bm_seqs bm")
    case False
    then show ?thesis
      using 1(2) is_set_eq [of "hi_contig ls" bm]
      by (subst advance_loop.simps) (auto simp: scanner_inv_def)
  next
    case True
    define ls1 where "ls1 = ls\<lparr>pending := pending ls - {hi_contig ls}, hi_contig := hi_contig ls + 1\<rparr>"
    have set: "is_set bm (hi_contig ls) = Some True"
      using True 1(2) is_set_eq [of "hi_contig ls" bm] by (simp add: scanner_inv_def)
    have "scanner_inv bm ls1"
      using 1(2) True by (auto simp: ls1_def scanner_inv_def queue_ok_def heap_seqs_def less_Suc_eq)
    with 1(1) [of True] True set obtain ls' where ls':
      "advance_loop bm ls1 = Some ls'" "scanner_inv bm ls'" "hi_contig ls1 \<le> hi_contig ls'"
      "hi_contig ls' < ls_total ls1 \<longrightarrow> hi_contig ls' \<notin> bm_seqs bm"
      "ls_total ls' = ls_total ls1" "next_scan ls' = next_scan ls1" "ls_heap ls' = ls_heap ls1"
      "pending ls' = pending ls1 - {hi_contig ls1..<hi_contig ls'}"
      by (auto simp: ls1_def)
    have "advance_loop bm ls = Some ls'"
      using True set ls'(1) by (simp add: advance_loop.simps [of bm ls] ls1_def)
    moreover have "pending ls' = pending ls - {hi_contig ls..<hi_contig ls'}"
    proof -
      have "{hi_contig ls..<hi_contig ls'} = insert (hi_contig ls) {hi_contig ls1..<hi_contig ls'}"
        using ls'(3) by (auto simp: ls1_def)
      then show ?thesis unfolding ls'(8) by (auto simp: ls1_def)
    qed
    ultimately show ?thesis using ls'(2-7) by (simp add: ls1_def)
  qed
qed

subsection \<open>\<open>scan_holes\<close>\<close>

lemma distinct_map_heap_push:
  "distinct (map f (heap_push x q)) \<longleftrightarrow> f x \<notin> f ` set q \<and> distinct (map f q)"
proof -
  have "mset (map f (heap_push x q)) = mset (map f (x # q))"
    by (simp add: heap_push_def)
  then have "distinct (map f (heap_push x q)) \<longleftrightarrow> distinct (map f (x # q))"
    by (rule mset_eq_imp_distinct_iff)
  then show ?thesis by simp
qed

lemma scan_loop_ok:
  "ls_total ls \<le> bm_cap bm \<Longrightarrow> max_seen < ls_total ls \<Longrightarrow> sorted (ls_heap ls) \<Longrightarrow>
   distinct (heap_seqs ls) \<Longrightarrow> set (heap_seqs ls) \<subseteq> {..<seq} \<Longrightarrow> pending ls \<subseteq> {..<seq} \<Longrightarrow>
     \<exists>q. scan_loop bm due max_seen seq ls =
           Some (ls\<lparr>pending := pending ls \<union> ({seq..max_seen} - bm_seqs bm), ls_heap := q\<rparr>) \<and>
         sorted q \<and> distinct (map hi_seq q) \<and>
         set q = set (ls_heap ls) \<union> HeapItem due ` ({seq..max_seen} - bm_seqs bm)"
proof (induction bm due max_seen seq ls rule: scan_loop.induct)
  case (1 bm due max_seen seq ls)
  show ?case
  proof (cases "seq \<le> max_seen")
    case False
    then show ?thesis
      using 1(4,5) by (intro exI [of _ "ls_heap ls"]) (simp add: scan_loop.simps heap_seqs_def)
  next
    case True
    have set: "is_set bm seq = Some (seq \<in> bm_seqs bm)"
      using True 1(2,3) by (intro is_set_eq) simp
    have ivl: "{seq..max_seen} = insert seq {seq + 1..max_seen}" using True by auto
    show ?thesis
    proof (cases "seq \<in> bm_seqs bm")
      case True
      have *: "scan_loop bm due max_seen seq ls = scan_loop bm due max_seen (seq + 1) ls"
        using \<open>seq \<le> max_seen\<close> set True by (simp add: scan_loop.simps [of bm due max_seen seq])
      have "{seq..max_seen} - bm_seqs bm = {seq + 1..max_seen} - bm_seqs bm"
        using ivl True by auto
      moreover have "set (heap_seqs ls) \<subseteq> {..<seq + 1}" "pending ls \<subseteq> {..<seq + 1}"
        using 1(6,7) by auto
      ultimately show ?thesis
        using 1(1) [OF \<open>seq \<le> max_seen\<close> set] 1(2-5) True * by simp
    next
      case False
      define ls1 where "ls1 = ls\<lparr>pending := insert seq (pending ls),
                       ls_heap := heap_push (HeapItem due seq) (ls_heap ls)\<rparr>"
      have "seq \<notin> pending ls" using 1(7) by auto
      then have *: "scan_loop bm due max_seen seq ls = scan_loop bm due max_seen (seq + 1) ls1"
        using \<open>seq \<le> max_seen\<close> set False by (simp add: scan_loop.simps [of bm due max_seen seq] ls1_def)
      have ls1: "sorted (ls_heap ls1)" "distinct (heap_seqs ls1)"
          "set (heap_seqs ls1) \<subseteq> {..<seq + 1}" "pending ls1 \<subseteq> {..<seq + 1}"
        using 1(4-7) by (auto simp: ls1_def heap_seqs_def distinct_map_heap_push heap.wf_push)
      have ivl': "{seq..max_seen} - bm_seqs bm = insert seq ({seq + 1..max_seen} - bm_seqs bm)"
        using ivl False by auto
      from 1(1) [OF \<open>seq \<le> max_seen\<close> set] obtain q where
        "scan_loop bm due max_seen (seq + 1) ls1 =
           Some (ls1\<lparr>pending := pending ls1 \<union> ({seq + 1..max_seen} - bm_seqs bm), ls_heap := q\<rparr>)"
        "sorted q" "distinct (map hi_seq q)"
        "set q = set (ls_heap ls1) \<union> HeapItem due ` ({seq + 1..max_seen} - bm_seqs bm)"
        using 1(2,3) ls1 False \<open>seq \<notin> pending ls\<close> unfolding ls1_def by auto
      then show ?thesis
        unfolding * ivl' by (intro exI [of _ q]) (simp add: ls1_def)
    qed
  qed
qed

definition scanned :: "recv_bitmap \<Rightarrow> nat \<Rightarrow> nat \<Rightarrow> loss_scanner \<Rightarrow> loss_scanner \<Rightarrow> bool" where
  "scanned bm due m ls ls' \<longleftrightarrow>
     next_scan ls' = max (next_scan ls) (m + 1) \<and>
     ls_total ls' = ls_total ls \<and> hi_contig ls' = hi_contig ls \<and>
     pending ls' = pending ls \<union> ({next_scan ls..m} - bm_seqs bm) \<and>
     set (ls_heap ls') = set (ls_heap ls) \<union> HeapItem due ` ({next_scan ls..m} - bm_seqs bm)"

lemma scan_holes_ok:
  assumes inv: "scanner_inv bm ls" and "0 < ls_total ls"
    and "m = min max_seen (ls_total ls - 1)"
  shows "\<exists>ls'. scan_holes bm max_seen now rto ls = Some ls' \<and> scanner_inv bm ls' \<and>
    scanned bm (due_time now rto) m ls ls'"
proof -
  have m: "m < ls_total ls" using assms by simp
  have sub: "pending ls \<subseteq> {..<next_scan ls}" "set (heap_seqs ls) \<subseteq> {..<next_scan ls}"
    using inv by (auto simp: scanner_inv_def queue_ok_def)
  obtain q where q: "scan_loop bm (due_time now rto) m (next_scan ls) ls =
      Some (ls\<lparr>pending := pending ls \<union> ({next_scan ls..m} - bm_seqs bm), ls_heap := q\<rparr>)"
      "sorted q" "distinct (map hi_seq q)"
      "set q = set (ls_heap ls) \<union> HeapItem (due_time now rto) ` ({next_scan ls..m} - bm_seqs bm)"
    using scan_loop_ok [of ls bm m "next_scan ls" "due_time now rto"] inv m sub
    by (auto simp: scanner_inv_def queue_ok_def)
  define ls' where "ls' = ls\<lparr>pending := pending ls \<union> ({next_scan ls..m} - bm_seqs bm),
    ls_heap := q, next_scan := max (next_scan ls) (m + 1)\<rparr>"
  have hs: "set (heap_seqs ls') = set (heap_seqs ls) \<union> ({next_scan ls..m} - bm_seqs bm)"
    by (simp add: ls'_def heap_seqs_def q(4) image_Un image_image)
  have "scan_holes bm max_seen now rto ls = Some ls'"
    using assms q(1) by (auto simp: scan_holes_def ls'_def min_def max_def Let_def)
  moreover have "{..<next_scan ls'} - bm_seqs bm \<subseteq> pending ls'"
  proof
    fix s assume s: "s \<in> {..<next_scan ls'} - bm_seqs bm"
    show "s \<in> pending ls'"
    proof (cases "s < next_scan ls")
      case True
      then show ?thesis using s inv by (auto simp: ls'_def scanner_inv_def)
    qed (use s in \<open>auto simp: ls'_def\<close>)
  qed
  then have "scanner_inv bm ls'"
    using inv m q(2,3) hs sub unfolding scanner_inv_def queue_ok_def
    by (auto simp: ls'_def heap_seqs_def)
  ultimately show ?thesis
    using q by (simp add: ls'_def scanned_def)
qed

subsection \<open>\<open>collect_due\<close>\<close>

text \<open>What a run of the loop that returns \<open>new\<close> does to the scanner.\<close>

definition collected ::
  "recv_bitmap \<Rightarrow> real \<Rightarrow> nat \<Rightarrow> loss_scanner \<Rightarrow> nat list \<Rightarrow> loss_scanner \<Rightarrow> bool" where
  "collected bm now re_due ls new ls' \<longleftrightarrow>
     queue_ok ls' \<and> ls_total ls' = ls_total ls \<and> hi_contig ls' = hi_contig ls \<and>
     next_scan ls' = next_scan ls \<and>
     pending ls' \<subseteq> pending ls \<and> pending ls - pending ls' \<subseteq> bm_seqs bm \<and>
     set new \<subseteq> pending ls' - bm_seqs bm \<and>
     (\<forall>i \<in> set (ls_heap ls'). i \<in> set (ls_heap ls) \<or> i \<in> HeapItem re_due ` set new) \<and>
     (\<forall>s \<in> set new. \<exists>i \<in> set (ls_heap ls). hi_seq i = s \<and> f64_of_nat (hi_due i) \<le> now) \<and>
     (\<forall>i \<in> set (ls_heap ls'). hi_seq i \<in> set new \<longrightarrow> hi_due i = re_due) \<and>
     (now < f64_of_nat re_due \<longrightarrow> distinct new)"

lemma collected_refl: "queue_ok ls \<Longrightarrow> collected bm now re_due ls [] ls"
  by (simp add: collected_def)

lemma collected_drop:
  assumes "queue_ok ls" and "ls_heap ls = i # rest" and "hi_seq i \<notin> pending ls"
  shows "queue_ok (ls\<lparr>ls_heap := rest\<rparr>)"
    and "collected bm now re_due (ls\<lparr>ls_heap := rest\<rparr>) new ls' \<Longrightarrow> collected bm now re_due ls new ls'"
  using assms unfolding collected_def queue_ok_def heap_seqs_def by auto

lemma collected_received:
  assumes "queue_ok ls" and "ls_heap ls = i # rest" and "hi_seq i \<in> bm_seqs bm"
  defines "ls1 \<equiv> ls\<lparr>ls_heap := rest, pending := pending ls - {hi_seq i}\<rparr>"
  shows "queue_ok ls1"
    and "collected bm now re_due ls1 new ls' \<Longrightarrow> collected bm now re_due ls new ls'"
  using assms unfolding collected_def queue_ok_def heap_seqs_def by auto

lemma collected_request:
  assumes "queue_ok ls" and "ls_heap ls = i # rest" and "f64_of_nat (hi_due i) \<le> now"
    and "hi_seq i \<in> pending ls" and "hi_seq i \<notin> bm_seqs bm"
    and ls1_def: "ls1 = ls\<lparr>ls_heap := heap_push (HeapItem re_due (hi_seq i)) rest\<rparr>"
  shows "queue_ok ls1"
    and "collected bm now re_due ls1 new ls' \<Longrightarrow> collected bm now re_due ls (hi_seq i # new) ls'"
proof -
  show ok: "queue_ok ls1"
    using assms by (auto simp: queue_ok_def heap_seqs_def distinct_map_heap_push heap.wf_push)
  assume c: "collected bm now re_due ls1 new ls'"
  have "hi_seq i \<notin> hi_seq ` set rest" using assms(1,2) by (simp add: queue_ok_def heap_seqs_def)
  have only: "j = HeapItem re_due (hi_seq i)" if j: "j \<in> set (ls_heap ls1)" "hi_seq j = hi_seq i" for j
  proof -
    have "j \<notin> set rest" using \<open>hi_seq i \<notin> hi_seq ` set rest\<close> j(2) by (metis imageI)
    then show ?thesis using j(1) by (simp add: ls1_def)
  qed
  have "hi_seq i \<in> pending ls'"
    using c assms by (auto simp: collected_def)
  moreover have "hi_seq i \<notin> set new" if "now < f64_of_nat re_due"
  proof
    assume "hi_seq i \<in> set new"
    then obtain j where "j \<in> set (ls_heap ls1)" "hi_seq j = hi_seq i" "f64_of_nat (hi_due j) \<le> now"
      using c by (auto simp: collected_def)
    then show False using only [of j] that by simp
  qed
  moreover have "hi_due j = re_due" if "j \<in> set (ls_heap ls')" "hi_seq j = hi_seq i" for j
    using c only [OF _ that(2)] that unfolding collected_def by (metis heap_item.sel(1) imageE)
  ultimately show "collected bm now re_due ls (hi_seq i # new) ls'"
    using c assms unfolding collected_def by (auto simp: ls1_def)
qed

lemma collect_loop_ok:
  "queue_ok ls \<Longrightarrow> ls_total ls \<le> bm_cap bm \<Longrightarrow> length out \<le> max_out \<Longrightarrow>
     \<exists>new ls'. collect_loop bm now re_due max_out out ls = Some (out @ new, ls') \<and>
       collected bm now re_due ls new ls' \<and> length out + length new \<le> max_out \<and>
       (length out + length new < max_out \<longrightarrow> (\<forall>i \<in> set (ls_heap ls'). now < f64_of_nat (hi_due i)))"
proof (induction bm now re_due max_out out ls rule: collect_loop.induct)
  case (1 bm now re_due max_out out ls)
  note unfold = collect_loop.simps [of bm now re_due max_out out ls]
  consider "\<not> length out < max_out" | "length out < max_out" "ls_heap ls = []"
    | i rest where "length out < max_out" "ls_heap ls = i # rest" "now < f64_of_nat (hi_due i)"
    | (pop) i rest where "length out < max_out" "ls_heap ls = i # rest" "\<not> now < f64_of_nat (hi_due i)"
    by (metis neq_Nil_conv)
  then show ?case
  proof cases
    case 3
    have "now < f64_of_nat (hi_due j)" if "j \<in> set (ls_heap ls)" for j
    proof -
      have "i \<le> j" using that 3(2) "1.prems"(1) by (auto simp: queue_ok_def)
      then have "f64_of_nat (hi_due i) \<le> f64_of_nat (hi_due j)"
        by (auto simp: less_eq_heap_item_def intro: f64_of_nat_mono)
      then show ?thesis using 3(3) by simp
    qed
    with 3 "1.prems" show ?thesis
      by (intro exI [of _ "[]"] exI [of _ ls]) (simp add: unfold collected_refl)
  next
    case pop
    then have due: "f64_of_nat (hi_due i) \<le> now" and pop': "heap_pop (ls_heap ls) = Some (i, rest)" by auto
    have "hi_seq i < bm_cap bm"
      using pop "1.prems" by (auto simp: queue_ok_def heap_seqs_def)
    then have set: "is_set bm (hi_seq i) = Some (hi_seq i \<in> bm_seqs bm)" by (rule is_set_eq)
    have peek: "heap_peek (ls_heap ls) = Some i" using pop by simp
    note step = pop(1,3) peek pop' set
    consider (stale) "hi_seq i \<notin> pending ls" | (received) "hi_seq i \<in> pending ls" "hi_seq i \<in> bm_seqs bm"
      | (missing) "hi_seq i \<in> pending ls" "hi_seq i \<notin> bm_seqs bm" by blast
    then show ?thesis
    proof cases
      case stale
      note c = collected_drop [OF "1.prems"(1) pop(2) stale]
      have "collect_loop bm now re_due max_out out ls = collect_loop bm now re_due max_out out (ls\<lparr>ls_heap := rest\<rparr>)"
        using step stale by (simp add: unfold)
      then show ?thesis using "1.IH"(1) [OF pop(1) peek pop(3) pop' refl stale] "1.prems" c by fastforce
    next
      case received
      note c = collected_received [OF "1.prems"(1) pop(2) received(2)]
      have "collect_loop bm now re_due max_out out ls =
          collect_loop bm now re_due max_out out (ls\<lparr>ls_heap := rest, pending := pending ls - {hi_seq i}\<rparr>)"
        using step received by (simp add: unfold)
      then show ?thesis
        using "1.IH"(2) [OF pop(1) peek pop(3) pop' refl _ set] received "1.prems" c by fastforce
    next
      case missing
      note c = collected_request [OF "1.prems"(1) pop(2) due missing refl]
      have "collect_loop bm now re_due max_out out ls =
          collect_loop bm now re_due max_out (out @ [hi_seq i])
            (ls\<lparr>ls_heap := heap_push (HeapItem re_due (hi_seq i)) rest\<rparr>)"
        using step missing by (simp add: unfold)
      then show ?thesis
        using "1.IH"(3) [OF pop(1) peek pop(3) pop' refl _ set] missing "1.prems" pop(1) c by fastforce
    qed
  qed (use "1.prems" in \<open>auto simp: unfold collected_refl\<close>)
qed

lemma collected_inv: "scanner_inv bm ls \<Longrightarrow> collected bm now re_due ls new ls' \<Longrightarrow> scanner_inv bm ls'"
proof -
  assume inv: "scanner_inv bm ls" and c: "collected bm now re_due ls new ls'"
  have "set new \<subseteq> {..<next_scan ls}"
    using c inv by (fastforce simp: collected_def scanner_inv_def heap_seqs_def)
  then have "set (heap_seqs ls') \<subseteq> {..<next_scan ls}"
    using c inv by (fastforce simp: collected_def scanner_inv_def heap_seqs_def)
  then show ?thesis
    using c inv unfolding collected_def scanner_inv_def by auto
qed

lemma collect_due_ok:
  assumes "scanner_inv bm ls"
  shows "\<exists>out ls'. collect_due bm now rto max_out ls = Some (out, ls') \<and>
    collected bm now (due_time now rto) ls out ls' \<and> scanner_inv bm ls' \<and> length out \<le> max_out \<and>
    (length out < max_out \<longrightarrow> (\<forall>i \<in> set (ls_heap ls'). now < f64_of_nat (hi_due i)))"
  using collect_loop_ok [of ls bm "[]" max_out now "due_time now rto"] assms collected_inv [OF assms]
  by (auto simp: collect_due_def scanner_inv_def)

lemma due_time_ge:
  assumes "0 \<le> now" and "0 \<le> rto" and "now + rto \<le> 2 ^ 52"
  shows "now + rto + 999 < f64_of_nat (due_time now rto)"
proof -
  define f where "f = \<lfloor>now + rto\<rfloor>"
  have f: "0 \<le> f" "f \<le> 2 ^ 52" using assms by (simp_all add: f_def floor_le_iff)
  have "f64_round (of_int f) \<le> fadd now rto"
    unfolding fadd_def by (rule f64.rnd_mono) (simp add: f_def)
  then have "of_int f \<le> fadd now rto" using f f64.rnd_int [of f] by simp
  then have "f64_round (of_int (f + 1000)) \<le> fadd (fadd now rto) RTT_PREC_US"
    unfolding fadd_def [of "fadd now rto"] by (intro f64.rnd_mono) (simp add: RTT_PREC_US_def)
  then have lo: "of_int (f + 1000) \<le> fadd (fadd now rto) RTT_PREC_US"
    using f f64.rnd_int [of "f + 1000"] by simp
  have "as_u64 (of_int (f + 1000)) \<le> due_time now rto"
    unfolding due_time_def by (rule as_u64_mono [OF lo])
  moreover have "as_u64 (of_int (f + 1000)) = nat (f + 1000)"
    using f as_u64_of_nat [of "nat (f + 1000)"] by simp
  ultimately have "f64_of_nat (nat (f + 1000)) \<le> f64_of_nat (due_time now rto)"
    using f64_of_nat_mono by simp
  moreover have "f64_of_nat (nat (f + 1000)) = of_int (f + 1000)"
    using f by (subst f64_of_nat_exact) auto
  ultimately show ?thesis unfolding f_def by linarith
qed

section \<open>Operations interleaved with arrivals\<close>

datatype scanner_event =
    Arrive nat
  | Advance
  | Scan nat real real
  | Collect real real nat

fun run_event :: "scanner_event \<Rightarrow> recv_bitmap \<times> loss_scanner \<Rightarrow>
    (nat list \<times> recv_bitmap \<times> loss_scanner) may_panic" where
  "run_event (Arrive seq) (bm, ls) = map_option (\<lambda>(fresh, bm'). ([], bm', ls)) (set_and_test bm seq)"
| "run_event Advance (bm, ls) = map_option (\<lambda>(n, ls'). ([], bm, ls')) (advance bm ls)"
| "run_event (Scan max_seen now rto) (bm, ls) =
     map_option (\<lambda>ls'. ([], bm, ls')) (scan_holes bm max_seen now rto ls)"
| "run_event (Collect now rto max_out) (bm, ls) =
     map_option (\<lambda>(out, ls'). (out, bm, ls')) (collect_due bm now rto max_out ls)"

text \<open>The requests of a sequence of events, in order.\<close>

fun run_events :: "scanner_event list \<Rightarrow> recv_bitmap \<times> loss_scanner \<Rightarrow>
    (nat list \<times> recv_bitmap \<times> loss_scanner) may_panic" where
  "run_events [] st = Some ([], st)"
| "run_events (e # es) st = do {
     (out, st') \<leftarrow> run_event e st;
     (outs, st'') \<leftarrow> run_events es st';
     Some (out @ outs, st'')
   }"

fun arrival_in_range :: "nat \<Rightarrow> scanner_event \<Rightarrow> bool" where
  "arrival_in_range tot (Arrive seq) \<longleftrightarrow> seq < tot"
| "arrival_in_range tot _ \<longleftrightarrow> True"

lemma run_event_ok:
  assumes "scanner_inv bm ls" and "arrival_in_range (ls_total ls) e"
  obtains out bm' ls' where "run_event e (bm, ls) = Some (out, bm', ls')"
    "scanner_inv bm' ls'" "ls_total ls' = ls_total ls" "bm_seqs bm \<subseteq> bm_seqs bm'"
proof (cases e)
  case (Arrive seq)
  then have "seq < bm_cap bm" using assms by (simp add: scanner_inv_def)
  then obtain bm' where "set_and_test bm seq = Some (seq \<notin> bm_seqs bm, bm')"
      "bm_seqs bm' = insert seq (bm_seqs bm)" "bm_cap bm' = bm_cap bm"
    by (rule bitmap.mark_ok)
  then show ?thesis using that [of "[]" bm' ls] Arrive assms scanner_inv_mono [of bm ls bm'] by auto
next
  case Advance
  then show ?thesis using that advance_loop_inv [OF assms(1)] by (auto simp: advance_def)
next
  case (Scan max_seen now rto)
  show ?thesis
  proof (cases "ls_total ls = 0")
    case True
    then show ?thesis using that [of "[]" bm ls] Scan assms by (simp add: scan_holes_def)
  next
    case False
    then obtain ls' where "scan_holes bm max_seen now rto ls = Some ls'" "scanner_inv bm ls'"
        "ls_total ls' = ls_total ls"
      using scan_holes_ok [OF assms(1) _ refl, of max_seen now rto] by (auto simp: scanned_def)
    then show ?thesis using that [of "[]" bm ls'] Scan by simp
  qed
next
  case (Collect now rto max_out)
  obtain out ls' where "collect_due bm now rto max_out ls = Some (out, ls')"
      "collected bm now (due_time now rto) ls out ls'" "scanner_inv bm ls'"
    using collect_due_ok [OF assms(1), of now rto max_out] by blast
  then show ?thesis using that [of out bm ls'] Collect by (simp add: collected_def)
qed

lemma run_events_ok:
  "scanner_inv bm ls \<Longrightarrow> list_all (arrival_in_range (ls_total ls)) es \<Longrightarrow>
     \<exists>outs bm' ls'. run_events es (bm, ls) = Some (outs, bm', ls') \<and> scanner_inv bm' ls' \<and>
       ls_total ls' = ls_total ls \<and> bm_seqs bm \<subseteq> bm_seqs bm'"
proof (induction es arbitrary: bm ls)
  case (Cons e es)
  then have "arrival_in_range (ls_total ls) e" by simp
  with Cons.prems(1) obtain out bm1 ls1 where 1: "run_event e (bm, ls) = Some (out, bm1, ls1)"
      "scanner_inv bm1 ls1" "ls_total ls1 = ls_total ls" "bm_seqs bm \<subseteq> bm_seqs bm1"
    by (rule run_event_ok)
  then show ?case using Cons.IH [of bm1 ls1] Cons.prems(2) by auto
qed simp

text \<open>Block \<open>s\<close> has been scanned and is not scheduled before \<open>D\<close>.\<close>

definition held_until :: "nat \<Rightarrow> nat \<Rightarrow> loss_scanner \<Rightarrow> bool" where
  "held_until D s ls \<longleftrightarrow> s < next_scan ls \<and> (\<forall>i \<in> set (ls_heap ls). hi_seq i = s \<longrightarrow> D \<le> hi_due i)"

fun collects_before :: "real \<Rightarrow> scanner_event \<Rightarrow> bool" where
  "collects_before t (Collect now rto max_out) \<longleftrightarrow> now < t"
| "collects_before t _ \<longleftrightarrow> True"

lemma collected_held:
  assumes "collected bm now re_due ls out ls'" and "held_until D s ls" and "now < f64_of_nat D"
  shows "held_until D s ls' \<and> s \<notin> set out"
proof -
  have "s \<notin> set out"
  proof
    assume "s \<in> set out"
    then obtain i where i: "i \<in> set (ls_heap ls)" "hi_seq i = s" "f64_of_nat (hi_due i) \<le> now"
      using assms(1) by (auto simp: collected_def)
    then have "f64_of_nat D \<le> f64_of_nat (hi_due i)"
      using assms(2) by (auto simp: held_until_def intro: f64_of_nat_mono)
    then show False using i assms(3) by simp
  qed
  moreover have "held_until D s ls'"
    using assms(1,2) calculation unfolding held_until_def collected_def by fastforce
  ultimately show ?thesis by blast
qed

lemma run_event_held:
  assumes "scanner_inv bm ls" and "held_until D s ls" and "collects_before (f64_of_nat D) e"
    and "run_event e (bm, ls) = Some (out, bm', ls')"
  shows "held_until D s ls' \<and> s \<notin> set out"
proof (cases e)
  case (Arrive seq)
  then show ?thesis using assms by auto
next
  case Advance
  then show ?thesis using assms advance_loop_inv [OF assms(1)] by (auto simp: advance_def held_until_def)
next
  case (Scan max_seen now rto)
  show ?thesis
  proof (cases "ls_total ls = 0")
    case True
    then show ?thesis using assms Scan by (simp add: scan_holes_def)
  next
    case False
    then obtain ls1 where "scan_holes bm max_seen now rto ls = Some ls1"
        "scanned bm (due_time now rto) (min max_seen (ls_total ls - 1)) ls ls1"
      using scan_holes_ok [OF assms(1) _ refl, of max_seen now rto] by blast
    then show ?thesis using assms(2,4) Scan by (auto simp: held_until_def scanned_def)
  qed
next
  case (Collect now rto max_out)
  obtain out1 ls1 where "collect_due bm now rto max_out ls = Some (out1, ls1)"
      "collected bm now (due_time now rto) ls out1 ls1"
    using collect_due_ok [OF assms(1), of now rto max_out] by blast
  then show ?thesis using collected_held [of bm now _ ls out1 ls1 D s] assms(2-4) Collect by auto
qed

lemma run_events_held:
  "scanner_inv bm ls \<Longrightarrow> held_until D s ls \<Longrightarrow> list_all (arrival_in_range (ls_total ls)) es \<Longrightarrow>
   list_all (collects_before (f64_of_nat D)) es \<Longrightarrow> run_events es (bm, ls) = Some (outs, st) \<Longrightarrow>
     s \<notin> set outs"
proof (induction es arbitrary: bm ls outs)
  case (Cons e es)
  then have "arrival_in_range (ls_total ls) e" by simp
  with Cons.prems(1) obtain out bm1 ls1 where 1: "run_event e (bm, ls) = Some (out, bm1, ls1)"
      "scanner_inv bm1 ls1" "ls_total ls1 = ls_total ls"
    by (rule run_event_ok)
  with Cons.prems run_event_held [OF Cons.prems(1,2) _ 1(1)]
  have held: "held_until D s ls1" "s \<notin> set out" by auto
  obtain outs1 where "run_events es (bm1, ls1) = Some (outs1, st)" "outs = out @ outs1"
    using Cons.prems(5) 1(1) by (auto simp: bind_eq_Some_conv)
  then show ?case using Cons.IH [OF 1(2) held(1)] Cons.prems(3,4) 1(3) held(2) by auto
qed simp

section \<open>Properties\<close>

lemma distinct_heap_seqsD:
  "queue_ok ls \<Longrightarrow> i \<in> set (ls_heap ls) \<Longrightarrow> j \<in> set (ls_heap ls) \<Longrightarrow> hi_seq i = hi_seq j \<Longrightarrow> i = j"
  by (auto simp: queue_ok_def heap_seqs_def distinct_map inj_on_def)

lemma due_time_future:
  assumes "0 \<le> now" and "0 \<le> rto" and "now + rto \<le> 2 ^ 52" and "t \<le> now + rto"
  shows "t < f64_of_nat (due_time now rto)"
  using due_time_ge [OF assms(1-3)] assms(4) by linarith

lemma collects_before_mono:
  "list_all (collects_before t) es \<Longrightarrow> t \<le> t' \<Longrightarrow> list_all (collects_before t') es"
  by (erule list.pred_mono_strong, rename_tac e, case_tac e) auto

text \<open>Property C25: from an empty transfer of \<open>tot\<close> blocks, no interleaving of arrivals,
  \<open>advance\<close>, \<open>scan_holes\<close> and \<open>collect_due\<close> panics, and afterwards every block the
  scanner has passed has either arrived or is scheduled for a request, by exactly one heap
  entry; a scanner that reports completion has every block.\<close>

theorem scanner_never_forgets:
  assumes "list_all (arrival_in_range tot) es"
  shows "\<exists>outs bm ls. run_events es (recv_bitmap_new tot, loss_scanner_new tot) = Some (outs, bm, ls) \<and>
           (\<forall>s. s < next_scan ls \<and> s \<notin> bm_seqs bm \<longrightarrow> (\<exists>!i. i \<in> set (ls_heap ls) \<and> hi_seq i = s)) \<and>
           {..<hi_contig ls} \<subseteq> bm_seqs bm \<and> (completed ls \<longrightarrow> {..<tot} \<subseteq> bm_seqs bm)"
proof -
  have "ls_total (loss_scanner_new tot) = tot" by (simp add: loss_scanner_new_def)
  then obtain outs bm ls where run: "run_events es (recv_bitmap_new tot, loss_scanner_new tot) = Some (outs, bm, ls)"
    and inv: "scanner_inv bm ls" and tot: "ls_total ls = tot"
    using run_events_ok [OF scanner_inv_new [of tot], of es] assms by auto
  have "\<exists>!i. i \<in> set (ls_heap ls) \<and> hi_seq i = s" if s: "s < next_scan ls" "s \<notin> bm_seqs bm" for s
  proof -
    have "s \<in> set (heap_seqs ls)" using inv s by (auto simp: scanner_inv_def queue_ok_def)
    then obtain i where "i \<in> set (ls_heap ls)" "hi_seq i = s" by (auto simp: heap_seqs_def)
    then show ?thesis using distinct_heap_seqsD [of ls] inv by (auto simp: scanner_inv_def)
  qed
  then show ?thesis
    using run inv tot by (fastforce simp: completed_def scanner_inv_def)
qed

theorem scanner_never_forgets_witness:
  "\<exists>outs bm ls. run_events [Arrive 0, Arrive 2, Scan 2 0 2000, Advance, Collect 5000 2000 90]
       (recv_bitmap_new 3, loss_scanner_new 3) = Some (outs, bm, ls) \<and>
     (\<forall>s. s < next_scan ls \<and> s \<notin> bm_seqs bm \<longrightarrow> (\<exists>!i. i \<in> set (ls_heap ls) \<and> hi_seq i = s)) \<and>
     {..<hi_contig ls} \<subseteq> bm_seqs bm \<and> (completed ls \<longrightarrow> {..<3} \<subseteq> bm_seqs bm)"
  by (rule scanner_never_forgets) simp

text \<open>\<open>collect_due\<close> returns distinct blocks, at most \<open>max\<close> of them, each of
  them not received and due; and when it returns fewer than \<open>max\<close> it has returned every
  scanned block that is due and has not been received.\<close>

theorem collect_due_exact:
  assumes "scanner_inv bm ls" and "0 \<le> now" and "0 \<le> rto" and "now + rto \<le> 2 ^ 52"
  shows "\<exists>out ls'. collect_due bm now rto max_out ls = Some (out, ls') \<and> scanner_inv bm ls' \<and>
           distinct out \<and> length out \<le> max_out \<and>
           (\<forall>s \<in> set out. s \<notin> bm_seqs bm \<and> (\<exists>i \<in> set (ls_heap ls). hi_seq i = s \<and> f64_of_nat (hi_due i) \<le> now)) \<and>
           (length out < max_out \<longrightarrow>
              (\<forall>i \<in> set (ls_heap ls). f64_of_nat (hi_due i) \<le> now \<and> hi_seq i \<notin> bm_seqs bm \<longrightarrow> hi_seq i \<in> set out))"
proof -
  obtain out ls' where c: "collect_due bm now rto max_out ls = Some (out, ls')"
      "collected bm now (due_time now rto) ls out ls'" "scanner_inv bm ls'" "length out \<le> max_out"
    and rest: "length out < max_out \<longrightarrow> (\<forall>i \<in> set (ls_heap ls'). now < f64_of_nat (hi_due i))"
    using collect_due_ok [OF assms(1), of now rto max_out] by blast
  have "hi_seq i \<in> set out" if "length out < max_out" and i: "i \<in> set (ls_heap ls)"
    "f64_of_nat (hi_due i) \<le> now" "hi_seq i \<notin> bm_seqs bm" for i
  proof -
    have "hi_seq i < next_scan ls" using i(1) assms(1) by (auto simp: scanner_inv_def heap_seqs_def)
    then have "hi_seq i \<in> pending ls'"
      using i(3) c(2,3) by (auto simp: scanner_inv_def collected_def)
    moreover have "pending ls' \<subseteq> hi_seq ` set (ls_heap ls')"
      using c(3) by (simp add: scanner_inv_def queue_ok_def heap_seqs_def)
    ultimately obtain j where j: "j \<in> set (ls_heap ls')" "hi_seq i = hi_seq j" by blast
    have "j \<notin> set (ls_heap ls)"
    proof
      assume "j \<in> set (ls_heap ls)"
      then have "i = j" using distinct_heap_seqsD [OF _ i(1) _ j(2)] assms(1) by (simp add: scanner_inv_def)
      then show False using i(2) j(1) rest that(1) by fastforce
    qed
    then have "j \<in> HeapItem (due_time now rto) ` set out" using j(1) c(2) unfolding collected_def by blast
    then show ?thesis using j(2) by auto
  qed
  moreover have "distinct out"
    using c(2) due_time_future [OF assms(2-4), of now] assms(3) by (simp add: collected_def)
  ultimately show ?thesis using c unfolding collected_def by blast
qed

text \<open>A transfer of three blocks of which block 1 is missing and due at 3000.\<close>

definition sample_bitmap :: recv_bitmap where
  "sample_bitmap = \<lparr>bm_words = [5], bm_total = 3\<rparr>"

definition sample_scanner :: loss_scanner where
  "sample_scanner = \<lparr>ls_total = 3, hi_contig = 1, next_scan = 3, pending = {1}, ls_heap = [HeapItem 3000 1]\<rparr>"

lemma sample_seqs: "0 \<in> bm_seqs sample_bitmap" "1 \<notin> bm_seqs sample_bitmap" "2 \<in> bm_seqs sample_bitmap"
  by (simp_all add: bm_seqs_def sample_bitmap_def)

lemma sample_inv: "scanner_inv sample_bitmap sample_scanner"
proof -
  have "{..<3} - bm_seqs sample_bitmap \<subseteq> {1}"
    using sample_seqs by (auto simp: numeral_eq_Suc less_Suc_eq)
  then show ?thesis
    using sample_seqs
    by (auto simp: scanner_inv_def queue_ok_def heap_seqs_def bm_cap_def sample_bitmap_def sample_scanner_def)
qed

theorem collect_due_exact_witness:
  "\<exists>out ls'. collect_due sample_bitmap 5000 2000 90 sample_scanner = Some (out, ls') \<and>
     scanner_inv sample_bitmap ls' \<and> distinct out \<and> out = [1]"
proof -
  have "(0::real) \<le> 5000" "(0::real) \<le> 2000" "(5000::real) + 2000 \<le> 2 ^ 52" by simp_all
  from collect_due_exact [OF sample_inv this, of 90]
  obtain out ls' where c: "collect_due sample_bitmap 5000 2000 90 sample_scanner = Some (out, ls')"
      "scanner_inv sample_bitmap ls'" "distinct out" "length out \<le> 90"
      "\<forall>s \<in> set out. \<exists>i \<in> set (ls_heap sample_scanner). hi_seq i = s"
      "length out < 90 \<longrightarrow> (\<forall>i \<in> set (ls_heap sample_scanner). f64_of_nat (hi_due i) \<le> 5000 \<and>
         hi_seq i \<notin> bm_seqs sample_bitmap \<longrightarrow> hi_seq i \<in> set out)"
    by blast
  have sub: "set out \<subseteq> {1}" using c(5) by (auto simp: sample_scanner_def)
  then have "length out \<le> 1" using c(3) card_mono [OF _ sub] by (simp add: distinct_card)
  moreover have "1 \<in> set out"
    using c(6) calculation sample_seqs(2) by (simp add: sample_scanner_def f64_of_nat_exact)
  ultimately have "out = [1]" by (cases out) auto
  then show ?thesis using c by blast
qed

text \<open>Once \<open>collect_due\<close> has requested a block at time \<open>now\<close> with timeout
  \<open>rto\<close>, no later operation requests it again at a time before \<open>now + rto\<close>, whatever
  arrivals, scans and collections happen in between.\<close>

theorem rerequest_waits_one_rto:
  assumes "scanner_inv bm ls" and "0 \<le> now" and "0 \<le> rto" and "now + rto \<le> 2 ^ 52"
    and "collect_due bm now rto max_out ls = Some (out, ls')" and "s \<in> set out"
    and "list_all (arrival_in_range (ls_total ls)) es" and "list_all (collects_before (now + rto)) es"
    and "run_events es (bm, ls') = Some (outs, st)"
  shows "s \<notin> set outs"
proof -
  have c: "collected bm now (due_time now rto) ls out ls'" and inv: "scanner_inv bm ls'"
    using collect_due_ok [OF assms(1), of now rto max_out] assms(5) by auto
  have "held_until (due_time now rto) s ls'"
    unfolding held_until_def
  proof (intro conjI ballI impI)
    have s: "s \<in> pending ls'" using c assms(6) by (auto simp: collected_def)
    then show "s < next_scan ls'" using inv by (auto simp: scanner_inv_def queue_ok_def)
    fix i assume i: "i \<in> set (ls_heap ls')" "hi_seq i = s"
    then show "due_time now rto \<le> hi_due i" using c assms(6) by (auto simp: collected_def)
  qed
  moreover have "list_all (collects_before (f64_of_nat (due_time now rto))) es"
    using collects_before_mono [OF assms(8)] due_time_future [OF assms(2-4), of "now + rto"] by simp
  moreover have "ls_total ls' = ls_total ls" using c by (simp add: collected_def)
  ultimately show ?thesis
    using run_events_held [OF inv, of "due_time now rto" s es outs st] assms(7,9) by simp
qed

lemma due_time_numeral: "due_time 0 2000 = 3000" "due_time 5000 2000 = 8000"
  by (simp_all add: due_time_def fadd_def RTT_PREC_US_def f64.rnd_numeral as_u64_def)

lemma sample_is_set: "is_set sample_bitmap 0 = Some True" "is_set sample_bitmap 1 = Some False"
    "is_set sample_bitmap 2 = Some True"
  using sample_seqs by (simp_all add: is_set_eq bm_cap_def sample_bitmap_def)

lemma sample_collect:
  "collect_due sample_bitmap 5000 2000 90 sample_scanner = Some ([1], sample_scanner\<lparr>ls_heap := [HeapItem 8000 1]\<rparr>)"
  "collect_due sample_bitmap 6000 2000 90 (sample_scanner\<lparr>ls_heap := [HeapItem 8000 1]\<rparr>) =
     Some ([], sample_scanner\<lparr>ls_heap := [HeapItem 8000 1]\<rparr>)"
  using sample_is_set(2)
  by (simp_all add: collect_due_def due_time_numeral collect_loop.simps sample_scanner_def
      f64_of_nat_exact heap_push_def)

theorem rerequest_waits_one_rto_witness:
  "1 \<in> set (fst (the (collect_due sample_bitmap 5000 2000 90 sample_scanner))) \<and>
   1 \<notin> set (fst (the (run_events [Arrive 2, Collect 6000 2000 90]
     (sample_bitmap, snd (the (collect_due sample_bitmap 5000 2000 90 sample_scanner))))))"
proof -
  obtain bm' where a: "set_and_test sample_bitmap 2 = Some (False, bm')"
    using bitmap.mark_ok [of 2 sample_bitmap] sample_seqs(3)
    by (auto simp: bm_cap_def sample_bitmap_def)
  have r: "run_events [Arrive 2, Collect 6000 2000 90]
      (sample_bitmap, sample_scanner\<lparr>ls_heap := [HeapItem 8000 1]\<rparr>) =
        Some ([], bm', sample_scanner\<lparr>ls_heap := [HeapItem 8000 1]\<rparr>)"
    using a by (simp add: collect_due_def collect_loop.simps sample_scanner_def f64_of_nat_exact)
  have "1 \<notin> set ([] :: nat list)"
    by (rule rerequest_waits_one_rto [OF sample_inv _ _ _ sample_collect(1) _ _ _ r])
      (simp_all add: sample_scanner_def)
  then show ?thesis using r by (simp add: sample_collect)
qed

text \<open>A block found missing by a scan at time \<open>now\<close> with timeout \<open>rto\<close> is
  not requested before \<open>now + rto\<close>: it has been missing for one RTO when the first request
  goes out.\<close>

theorem first_request_waits_one_rto:
  assumes "scanner_inv bm ls" and "0 \<le> now" and "0 \<le> rto" and "now + rto \<le> 2 ^ 52"
    and "scan_holes bm max_seen now rto ls = Some ls'" and "s \<in> pending ls' - pending ls"
    and "list_all (arrival_in_range (ls_total ls)) es" and "list_all (collects_before (now + rto)) es"
    and "run_events es (bm, ls') = Some (outs, st)"
  shows "s \<notin> set outs"
proof -
  have "0 < ls_total ls" using assms(5,6) by (auto simp: scan_holes_def split: if_splits)
  then have inv: "scanner_inv bm ls'" and
    c: "scanned bm (due_time now rto) (min max_seen (ls_total ls - 1)) ls ls'"
    using scan_holes_ok [OF assms(1) _ refl, of max_seen now rto] assms(5) by auto
  then have "next_scan ls \<le> s" "s < next_scan ls'"
    using assms(6) by (auto simp: scanned_def)
  moreover have "hi_seq i < next_scan ls" if "i \<in> set (ls_heap ls)" for i
    using assms(1) that by (auto simp: scanner_inv_def heap_seqs_def)
  ultimately have "held_until (due_time now rto) s ls'"
    using c by (fastforce simp: held_until_def scanned_def)
  moreover have "list_all (collects_before (f64_of_nat (due_time now rto))) es"
    using collects_before_mono [OF assms(8)] due_time_future [OF assms(2-4), of "now + rto"] by simp
  moreover have "ls_total ls' = ls_total ls" using c by (simp add: scanned_def)
  ultimately show ?thesis
    using run_events_held [OF inv, of "due_time now rto" s es outs st] assms(7,9) by simp
qed

definition sample_unscanned :: loss_scanner where
  "sample_unscanned = \<lparr>ls_total = 3, hi_contig = 1, next_scan = 0, pending = {}, ls_heap = []\<rparr>"

lemma sample_unscanned_inv: "scanner_inv sample_bitmap sample_unscanned"
  using sample_seqs
  by (auto simp: scanner_inv_def queue_ok_def heap_seqs_def bm_cap_def sample_bitmap_def sample_unscanned_def)

lemma sample_scan: "scan_holes sample_bitmap 2 0 2000 sample_unscanned = Some sample_scanner"
proof -
  have "is_set sample_bitmap (Suc 0) = Some False" "is_set sample_bitmap (Suc (Suc 0)) = Some True"
    using sample_is_set by (simp_all add: numeral_eq_Suc)
  then show ?thesis
    using sample_is_set(1)
    by (simp add: scan_holes_def due_time_numeral scan_loop.simps sample_unscanned_def sample_scanner_def
        heap_push_def numeral_eq_Suc)
qed

theorem first_request_waits_one_rto_witness:
  "1 \<in> pending (the (scan_holes sample_bitmap 2 0 2000 sample_unscanned)) \<and>
   1 \<notin> set (fst (the (run_events [Collect 1000 2000 90]
     (sample_bitmap, the (scan_holes sample_bitmap 2 0 2000 sample_unscanned)))))"
proof -
  have r: "run_events [Collect 1000 2000 90] (sample_bitmap, sample_scanner) = Some ([], sample_bitmap, sample_scanner)"
    by (simp add: collect_due_def collect_loop.simps sample_scanner_def f64_of_nat_exact)
  have "1 \<notin> set ([] :: nat list)"
    by (rule first_request_waits_one_rto [OF sample_unscanned_inv _ _ _ sample_scan _ _ _ r])
      (simp_all add: sample_scanner_def sample_unscanned_def)
  then show ?thesis using r by (simp add: sample_scan sample_scanner_def)
qed

text \<open>\<open>advance\<close> does not panic and returns the length of the longest prefix of
  the blocks that has arrived; the scanner is then completed exactly when every block has
  arrived.\<close>

theorem advance_longest_prefix:
  assumes "scanner_inv bm ls"
  shows "\<exists>n ls'. advance bm ls = Some (n, ls') \<and> scanner_inv bm ls' \<and> n = hi_contig ls' \<and>
           n \<le> ls_total ls \<and> {..<n} \<subseteq> bm_seqs bm \<and> (n < ls_total ls \<longrightarrow> n \<notin> bm_seqs bm) \<and>
           (completed ls' \<longleftrightarrow> {..<ls_total ls} \<subseteq> bm_seqs bm)"
proof -
  obtain ls' where ls': "advance_loop bm ls = Some ls'" "scanner_inv bm ls'" "ls_total ls' = ls_total ls"
      "hi_contig ls' < ls_total ls \<longrightarrow> hi_contig ls' \<notin> bm_seqs bm"
    using advance_loop_inv [OF assms] by blast
  moreover have "completed ls' \<longleftrightarrow> {..<ls_total ls} \<subseteq> bm_seqs bm"
  proof
    assume "{..<ls_total ls} \<subseteq> bm_seqs bm"
    then have "\<not> hi_contig ls' < ls_total ls" using ls'(4) by blast
    moreover have "hi_contig ls' \<le> ls_total ls'" using ls'(2) by (simp add: scanner_inv_def)
    ultimately show "completed ls'" using ls'(3) by (simp add: completed_def)
  qed (use ls'(2,3) in \<open>simp add: completed_def scanner_inv_def\<close>)
  moreover have "hi_contig ls' \<le> ls_total ls" "{..<hi_contig ls'} \<subseteq> bm_seqs bm"
    using ls'(2,3) by (simp_all add: scanner_inv_def)
  ultimately show ?thesis by (simp add: advance_def)
qed

theorem advance_longest_prefix_witness:
  "\<exists>n ls'. advance sample_bitmap sample_scanner = Some (n, ls') \<and> n = 1 \<and> \<not> completed ls'"
proof -
  obtain n ls' where "advance sample_bitmap sample_scanner = Some (n, ls')" "{..<n} \<subseteq> bm_seqs sample_bitmap"
      "n < 3 \<longrightarrow> n \<notin> bm_seqs sample_bitmap" "completed ls' \<longleftrightarrow> {..<3} \<subseteq> bm_seqs sample_bitmap"
    using advance_longest_prefix [OF sample_inv] by (auto simp: sample_scanner_def)
  moreover have "\<not> 1 < n" using calculation(2) sample_seqs(2) by auto
  moreover have "n \<noteq> 0" using calculation(3) sample_seqs(1) by (cases n) auto
  moreover have "\<not> {..<3} \<subseteq> bm_seqs sample_bitmap" using sample_seqs(2) by force
  ultimately show ?thesis by auto
qed

text \<open>Over any sequence of arrivals, duplicates included, \<open>set_and_test\<close>
  reports "first time" exactly once per block, and the bitmap ends up with exactly the
  blocks that arrived.\<close>

theorem first_arrivals_counted_once:
  assumes "\<forall>s \<in> set arrivals. s < tot"
  shows "\<exists>bm. mark_all set_and_test (recv_bitmap_new tot) arrivals = Some (card (set arrivals), bm) \<and>
              bm_seqs bm = set arrivals"
proof -
  have "\<forall>s \<in> set arrivals. s < bm_cap (recv_bitmap_new tot)"
    using assms recv_bitmap_new_cap [of tot] by fastforce
  then show ?thesis using bitmap.mark_all_ok by fastforce
qed

theorem first_arrivals_counted_once_witness:
  "\<exists>bm. mark_all set_and_test (recv_bitmap_new 100) [70, 3, 70] = Some (2, bm) \<and> bm_seqs bm = {70, 3}"
proof -
  have "set [70, 3, 70] = {70, 3 :: nat}" "card {70, 3 :: nat} = 2" by auto
  then show ?thesis using first_arrivals_counted_once [of "[70, 3, 70]" 100]
    by (simp del: mark_all.simps add: numeral_2_eq_2)
qed

lemma bitmap_eqI:
  assumes "length (bm_words b) = length (bm_words b')" and "bm_total b = bm_total b'"
    and "bm_seqs b = bm_seqs b'"
  shows "b = (b' :: recv_bitmap)"
proof -
  have "bm_words b = bm_words b'"
  proof (rule nth_equalityI [OF assms(1)])
    fix k assume k: "k < length (bm_words b)"
    show "bm_words b ! k = bm_words b' ! k"
    proof (rule bit_eqI)
      fix n :: nat assume "possible_bit TYPE(u64) n"
      then have n: "n < 64" by simp
      have "64 * k + n \<in> bm_seqs b \<longleftrightarrow> 64 * k + n \<in> bm_seqs b'" using assms(3) by simp
      then show "bit (bm_words b ! k) n \<longleftrightarrow> bit (bm_words b' ! k) n"
        using k n assms(1) by (simp add: bm_seqs_def)
    qed
  qed
  then show ?thesis using assms(2) by simp
qed

lemma mark_all_shape:
  "mark_all set_and_test bm ss = Some (n, bm') \<Longrightarrow>
     length (bm_words bm') = length (bm_words bm) \<and> bm_total bm' = bm_total bm"
  by (induction ss arbitrary: bm n) (auto simp: set_and_test_def bind_eq_Some_conv)

text \<open>The bitmap does not depend on the order in which the arrivals are
  marked: two sequences with the same blocks leave identical words and the same count.\<close>

theorem arrival_order_irrelevant:
  assumes "\<forall>s \<in> set xs. s < bm_cap bm" and "set xs = set ys"
  shows "mark_all set_and_test bm xs = mark_all set_and_test bm ys"
proof -
  obtain b b' where b: "mark_all set_and_test bm xs = Some (card (set xs - bm_seqs bm), b)"
      "bm_seqs b = bm_seqs bm \<union> set xs"
    and b': "mark_all set_and_test bm ys = Some (card (set ys - bm_seqs bm), b')"
      "bm_seqs b' = bm_seqs bm \<union> set ys"
    using bitmap.mark_all_ok [of xs bm] bitmap.mark_all_ok [of ys bm] assms by metis
  then have "b = b'"
    using mark_all_shape [OF b(1)] mark_all_shape [OF b'(1)] assms(2) by (intro bitmap_eqI) auto
  then show ?thesis using b b' assms(2) by simp
qed

theorem arrival_order_irrelevant_witness:
  "mark_all set_and_test (recv_bitmap_new 100) [70, 3, 70] = mark_all set_and_test (recv_bitmap_new 100) [3, 70]"
  by (rule arrival_order_irrelevant) (auto simp: bm_cap_def recv_bitmap_new_def)

end
