(* ===== verification/Block_IO.thy ===== *)
theory Block_IO
  imports Prelude
begin

text \<open>
  \<open>src/src/io.rs\<close> and the positional file access of \<open>src/src/sys/mod.rs\<close>: sources and sinks
  of bytes with reads and writes at arbitrary offsets.

  The locales \<open>block_source\<close> and \<open>block_sink\<close> are the traits \<open>BlockSource\<close> and
  \<open>BlockSink\<close>; they are interpreted on the memory and the file implementations. A file is
  its contents (\<open>byte list\<close>); device errors are not modelled here, they enter where the
  receiver handles them. The CRC of the \<open>crc32c\<close> crate is a parameter of which only the
  documented incremental law is used (\<open>crc_incremental\<close>). A buffer that a call fills is
  given by its length and returned. An \<open>io::Error\<close> is its kind (\<open>NoSuchFile\<close> is
  \<open>ErrorKind::NotFound\<close>).
\<close>

datatype io_error =
    UnexpectedEof | WriteZero | Interrupted | TimedOut | WouldBlock | NoSuchFile | ConnectionReset
  | InvalidInput | AddrNotAvailable | OtherIO

type_synonym 'a io = "io_error + 'a"

section \<open>Overwriting a range\<close>

definition overwrite :: "'a list \<Rightarrow> nat \<Rightarrow> 'a list \<Rightarrow> 'a list" where
  "overwrite xs off bs = take off xs @ bs @ drop (off + length bs) xs"

lemma length_overwrite [simp]: "off + length bs \<le> length xs \<Longrightarrow> length (overwrite xs off bs) = length xs"
  by (simp add: overwrite_def)

lemma nth_overwrite:
  assumes "off + length bs \<le> length xs" and "i < length xs"
  shows "overwrite xs off bs ! i = (if off \<le> i \<and> i < off + length bs then bs ! (i - off) else xs ! i)"
  using assms by (auto simp: overwrite_def nth_append min_def)

text \<open>\<open>Vec::resize(n, 0)\<close> and \<open>File::set_len\<close>.\<close>

definition resize :: "byte list \<Rightarrow> nat \<Rightarrow> byte list" where
  "resize b n = take n b @ replicate (n - length b) 0"

lemma length_resize [simp]: "length (resize b n) = n"
  by (simp add: resize_def)

section \<open>Checksums of a whole source\<close>

text \<open>What is documented of \<open>crc32c_append\<close>.\<close>

definition crc_incremental :: "(u32 \<Rightarrow> byte list \<Rightarrow> u32) \<Rightarrow> bool" where
  "crc_incremental crc \<longleftrightarrow> (\<forall>c. crc c [] = c) \<and> (\<forall>c xs ys. crc (crc c xs) ys = crc c (xs @ ys))"

text \<open>The loop of \<open>source_crc32c\<close> and of \<open>FileSink::read_crc32c\<close>: reads of at most
  \<open>1 << 20\<close> bytes.\<close>

function crc_loop ::
  "(nat \<Rightarrow> nat \<Rightarrow> byte list io) \<Rightarrow> (u32 \<Rightarrow> byte list \<Rightarrow> u32) \<Rightarrow> nat \<Rightarrow> nat \<Rightarrow> u32 \<Rightarrow> u32 io"
where
  "crc_loop read crc tot off acc =
     (if off < tot then
        let n = min (tot - off) (2 ^ 20)
        in case read off n of
             Inl e \<Rightarrow> Inl e
           | Inr buf \<Rightarrow> crc_loop read crc tot (off + n) (crc acc buf)
      else Inr acc)"
  by auto
termination
  by (relation "measure (\<lambda>(read, crc, tot, off, acc). tot - off)") auto

declare crc_loop.simps [simp del]

definition source_crc32c ::
  "('s \<Rightarrow> nat) \<Rightarrow> ('s \<Rightarrow> nat \<Rightarrow> nat \<Rightarrow> byte list io) \<Rightarrow> (u32 \<Rightarrow> byte list \<Rightarrow> u32) \<Rightarrow> 's \<Rightarrow> u32 io"
where
  "source_crc32c len read crc src = crc_loop (read src) crc (len src) 0 0"

lemma crc_loop_ok:
  assumes "crc_incremental crc"
    and "\<And>off n. off + n \<le> length data \<Longrightarrow> read off n = Inr (take n (drop off data))"
    and "off \<le> length data"
  shows "crc_loop read crc (length data) off acc = Inr (crc acc (drop off data))"
  using assms
proof (induction "length data - off" arbitrary: off acc rule: less_induct)
  case less
  show ?case
  proof (cases "off < length data")
    case False
    then show ?thesis
      using less.prems by (subst crc_loop.simps) (simp add: crc_incremental_def)
  next
    case True
    define n where "n = min (length data - off) (2 ^ 20)"
    have n: "0 < n" "off + n \<le> length data" using True by (auto simp: n_def)
    have "crc_loop read crc (length data) off acc =
        crc_loop read crc (length data) (off + n) (crc acc (take n (drop off data)))"
      using True less.prems(2) [OF n(2)]
      by (subst crc_loop.simps) (simp only: Let_def n_def [symmetric] if_True sum.case)
    also have "\<dots> = Inr (crc (crc acc (take n (drop off data))) (drop (off + n) data))"
      using n True by (intro less.hyps less.prems) auto
    also have "\<dots> = Inr (crc acc (take n (drop off data) @ drop n (drop off data)))"
      using less.prems(1) by (simp add: crc_incremental_def add.commute)
    finally show ?thesis by (simp only: append_take_drop_id)
  qed
qed

section \<open>The traits\<close>

locale block_source =
  fixes len :: "'s \<Rightarrow> nat"
    and read_exact_at :: "'s \<Rightarrow> nat \<Rightarrow> nat \<Rightarrow> byte list io"
    and bytes :: "'s \<Rightarrow> byte list"
    and ok :: "'s \<Rightarrow> bool"
  assumes len_bytes: "ok s \<Longrightarrow> len s = length (bytes s)"
    and read_in_range: "ok s \<Longrightarrow> off + n \<le> length (bytes s) \<Longrightarrow>
          read_exact_at s off n = Inr (take n (drop off (bytes s)))"
    and read_past_end: "ok s \<Longrightarrow> length (bytes s) < off + n \<Longrightarrow> \<exists>e. read_exact_at s off n = Inl e"
begin

lemma source_crc_whole:
  assumes "crc_incremental crc" and "ok s"
  shows "source_crc32c len read_exact_at crc s = Inr (crc 0 (bytes s))"
  using crc_loop_ok [OF assms(1), of "bytes s" "read_exact_at s" 0 0] assms(2)
  by (simp add: source_crc32c_def len_bytes read_in_range)

end

text \<open>Block \<open>seq\<close> of a file cut into blocks of \<open>bs\<close> bytes, and a sequence of positional
  writes.\<close>

definition block_of :: "byte list \<Rightarrow> nat \<Rightarrow> nat \<Rightarrow> byte list" where
  "block_of data bs seq = take bs (drop (seq * bs) data)"

fun write_ranges :: "('k \<Rightarrow> nat \<Rightarrow> byte list \<Rightarrow> 'k io) \<Rightarrow> 'k \<Rightarrow> (nat \<times> byte list) list \<Rightarrow> 'k io" where
  "write_ranges write k [] = Inr k"
| "write_ranges write k ((off, b) # ws) =
     (case write k off b of Inl e \<Rightarrow> Inl e | Inr k' \<Rightarrow> write_ranges write k' ws)"

lemma length_block_of: "length (block_of data bs seq) = min bs (length data - seq * bs)"
  by (simp add: block_of_def)

lemma block_of_in_range:
  assumes "seq * bs < length data"
  shows "seq * bs + length (block_of data bs seq) \<le> length data"
  using assms by (simp add: length_block_of)

lemma nth_block_of:
  assumes "i < length data" and "0 < bs"
  shows "seq * bs \<le> i \<and> i < seq * bs + length (block_of data bs seq) \<longleftrightarrow> i div bs = seq"
    and "i div bs = seq \<Longrightarrow> block_of data bs seq ! (i - seq * bs) = data ! i"
proof -
  have d: "i div bs * bs \<le> i" "i < i div bs * bs + bs"
    using dividend_less_times_div [OF assms(2), of i] by (simp_all add: mult.commute add.commute)
  show "seq * bs \<le> i \<and> i < seq * bs + length (block_of data bs seq) \<longleftrightarrow> i div bs = seq"
  proof
    assume "seq * bs \<le> i \<and> i < seq * bs + length (block_of data bs seq)"
    then show "i div bs = seq" by (intro div_nat_eqI) (auto simp: length_block_of mult.commute)
  qed (use d assms in \<open>auto simp: length_block_of\<close>)
  assume "i div bs = seq"
  then have "seq * bs \<le> i" "i - seq * bs < bs" using d by auto
  then show "block_of data bs seq ! (i - seq * bs) = data ! i"
    using assms by (simp add: block_of_def)
qed

locale block_sink =
  fixes allocate :: "'k \<Rightarrow> nat \<Rightarrow> 'k io"
    and write_all_at :: "'k \<Rightarrow> nat \<Rightarrow> byte list \<Rightarrow> 'k io"
    and read_crc :: "(u32 \<Rightarrow> byte list \<Rightarrow> u32) \<Rightarrow> 'k \<Rightarrow> u32 option io"
    and bytes :: "'k \<Rightarrow> byte list"
    and sized :: "'k \<Rightarrow> bool"
  assumes allocate_sizes: "\<exists>k'. allocate k n = Inr k' \<and> sized k' \<and> length (bytes k') = n"
    and write_overwrites: "sized k \<Longrightarrow> length (bytes k) < 2 ^ 64 \<Longrightarrow> off + length b \<le> length (bytes k) \<Longrightarrow>
          \<exists>k'. write_all_at k off b = Inr k' \<and> sized k' \<and> bytes k' = overwrite (bytes k) off b"
    and read_crc_whole: "sized k \<Longrightarrow> crc_incremental crc \<Longrightarrow> read_crc crc k = Inr (Some (crc 0 (bytes k)))"
begin

lemma write_blocks_ok:
  assumes "0 < bs" and "length data < 2 ^ 64"
  shows "sized k \<Longrightarrow> length (bytes k) = length data \<Longrightarrow> \<forall>s \<in> set seqs. s * bs < length data \<Longrightarrow>
    \<exists>k'. write_ranges write_all_at k (map (\<lambda>s. (s * bs, block_of data bs s)) seqs) = Inr k' \<and>
      sized k' \<and> length (bytes k') = length data \<and>
      (\<forall>i < length data. bytes k' ! i = (if i div bs \<in> set seqs then data ! i else bytes k ! i))"
proof (induction seqs arbitrary: k)
  case (Cons s seqs)
  have fit: "s * bs + length (block_of data bs s) \<le> length (bytes k)"
    using Cons.prems block_of_in_range [of s bs data] by simp
  obtain k1 where k1: "write_all_at k (s * bs) (block_of data bs s) = Inr k1" "sized k1"
      "bytes k1 = overwrite (bytes k) (s * bs) (block_of data bs s)"
    using write_overwrites [OF Cons.prems(1) _ fit] assms(2) Cons.prems(2) by auto
  have len1: "length (bytes k1) = length data" using k1(3) fit Cons.prems(2) by simp
  obtain k' where k': "write_ranges write_all_at k1 (map (\<lambda>s. (s * bs, block_of data bs s)) seqs) = Inr k'"
      "sized k'" "length (bytes k') = length data"
      "\<forall>i < length data. bytes k' ! i = (if i div bs \<in> set seqs then data ! i else bytes k1 ! i)"
    using Cons.IH [OF k1(2) len1] Cons.prems(3) by auto
  have "bytes k1 ! i = (if i div bs = s then data ! i else bytes k ! i)" if "i < length data" for i
    using that nth_block_of [OF that assms(1), of s] nth_overwrite [OF fit, of i] k1(3) Cons.prems(2)
    by auto
  then show ?case using k1 k' by auto
qed simp

text \<open>Writing every block once, in any order and with repetitions, reassembles the file,
  whatever was there before.\<close>

lemma scatter_reassembles:
  assumes "0 < bs" and "length data < 2 ^ 64" and "\<forall>s. s \<in> set seqs \<longleftrightarrow> s * bs < length data"
    and "allocate k (length data) = Inr k0"
  shows "\<exists>k'. write_ranges write_all_at k0 (map (\<lambda>s. (s * bs, block_of data bs s)) seqs) = Inr k' \<and>
           bytes k' = data \<and> (crc_incremental crc \<longrightarrow> read_crc crc k' = Inr (Some (crc 0 data)))"
proof -
  have k0: "sized k0" "length (bytes k0) = length data"
    using allocate_sizes [of k "length data"] assms(4) by auto
  then obtain k' where k': "write_ranges write_all_at k0 (map (\<lambda>s. (s * bs, block_of data bs s)) seqs) = Inr k'"
      "sized k'" "length (bytes k') = length data"
      "\<forall>i < length data. bytes k' ! i = (if i div bs \<in> set seqs then data ! i else bytes k0 ! i)"
    using write_blocks_ok [OF assms(1,2) k0] assms(3) by blast
  have "i div bs \<in> set seqs" if "i < length data" for i
    using that assms(1,3) by (metis div_times_less_eq_dividend order.strict_trans1)
  then have "bytes k' = data" using k' by (intro nth_equalityI) auto
  then show ?thesis using k'(1,2) read_crc_whole by auto
qed

end

section \<open>Memory-backed source and sink\<close>

type_synonym mem_source = "byte list"
type_synonym mem_sink = "byte list"

definition mem_source_new :: "byte list \<Rightarrow> mem_source" where
  "mem_source_new data = data"

definition mem_len :: "mem_source \<Rightarrow> nat" where
  "mem_len data = length data mod 2 ^ 64"

text \<open>\<open>start.checked_add(len)\<close> on \<open>usize\<close>.\<close>

definition checked_add :: "nat \<Rightarrow> nat \<Rightarrow> nat option" where
  "checked_add a b = (if a + b < 2 ^ 64 then Some (a + b) else None)"

definition mem_read_exact_at :: "mem_source \<Rightarrow> nat \<Rightarrow> nat \<Rightarrow> byte list io" where
  "mem_read_exact_at data off n =
     (case checked_add off n of
        None \<Rightarrow> Inl UnexpectedEof
      | Some stop \<Rightarrow>
          if stop > length data then Inl UnexpectedEof
          else Inr (take (stop - off) (drop off data)))"

definition mem_sink_new :: mem_sink where
  "mem_sink_new = []"

definition mem_allocate :: "mem_sink \<Rightarrow> nat \<Rightarrow> mem_sink io" where
  "mem_allocate b n = Inr (resize [] n)"

definition mem_write_all_at :: "mem_sink \<Rightarrow> nat \<Rightarrow> byte list \<Rightarrow> mem_sink io" where
  "mem_write_all_at b off src =
     (case checked_add off (length src) of
        None \<Rightarrow> Inl UnexpectedEof
      | Some stop \<Rightarrow>
          let b' = (if stop > length b then resize b stop else b)
          in Inr (overwrite b' off src))"

definition mem_read_crc32c :: "(u32 \<Rightarrow> byte list \<Rightarrow> u32) \<Rightarrow> mem_sink \<Rightarrow> u32 option io" where
  "mem_read_crc32c crc b = Inr (Some (crc 0 b))"

definition to_vec :: "mem_sink \<Rightarrow> byte list" where
  "to_vec b = b"

interpretation mem_src: block_source mem_len mem_read_exact_at "\<lambda>s. s" "\<lambda>s. length s < 2 ^ 64"
  by unfold_locales (auto simp: mem_len_def mem_read_exact_at_def checked_add_def split: option.splits)

interpretation mem_snk: block_sink mem_allocate mem_write_all_at mem_read_crc32c to_vec "\<lambda>b. True"
  by unfold_locales (auto simp: mem_read_crc32c_def mem_allocate_def mem_write_all_at_def checked_add_def to_vec_def)

section \<open>File-backed source and sink\<close>

text \<open>\<open>FileExt::read_exact_at\<close>, \<open>write_all_at\<close> and \<open>File::set_len\<close> on the contents of a
  file; a write past the end leaves a zero gap.\<close>

definition sys_read_exact_at :: "byte list \<Rightarrow> nat \<Rightarrow> nat \<Rightarrow> byte list io" where
  "sys_read_exact_at f off n = (if off + n \<le> length f then Inr (take n (drop off f)) else Inl UnexpectedEof)"

definition sys_write_all_at :: "byte list \<Rightarrow> nat \<Rightarrow> byte list \<Rightarrow> byte list io" where
  "sys_write_all_at f off bs =
     Inr (if bs = [] then f else overwrite (resize f (max (length f) (off + length bs))) off bs)"

record file_source =
  fsrc_file :: "byte list"
  fsrc_len :: nat

definition file_source_from_file :: "byte list \<Rightarrow> file_source" where
  "file_source_from_file f = \<lparr>fsrc_file = f, fsrc_len = length f\<rparr>"

definition file_read_exact_at :: "file_source \<Rightarrow> nat \<Rightarrow> nat \<Rightarrow> byte list io" where
  "file_read_exact_at src off n = sys_read_exact_at (fsrc_file src) off n"

record file_sink =
  fsnk_file :: "byte list"
  fsnk_len :: nat

definition file_sink_from_file :: "byte list \<Rightarrow> file_sink" where
  "file_sink_from_file f = \<lparr>fsnk_file = f, fsnk_len = 0\<rparr>"

text \<open>\<open>fallocate\<close> extends the file with zeros at most; \<open>set_len\<close> follows it.\<close>

definition fallocate :: "byte list \<Rightarrow> nat \<Rightarrow> byte list" where
  "fallocate f n = resize f (max (length f) n)"

definition file_allocate :: "file_sink \<Rightarrow> nat \<Rightarrow> file_sink io" where
  "file_allocate k n =
     (let f = (if sint (of_nat n :: i64) > 0 then fallocate (fsnk_file k) n else fsnk_file k)
      in Inr \<lparr>fsnk_file = resize f n, fsnk_len = n\<rparr>)"

definition file_write_all_at :: "file_sink \<Rightarrow> nat \<Rightarrow> byte list \<Rightarrow> file_sink io" where
  "file_write_all_at k off bs =
     (case sys_write_all_at (fsnk_file k) off bs of
        Inl e \<Rightarrow> Inl e
      | Inr f \<Rightarrow> Inr (k\<lparr>fsnk_file := f\<rparr>))"

definition file_read_crc32c :: "(u32 \<Rightarrow> byte list \<Rightarrow> u32) \<Rightarrow> file_sink \<Rightarrow> u32 option io" where
  "file_read_crc32c crc k =
     (case crc_loop (sys_read_exact_at (fsnk_file k)) crc (fsnk_len k) 0 0 of
        Inl e \<Rightarrow> Inl e
      | Inr c \<Rightarrow> Inr (Some c))"

lemma resize_same [simp]: "resize b (length b) = b"
  by (simp add: resize_def)

interpretation file_src: block_source fsrc_len file_read_exact_at fsrc_file "\<lambda>s. fsrc_len s = length (fsrc_file s)"
  by unfold_locales (auto simp: file_read_exact_at_def sys_read_exact_at_def)

interpretation file_snk: block_sink file_allocate file_write_all_at file_read_crc32c fsnk_file
  "\<lambda>k. fsnk_len k = length (fsnk_file k)"
proof unfold_locales
  show "\<exists>k'. file_write_all_at k off b = Inr k' \<and> fsnk_len k' = length (fsnk_file k') \<and>
      fsnk_file k' = overwrite (fsnk_file k) off b"
    if "fsnk_len k = length (fsnk_file k)" "off + length b \<le> length (fsnk_file k)" for k off b
    using that by (auto simp: file_write_all_at_def sys_write_all_at_def max_def overwrite_def)
  show "file_read_crc32c crc k = Inr (Some (crc 0 (fsnk_file k)))"
    if "fsnk_len k = length (fsnk_file k)" "crc_incremental crc" for k crc
    using that crc_loop_ok [of crc "fsnk_file k" "sys_read_exact_at (fsnk_file k)" 0 0]
    by (simp add: file_read_crc32c_def sys_read_exact_at_def)
qed (simp add: file_allocate_def)

section \<open>The Windows loops\<close>

text \<open>
  \<open>seek_read\<close> and \<open>seek_write\<close> may move fewer bytes than asked. What the operating system
  does on each call is an element of a list: an error, or the number of bytes it is
  prepared to move. A loop that has used up the list without returning gives \<^term>\<open>None\<close>.
\<close>

definition seek_read :: "io_error + nat \<Rightarrow> byte list \<Rightarrow> nat \<Rightarrow> nat \<Rightarrow> byte list io" where
  "seek_read a f off n = (case a of Inl e \<Rightarrow> Inl e | Inr k \<Rightarrow> Inr (take (min k n) (drop off f)))"

fun win_read_exact_at :: "(io_error + nat) list \<Rightarrow> byte list \<Rightarrow> nat \<Rightarrow> nat \<Rightarrow> byte list io option" where
  "win_read_exact_at os f off n =
     (if n = 0 then Some (Inr [])
      else case os of
        [] \<Rightarrow> None
      | a # os' \<Rightarrow>
          (case seek_read a f off n of
             Inr bs \<Rightarrow>
               if length bs = 0 then Some (Inl UnexpectedEof)
               else case win_read_exact_at os' f (off + length bs) (n - length bs) of
                      None \<Rightarrow> None
                    | Some (Inl e) \<Rightarrow> Some (Inl e)
                    | Some (Inr rest) \<Rightarrow> Some (Inr (bs @ rest))
           | Inl e \<Rightarrow> if e = Interrupted then win_read_exact_at os' f off n else Some (Inl e)))"

definition seek_write :: "io_error + nat \<Rightarrow> byte list \<Rightarrow> nat \<Rightarrow> byte list \<Rightarrow> (nat \<times> byte list) io" where
  "seek_write a f off bs =
     (case a of
        Inl e \<Rightarrow> Inl e
      | Inr k \<Rightarrow> let n = min k (length bs)
                 in Inr (n, if n = 0 then f
                            else overwrite (resize f (max (length f) (off + n))) off (take n bs)))"

fun win_write_all_at :: "(io_error + nat) list \<Rightarrow> byte list \<Rightarrow> nat \<Rightarrow> byte list \<Rightarrow> byte list io option" where
  "win_write_all_at os f off bs =
     (if bs = [] then Some (Inr f)
      else case os of
        [] \<Rightarrow> None
      | a # os' \<Rightarrow>
          (case seek_write a f off bs of
             Inr (n, f') \<Rightarrow>
               if n = 0 then Some (Inl WriteZero)
               else win_write_all_at os' f' (off + n) (drop n bs)
           | Inl e \<Rightarrow> if e = Interrupted then win_write_all_at os' f off bs else Some (Inl e)))"

declare win_read_exact_at.simps [simp del] win_write_all_at.simps [simp del]

lemma win_read_simps:
  "win_read_exact_at os f off 0 = Some (Inr [])"
  "0 < n \<Longrightarrow> win_read_exact_at [] f off n = None"
  "0 < n \<Longrightarrow> win_read_exact_at (Inl e # os) f off n =
     (if e = Interrupted then win_read_exact_at os f off n else Some (Inl e))"
  "0 < n \<Longrightarrow> win_read_exact_at (Inr k # os) f off n =
     (let c = take (min k n) (drop off f)
      in if c = [] then Some (Inl UnexpectedEof)
         else case win_read_exact_at os f (off + length c) (n - length c) of
                None \<Rightarrow> None
              | Some (Inl e) \<Rightarrow> Some (Inl e)
              | Some (Inr rest) \<Rightarrow> Some (Inr (c @ rest)))"
     apply (simp add: win_read_exact_at.simps [of os f off 0])
    apply (simp add: win_read_exact_at.simps [of "[]" f off n])
   apply (simp add: win_read_exact_at.simps [of "Inl e # os" f off n] seek_read_def)
  apply (simp add: win_read_exact_at.simps [of "Inr k # os" f off n] seek_read_def Let_def del: length_take take_eq_Nil)
  done

lemma win_read_exact_at_sound:
  "win_read_exact_at os f off n = Some (Inr bs) \<Longrightarrow> 0 < n \<Longrightarrow> sys_read_exact_at f off n = Inr bs"
proof (induction os arbitrary: off n bs)
  case (Cons a os)
  show ?case
  proof (cases a)
    case (Inl e)
    then show ?thesis using Cons by (auto simp: win_read_simps split: if_splits)
  next
    case (Inr k)
    define c where "c = take (min k n) (drop off f)"
    obtain bs' where c: "c \<noteq> []" "bs = c @ bs'"
      and rest: "win_read_exact_at os f (off + length c) (n - length c) = Some (Inr bs')"
      using Cons.prems Inr
      by (auto simp: win_read_simps Let_def simp flip: c_def split: if_splits option.splits sum.splits)
    have lc: "length c \<le> n" "c = take (length c) (drop off f)" "off + length c \<le> length f"
      using c(1) by (auto simp: c_def min_def)
    show ?thesis
    proof (cases "n = length c")
      case True
      then have "bs' = []" using rest by (simp add: win_read_simps)
      then show ?thesis using c lc True by (simp add: sys_read_exact_at_def)
    next
      case False
      then have "sys_read_exact_at f (off + length c) (n - length c) = Inr bs'"
        using Cons.IH [OF rest] lc(1) by simp
      then have "bs' = take (n - length c) (drop (length c) (drop off f))" "off + n \<le> length f"
        using lc(1) by (auto simp: sys_read_exact_at_def add.commute split: if_splits)
      then show ?thesis
        using c(2) lc take_add [of "length c" "n - length c" "drop off f"]
        by (simp add: sys_read_exact_at_def)
    qed
  qed
qed (simp add: win_read_simps)

lemma win_write_simps:
  "win_write_all_at os f off [] = Some (Inr f)"
  "bs \<noteq> [] \<Longrightarrow> win_write_all_at [] f off bs = None"
  "bs \<noteq> [] \<Longrightarrow> win_write_all_at (Inl e # os) f off bs =
     (if e = Interrupted then win_write_all_at os f off bs else Some (Inl e))"
    apply (simp add: win_write_all_at.simps [of os f off "[]"])
   apply (simp add: win_write_all_at.simps [of "[]" f off bs])
  apply (simp add: win_write_all_at.simps [of "Inl e # os" f off bs] seek_write_def)
  done

lemma win_write_some:
  assumes "bs \<noteq> []" and "n = min k (length bs)"
  shows "win_write_all_at (Inr k # os) f off bs =
     (if n = 0 then Some (Inl WriteZero)
      else win_write_all_at os (overwrite (resize f (max (length f) (off + n))) off (take n bs)) (off + n) (drop n bs))"
  using assms(1) unfolding win_write_all_at.simps [of "Inr k # os" f off bs]
  by (simp add: seek_write_def Let_def flip: assms(2))

text \<open>Two adjacent writes are one.\<close>

lemma overwrite_adjacent:
  assumes "n \<le> length bs"
  shows "overwrite (resize (overwrite (resize f (max (length f) (off + n))) off (take n bs))
             (max (max (length f) (off + n)) (off + length bs))) (off + n) (drop n bs) =
         overwrite (resize f (max (length f) (off + length bs))) off bs"
proof (rule nth_equalityI)
  fix i assume "i < length (overwrite (resize (overwrite (resize f (max (length f) (off + n))) off (take n bs))
             (max (max (length f) (off + n)) (off + length bs))) (off + n) (drop n bs))"
  then have i: "i < max (length f) (off + length bs)" using assms by simp
  have r: "resize g m ! j = (if j < length g then g ! j else 0)" if "j < m" for g m j
    using that by (simp add: resize_def nth_append)
  show "overwrite (resize (overwrite (resize f (max (length f) (off + n))) off (take n bs))
             (max (max (length f) (off + n)) (off + length bs))) (off + n) (drop n bs) ! i =
         overwrite (resize f (max (length f) (off + length bs))) off bs ! i"
    using i assms by (simp add: nth_overwrite r max_def) (auto simp: not_less)
qed (use assms in simp)

lemma win_write_all_at_sound:
  "win_write_all_at os f off bs = Some (Inr f') \<Longrightarrow> sys_write_all_at f off bs = Inr f'"
proof (induction os arbitrary: f off bs)
  case Nil
  then show ?case by (cases "bs = []") (simp_all add: win_write_simps sys_write_all_at_def)
next
  case (Cons a os)
  consider "bs = []" | e where "bs \<noteq> []" "a = Inl e" | k where "bs \<noteq> []" "a = Inr k"
    by (cases a) auto
  then show ?case
  proof cases
    case 1
    then show ?thesis using Cons.prems by (simp add: win_write_simps sys_write_all_at_def)
  next
    case 2
    then show ?thesis using Cons by (auto simp: win_write_simps split: if_splits)
  next
    case (3 k)
    define n where "n = min k (length bs)"
    have "0 < n" "n \<le> length bs" and
      "win_write_all_at os (overwrite (resize f (max (length f) (off + n))) off (take n bs)) (off + n) (drop n bs) = Some (Inr f')"
      using Cons.prems 3 win_write_some [of bs n k os f off] by (auto simp: n_def split: if_splits)
    then have "sys_write_all_at (overwrite (resize f (max (length f) (off + n))) off (take n bs)) (off + n) (drop n bs) = Inr f'"
      using Cons.IH by simp
    then show ?thesis
      using overwrite_adjacent [of n bs f off] \<open>n \<le> length bs\<close> 3(1)
      by (cases "n = length bs") (auto simp: sys_write_all_at_def max_def split: if_splits)
  qed
qed

text \<open>A loop that is always offered at least one byte, with the range inside the file, returns.\<close>

lemma win_read_exact_at_returns:
  "off + n \<le> length f \<Longrightarrow> n \<le> length os \<Longrightarrow> \<forall>a \<in> set os. \<exists>k > 0. a = Inr k \<Longrightarrow>
     win_read_exact_at os f off n = Some (Inr (take n (drop off f)))"
proof (induction os arbitrary: off n)
  case (Cons a os)
  show ?case
  proof (cases "n = 0")
    case False
    obtain k where k: "a = Inr k" "0 < k" using Cons.prems(3) by auto
    define c where "c = take (min k n) (drop off f)"
    have c: "length c = min k n" "c \<noteq> []" using Cons.prems(1) k False by (auto simp: c_def)
    have "win_read_exact_at os f (off + length c) (n - length c) =
        Some (Inr (take (n - length c) (drop (off + length c) f)))"
      using Cons.prems c k False by (intro Cons.IH) auto
    moreover have "c @ take (n - length c) (drop (off + length c) f) = take n (drop off f)"
      using take_add [of "length c" "n - length c" "drop off f"] c(1)
      by (simp add: c_def add.commute)
    ultimately show ?thesis using False k c(2) by (simp add: win_read_simps Let_def flip: c_def)
  qed (simp add: win_read_simps)
qed (simp add: win_read_simps)

section \<open>Properties\<close>

text \<open>A checksum with the incremental law, for concrete instances.\<close>

definition sum_crc :: "u32 \<Rightarrow> byte list \<Rightarrow> u32" where
  "sum_crc c xs = fold (\<lambda>b acc. acc + ucast b) xs c"

lemma sum_crc_incremental: "crc_incremental sum_crc"
  by (simp add: crc_incremental_def sum_crc_def)

text \<open>Into a file with any previous contents, sized by \<open>allocate\<close>, positional
  writes of all blocks in any order and with any duplicates leave exactly the source's bytes,
  and the sink's read-back CRC is the CRC of the source.\<close>

theorem file_scatter_reassembles:
  assumes "0 < bs" and "length data < 2 ^ 64" and "\<forall>s. s \<in> set seqs \<longleftrightarrow> s * bs < length data"
    and "crc_incremental crc"
  shows "\<exists>k0 k'. file_allocate (file_sink_from_file previous) (length data) = Inr k0 \<and>
           write_ranges file_write_all_at k0 (map (\<lambda>s. (s * bs, block_of data bs s)) seqs) = Inr k' \<and>
           fsnk_file k' = data \<and>
           file_read_crc32c crc k' = map_sum id Some (source_crc32c fsrc_len file_read_exact_at crc (file_source_from_file data))"
proof -
  obtain k0 where k0: "file_allocate (file_sink_from_file previous) (length data) = Inr k0"
    using file_snk.allocate_sizes [of "file_sink_from_file previous" "length data"] by blast
  have "source_crc32c fsrc_len file_read_exact_at crc (file_source_from_file data) = Inr (crc 0 data)"
    using file_src.source_crc_whole [OF assms(4), of "file_source_from_file data"]
    by (simp add: file_source_from_file_def)
  then show ?thesis
    using file_snk.scatter_reassembles [OF assms(1-3) k0, of crc] assms(4) k0 by auto
qed

lemma sample_blocks: "\<forall>s. s \<in> set [2, 0, 1, 0] \<longleftrightarrow> s * 2 < length ([1, 2, 3, 4, 5] :: byte list)"
  by (auto simp: numeral_eq_Suc)

theorem file_scatter_reassembles_witness:
  "\<exists>k0 k'. file_allocate (file_sink_from_file [9, 9, 9, 9, 9, 9, 9]) (length ([1, 2, 3, 4, 5] :: byte list)) = Inr k0 \<and>
     write_ranges file_write_all_at k0 (map (\<lambda>s. (s * 2, block_of [1, 2, 3, 4, 5] 2 s)) [2, 0, 1, 0]) = Inr k' \<and>
     fsnk_file k' = [1, 2, 3, 4, 5] \<and>
     file_read_crc32c sum_crc k' =
       map_sum id Some (source_crc32c fsrc_len file_read_exact_at sum_crc (file_source_from_file [1, 2, 3, 4, 5]))"
  by (rule file_scatter_reassembles) (use sample_blocks sum_crc_incremental in simp_all)

text \<open>The same for the in-memory sink and source.\<close>

theorem mem_scatter_reassembles:
  assumes "0 < bs" and "length data < 2 ^ 64" and "\<forall>s. s \<in> set seqs \<longleftrightarrow> s * bs < length data"
    and "crc_incremental crc"
  shows "\<exists>k0 k'. mem_allocate mem_sink_new (length data) = Inr k0 \<and>
           write_ranges mem_write_all_at k0 (map (\<lambda>s. (s * bs, block_of data bs s)) seqs) = Inr k' \<and>
           to_vec k' = data \<and>
           mem_read_crc32c crc k' = map_sum id Some (source_crc32c mem_len mem_read_exact_at crc (mem_source_new data))"
proof -
  obtain k0 where k0: "mem_allocate mem_sink_new (length data) = Inr k0"
    using mem_snk.allocate_sizes [of mem_sink_new "length data"] by blast
  have "source_crc32c mem_len mem_read_exact_at crc (mem_source_new data) = Inr (crc 0 data)"
    using mem_src.source_crc_whole [OF assms(4,2)] by (simp add: mem_source_new_def)
  then show ?thesis
    using mem_snk.scatter_reassembles [OF assms(1-3) k0, of crc] assms(4) k0 by auto
qed

theorem mem_scatter_reassembles_witness:
  "\<exists>k0 k'. mem_allocate mem_sink_new (length ([1, 2, 3, 4, 5] :: byte list)) = Inr k0 \<and>
     write_ranges mem_write_all_at k0 (map (\<lambda>s. (s * 2, block_of [1, 2, 3, 4, 5] 2 s)) [2, 0, 1, 0]) = Inr k' \<and>
     to_vec k' = [1, 2, 3, 4, 5] \<and>
     mem_read_crc32c sum_crc k' =
       map_sum id Some (source_crc32c mem_len mem_read_exact_at sum_crc (mem_source_new [1, 2, 3, 4, 5]))"
  by (rule mem_scatter_reassembles) (use sample_blocks sum_crc_incremental in simp_all)

text \<open>The Windows loops over short reads and short writes agree with the
  positional calls of the other platforms whenever they succeed, and the read loop does
  succeed when the range lies in the file and the system keeps delivering bytes.\<close>

theorem win_loops_refine:
  assumes "0 < n"
  shows "(\<forall>buf. win_read_exact_at os f off n = Some (Inr buf) \<longrightarrow> sys_read_exact_at f off n = Inr buf) \<and>
         (\<forall>f'. win_write_all_at os f off bs = Some (Inr f') \<longrightarrow> sys_write_all_at f off bs = Inr f') \<and>
         (off + n \<le> length f \<and> n \<le> length os \<and> (\<forall>a \<in> set os. \<exists>k > 0. a = Inr k) \<longrightarrow>
            win_read_exact_at os f off n = Some (Inr (take n (drop off f))))"
  using assms win_read_exact_at_sound [of os f off n] win_write_all_at_sound [of os f off bs]
    win_read_exact_at_returns [of off n f os] by blast

theorem win_loops_refine_witness:
  "win_read_exact_at [Inr 1, Inr 5] [10, 11, 12, 13] 1 2 = Some (Inr [11, 12]) \<and>
   sys_read_exact_at [10, 11, 12, 13] 1 2 = Inr [11, 12]"
proof -
  have "win_read_exact_at [Inr 1, Inr 5] [10, 11, 12, 13] 1 2 = Some (Inr (take 2 (drop 1 [10, 11, 12, 13])))"
    using win_loops_refine [of 2 "[Inr 1, Inr 5]" "[10, 11, 12, 13]" 1 "[]"] by simp
  then show ?thesis by (simp add: sys_read_exact_at_def)
qed

end
