(* ===== verification/Data_Crypto.thy ===== *)
theory Data_Crypto
  imports Wire
begin

text \<open>
  \<open>src/src/crypto.rs\<close>: cipher negotiation, the per-block nonce, sealing and opening DATA
  payloads, and the two sides of the key exchange.

  The primitives come from crates and are parameters: the AEADs (\<open>enc\<close>, \<open>dec\<close>), X25519
  (\<open>pub_of\<close>, \<open>dh\<close>), HKDF-SHA256 (\<open>hkdf\<close>) and the CPU feature test (\<open>hw\<close>). What is
  relied on of them is stated by \<open>aead_correct\<close> (decryption inverts encryption, the
  ciphertext has the length of the plaintext, the tag 16 bytes) and \<open>x25519_agrees\<close> (the
  Diffie-Hellman law, 32-byte public keys). Secrets drawn from the system's random source
  are arguments.
\<close>

section \<open>Suites and their negotiation\<close>

definition CIPHER_AES_GCM :: string where "CIPHER_AES_GCM = ''aes-256-gcm''"
definition CIPHER_CHACHA :: string where "CIPHER_CHACHA = ''chacha20-poly1305''"
definition AEAD_KEY_LEN :: nat where "AEAD_KEY_LEN = 32"
definition AEAD_NONCE_LEN :: nat where "AEAD_NONCE_LEN = 12"
definition AEAD_TAG_LEN :: nat where "AEAD_TAG_LEN = 16"

lemmas cipher_consts = CIPHER_AES_GCM_def CIPHER_CHACHA_def

definition local_ciphers :: "bool \<Rightarrow> string list" where
  "local_ciphers hw = (if hw then [CIPHER_AES_GCM, CIPHER_CHACHA] else [CIPHER_CHACHA, CIPHER_AES_GCM])"

fun choose_cipher :: "string list \<Rightarrow> string list \<Rightarrow> string" where
  "choose_cipher [] peer = ''''"
| "choose_cipher (c # prefs) peer = (if list_ex (\<lambda>p. p = c) peer then c else choose_cipher prefs peer)"

definition ciphers_if :: "bool \<Rightarrow> bool \<Rightarrow> string list option" where
  "ciphers_if hw enc = (if enc then Some (local_ciphers hw) else None)"

section \<open>The AEAD box\<close>

datatype crypto_error =
    BadKeyLength nat
  | UnknownCipher string
  | BadPeerKey
  | HkdfFailed
  | NoCommonCipher
  | ServerDeclined
  | ServerUnexpected

datatype aead_box = Aes "byte list" | Cha "byte list"

definition block_nonce :: "u64 \<Rightarrow> byte list" where
  "block_nonce seq = replicate 4 0 @ le_bytes 8 seq"

definition aead_new :: "string \<Rightarrow> byte list \<Rightarrow> crypto_error + aead_box" where
  "aead_new name key =
     (if length key \<noteq> AEAD_KEY_LEN then Inl (BadKeyLength (length key))
      else if name = CIPHER_AES_GCM then Inr (Aes key)
      else if name = CIPHER_CHACHA then Inr (Cha key)
      else Inl (UnknownCipher name))"

definition overhead :: "aead_box \<Rightarrow> nat" where
  "overhead box = AEAD_TAG_LEN"

fun box_name :: "aead_box \<Rightarrow> string" where
  "box_name (Aes _) = CIPHER_AES_GCM"
| "box_name (Cha _) = CIPHER_CHACHA"

type_synonym enc_fun = "aead_box \<Rightarrow> byte list \<Rightarrow> byte list \<Rightarrow> (byte list \<times> byte list) option"
type_synonym dec_fun = "aead_box \<Rightarrow> byte list \<Rightarrow> byte list \<Rightarrow> byte list \<Rightarrow> byte list option"

text \<open>\<open>encrypt_in_place_detached(nonce, [], plaintext)\<close> gives ciphertext and tag;
  \<open>decrypt_in_place_detached(nonce, [], ciphertext, tag)\<close> gives the plaintext or fails.\<close>

definition aead_correct :: "enc_fun \<Rightarrow> dec_fun \<Rightarrow> bool" where
  "aead_correct enc dec \<longleftrightarrow>
     (\<forall>box nonce pt. \<exists>ct tag. enc box nonce pt = Some (ct, tag) \<and> length ct = length pt \<and>
        length tag = AEAD_TAG_LEN \<and> dec box nonce ct tag = Some pt)"

definition seal_data :: "enc_fun \<Rightarrow> aead_box \<Rightarrow> byte list \<Rightarrow> nat \<Rightarrow> nat \<Rightarrow> u64 \<Rightarrow> (byte list \<times> nat) may_panic" where
  "seal_data enc box buf hdr_len plen seq = do {
     let nonce = block_nonce seq;
     pt \<leftarrow> subslice buf hdr_len (hdr_len + plen);
     (ct, tag) \<leftarrow> enc box nonce pt;
     buf \<leftarrow> write_at buf hdr_len ct;
     buf \<leftarrow> write_at buf (hdr_len + plen) tag;
     Some (buf, hdr_len + plen + AEAD_TAG_LEN)
   }"

definition open_data :: "dec_fun \<Rightarrow> aead_box \<Rightarrow> byte list \<Rightarrow> nat \<Rightarrow> u64 \<Rightarrow> (byte list \<times> nat) option may_panic" where
  "open_data dec box payload plen seq =
     (let ct_len = plen + AEAD_TAG_LEN
      in if ct_len > length payload then Some None
         else do {
           let nonce = block_nonce seq;
           ct \<leftarrow> subslice payload 0 plen;
           tag \<leftarrow> subslice payload plen ct_len;
           (case dec box nonce ct tag of
              None \<Rightarrow> Some None
            | Some pt \<Rightarrow> do {
                payload \<leftarrow> write_at payload 0 pt;
                Some (Some (payload, plen))
              })
         })"

section \<open>The key exchange\<close>

type_synonym 'secret dh_fun = "'secret \<Rightarrow> byte list \<Rightarrow> byte list"
type_synonym hkdf_fun = "byte list \<Rightarrow> byte list \<Rightarrow> string \<Rightarrow> byte list option"

definition gen_keypair :: "('secret \<Rightarrow> byte list) \<Rightarrow> 'secret \<Rightarrow> 'secret \<times> byte list" where
  "gen_keypair pub_of secret = (secret, pub_of secret)"

definition x25519_agrees :: "('secret \<Rightarrow> byte list) \<Rightarrow> 'secret dh_fun \<Rightarrow> bool" where
  "x25519_agrees pub_of dh \<longleftrightarrow>
     (\<forall>a b. dh a (pub_of b) = dh b (pub_of a)) \<and> (\<forall>a. length (pub_of a) = 32)"

definition derive_aead ::
  "'secret dh_fun \<Rightarrow> hkdf_fun \<Rightarrow> 'secret \<Rightarrow> byte list \<Rightarrow> u32 \<Rightarrow> string \<Rightarrow> crypto_error + aead_box" where
  "derive_aead dh hkdf priv_key peer_pub session cipher_name =
     (if length peer_pub \<noteq> 32 then Inl BadPeerKey
      else let secret = dh priv_key peer_pub;
               salt = le_bytes 4 session;
               info = ''girth data key '' @ cipher_name
           in case hkdf salt secret info of
                None \<Rightarrow> Inl HkdfFailed
              | Some key \<Rightarrow> aead_new cipher_name key)"

definition negotiate_crypto_server ::
  "bool \<Rightarrow> ('secret \<Rightarrow> byte list) \<Rightarrow> 'secret dh_fun \<Rightarrow> hkdf_fun \<Rightarrow> 'secret \<Rightarrow>
   bool \<Rightarrow> string list \<Rightarrow> byte list \<Rightarrow> u32 \<Rightarrow> crypto_error + (bool \<times> string \<times> byte list \<times> aead_box option)"
where
  "negotiate_crypto_server hw pub_of dh hkdf fresh encrypt peer_ciphers peer_pub session =
     (if \<not> encrypt then Inr (False, '''', [], None)
      else let cipher_name = choose_cipher (local_ciphers hw) peer_ciphers
           in if cipher_name = '''' then Inl NoCommonCipher
              else let (priv_key, pub_key) = gen_keypair pub_of fresh
                   in case derive_aead dh hkdf priv_key peer_pub session cipher_name of
                        Inl e \<Rightarrow> Inl e
                      | Inr aead \<Rightarrow> Inr (True, cipher_name, pub_key, Some aead))"

definition client_crypto ::
  "'secret dh_fun \<Rightarrow> hkdf_fun \<Rightarrow> bool \<Rightarrow> bool \<Rightarrow> byte list \<Rightarrow> u32 \<Rightarrow> string \<Rightarrow> 'secret option \<Rightarrow>
   crypto_error + aead_box option"
where
  "client_crypto dh hkdf want server_encrypt server_pub session cipher priv_key =
     (if \<not> server_encrypt then (if want then Inl ServerDeclined else Inr None)
      else case priv_key of
             None \<Rightarrow> Inl ServerUnexpected
           | Some priv_key \<Rightarrow>
               if \<not> want then Inl ServerUnexpected
               else case derive_aead dh hkdf priv_key server_pub session cipher of
                      Inl e \<Rightarrow> Inl e
                    | Inr aead \<Rightarrow> Inr (Some aead))"

section \<open>Lemmas\<close>

lemma choose_cipher_mem:
  "choose_cipher prefs peer \<noteq> '''' \<Longrightarrow> choose_cipher prefs peer \<in> set prefs \<inter> set peer"
  by (induction prefs) (auto simp: list_ex_iff)

lemma choose_cipher_first:
  "choose_cipher prefs peer = (case find (\<lambda>c. c \<in> set peer) prefs of None \<Rightarrow> '''' | Some c \<Rightarrow> c)"
  by (induction prefs) (auto simp: list_ex_iff)

lemma length_block_nonce [simp]: "length (block_nonce seq) = AEAD_NONCE_LEN"
  by (simp add: block_nonce_def AEAD_NONCE_LEN_def)

lemma aead_new_name: "aead_new name key = Inr box \<Longrightarrow> box_name box = name"
  by (auto simp: aead_new_def split: if_splits)

lemma seal_data_ok:
  assumes "aead_correct enc dec" and "length hdr = hdr_len" and "length pt = plen"
    and "AEAD_TAG_LEN \<le> length rest"
  obtains ct tag where "enc box (block_nonce seq) pt = Some (ct, tag)" "length ct = plen" "length tag = AEAD_TAG_LEN"
    "dec box (block_nonce seq) ct tag = Some pt"
    "seal_data enc box (hdr @ pt @ rest) hdr_len plen seq =
       Some (hdr @ ct @ tag @ drop AEAD_TAG_LEN rest, hdr_len + plen + AEAD_TAG_LEN)"
proof -
  obtain ct tag where e: "enc box (block_nonce seq) pt = Some (ct, tag)" "length ct = plen" "length tag = AEAD_TAG_LEN"
      "dec box (block_nonce seq) ct tag = Some pt"
    using assms(1,3) unfolding aead_correct_def by blast
  then show thesis
    using that [of ct tag] assms(2-4)
    by (simp add: seal_data_def subslice_def write_at_def)
qed

lemma open_data_ok:
  assumes "length ct = plen" and "length tag = AEAD_TAG_LEN" and "length pt = plen"
    and "dec box (block_nonce seq) ct tag = Some pt"
  shows "open_data dec box (ct @ tag @ rest) plen seq = Some (Some (pt @ tag @ rest, plen))"
  using assms by (simp add: open_data_def subslice_def write_at_def)

lemma derive_aead_Inr:
  "derive_aead dh hkdf k p s c = Inr box \<Longrightarrow> length p = 32 \<and> box_name box = c"
  by (auto simp: derive_aead_def Let_def aead_new_name split: if_splits option.splits)

section \<open>Properties\<close>

text \<open>No two blocks share a nonce, whatever their sequence numbers: within a
  session a nonce is used for one block only.\<close>

theorem block_nonce_unique:
  "length (block_nonce seq) = AEAD_NONCE_LEN \<and> (block_nonce seq = block_nonce seq' \<longleftrightarrow> seq = seq')"
proof -
  have "seq = seq'" if "le_bytes 8 seq = le_bytes 8 seq'"
  proof -
    have "le_word (le_bytes 8 seq) = (le_word (le_bytes 8 seq') :: u64)" using that by simp
    then show ?thesis by simp
  qed
  then show ?thesis by (auto simp: block_nonce_def AEAD_NONCE_LEN_def)
qed

text \<open>Property C31: sealing a PDU leaves the header and the bytes after the tag untouched, grows
  it by exactly the 16-byte tag, and opening the sealed payload with the same sequence number
  restores the plaintext.\<close>

theorem seal_open_roundtrip:
  assumes "aead_correct enc dec" and "length pt = plen" and "AEAD_TAG_LEN \<le> length rest"
  shows "\<exists>sealed. seal_data enc box (hdr @ pt @ rest) (length hdr) plen seq =
             Some (hdr @ sealed @ drop AEAD_TAG_LEN rest, length hdr + plen + AEAD_TAG_LEN) \<and>
           length sealed = plen + AEAD_TAG_LEN \<and>
           (\<forall>more. \<exists>payload. open_data dec box (sealed @ more) plen seq = Some (Some (payload, plen)) \<and>
                     take plen payload = pt)"
proof -
  obtain ct tag where e: "length ct = plen" "length tag = AEAD_TAG_LEN" "dec box (block_nonce seq) ct tag = Some pt"
    "seal_data enc box (hdr @ pt @ rest) (length hdr) plen seq =
       Some (hdr @ ct @ tag @ drop AEAD_TAG_LEN rest, length hdr + plen + AEAD_TAG_LEN)"
    using seal_data_ok [OF assms(1) refl assms(2,3), of box seq hdr] by blast
  have "open_data dec box ((ct @ tag) @ more) plen seq = Some (Some (pt @ tag @ more, plen))" for more
    using open_data_ok [where rest = more and dec = dec and box = box, OF e(1,2) assms(2) e(3)] by simp
  then show ?thesis using e assms(2) by (intro exI [of _ "ct @ tag"]) auto
qed

definition copy_enc :: enc_fun where
  "copy_enc box nonce pt = Some (pt, replicate 16 0)"

definition copy_dec :: dec_fun where
  "copy_dec box nonce ct tag = (if tag = replicate 16 0 then Some ct else None)"

lemma copy_aead_correct: "aead_correct copy_enc copy_dec"
  by (simp add: aead_correct_def copy_enc_def copy_dec_def AEAD_TAG_LEN_def)

theorem seal_open_roundtrip_witness:
  "\<exists>sealed. seal_data copy_enc (Aes []) ([1, 2] @ [7, 8, 9] @ replicate 20 0) (length [1, 2 :: byte]) 3 5 =
       Some ([1, 2] @ sealed @ drop AEAD_TAG_LEN (replicate 20 0), length [1, 2 :: byte] + 3 + AEAD_TAG_LEN) \<and>
     length sealed = 3 + AEAD_TAG_LEN \<and>
     (\<forall>more. \<exists>payload. open_data copy_dec (Aes []) (sealed @ more) 3 5 = Some (Some (payload, 3)) \<and>
               take 3 payload = [7, 8, 9])"
  by (rule seal_open_roundtrip [OF copy_aead_correct]) (simp_all add: AEAD_TAG_LEN_def)

text \<open>Property C26: the client fails closed. A handshake that succeeds has a box exactly when
  the user asked for encryption, and then the server enabled it, a private key was present and
  the box uses the cipher the server named.\<close>

theorem client_fails_closed:
  assumes "client_crypto dh hkdf want server_encrypt server_pub session cipher priv_key = Inr r"
  shows "(r \<noteq> None \<longleftrightarrow> want) \<and> server_encrypt = want \<and>
         (\<forall>box. r = Some box \<longrightarrow> box_name box = cipher \<and> priv_key \<noteq> None \<and> length server_pub = 32)"
  using assms derive_aead_Inr [of dh hkdf _ server_pub session cipher]
  by (auto simp: client_crypto_def split: if_splits option.splits sum.splits)

text \<open>When both ends of an encrypted handshake run to completion they hold the
  same box: the same suite, which both sides support, and the same key.\<close>

theorem handshake_agrees:
  assumes "x25519_agrees pub_of dh"
    and "negotiate_crypto_server hw pub_of dh hkdf srv True (local_ciphers hw') (pub_of cli) session =
           Inr (enabled, cipher, server_pub, server_box)"
  shows "enabled \<and> cipher \<in> set (local_ciphers hw) \<inter> set (local_ciphers hw') \<and>
         (\<exists>box. server_box = Some box \<and> box_name box = cipher \<and>
            client_crypto dh hkdf True enabled server_pub session cipher (Some cli) = Inr (Some box))"
proof -
  let ?c = "choose_cipher (local_ciphers hw) (local_ciphers hw')"
  have c: "?c \<noteq> ''''" "enabled" "cipher = ?c" "server_pub = pub_of srv"
    and box: "map_sum id Some (derive_aead dh hkdf srv (pub_of cli) session cipher) = Inr server_box"
    using assms(2)
    by (auto simp: negotiate_crypto_server_def gen_keypair_def Let_def split: if_splits sum.splits)
  then obtain b where b: "derive_aead dh hkdf srv (pub_of cli) session cipher = Inr b" "server_box = Some b"
    by (cases "derive_aead dh hkdf srv (pub_of cli) session cipher") auto
  have "derive_aead dh hkdf cli (pub_of srv) session cipher = derive_aead dh hkdf srv (pub_of cli) session cipher"
    using assms(1) by (simp add: derive_aead_def x25519_agrees_def)
  then show ?thesis
    using b c choose_cipher_mem [OF c(1)] derive_aead_Inr [OF b(1)] by (simp add: client_crypto_def)
qed

definition toy_pub :: "nat \<Rightarrow> byte list" where
  "toy_pub s = replicate 32 (of_nat s)"

definition toy_dh :: "nat dh_fun" where
  "toy_dh s p = [of_nat s * hd p]"

definition toy_hkdf :: hkdf_fun where
  "toy_hkdf salt secret info = Some (secret @ replicate 31 0)"

lemma toy_agrees: "x25519_agrees toy_pub toy_dh"
  by (simp add: x25519_agrees_def toy_pub_def toy_dh_def mult.commute)

theorem client_fails_closed_witness:
  "client_crypto toy_dh toy_hkdf True True (toy_pub 7) 1 CIPHER_CHACHA (Some 5) = Inr (Some (Cha (35 # replicate 31 0))) \<and>
   box_name (Cha (35 # replicate 31 0)) = CIPHER_CHACHA"
proof -
  have c: "client_crypto toy_dh toy_hkdf True True (toy_pub 7) 1 CIPHER_CHACHA (Some 5) = Inr (Some (Cha (35 # replicate 31 0)))"
    by (simp add: client_crypto_def derive_aead_def toy_pub_def toy_dh_def toy_hkdf_def aead_new_def
        AEAD_KEY_LEN_def cipher_consts)
  then show ?thesis using client_fails_closed [OF c] by simp
qed

theorem handshake_agrees_witness:
  "\<exists>server_box box. negotiate_crypto_server True toy_pub toy_dh toy_hkdf 7 True (local_ciphers False) (toy_pub 5) 1 =
       Inr (True, CIPHER_AES_GCM, toy_pub 7, server_box) \<and> server_box = Some box \<and>
     client_crypto toy_dh toy_hkdf True True (toy_pub 7) 1 CIPHER_AES_GCM (Some 5) = Inr (Some box)"
proof -
  have n: "negotiate_crypto_server True toy_pub toy_dh toy_hkdf 7 True (local_ciphers False) (toy_pub 5) 1 =
       Inr (True, CIPHER_AES_GCM, toy_pub 7, Some (Aes (35 # replicate 31 0)))"
    by (simp add: negotiate_crypto_server_def local_ciphers_def gen_keypair_def derive_aead_def toy_pub_def
        toy_dh_def toy_hkdf_def aead_new_def AEAD_KEY_LEN_def cipher_consts)
  then show ?thesis using handshake_agrees [OF toy_agrees n] by auto
qed

end
