(* ===== verification/Auth_Mac.thy ===== *)
theory Auth_Mac
  imports Prelude
begin

text \<open>
  \<open>src/src/auth.rs\<close>: the transcripts the two sides authenticate and the MACs over them.

  HMAC-SHA256 comes from a crate and is a parameter \<open>hmac token message\<close>; the successive
  \<open>update\<close> calls of the source are the concatenation of their arguments. What the binding
  results rely on is \<open>mac_collision_free\<close>: two equal MACs have equal keys and messages, the
  idealisation of HMAC's unforgeability. A Rust string is its UTF-8 bytes, here the
  characters of a \<open>string\<close>.
\<close>

definition as_bytes :: "string \<Rightarrow> byte list" where
  "as_bytes s = map (\<lambda>c. of_nat (of_char c)) s"

definition DOMAIN_CLIENT :: "byte list" where
  "DOMAIN_CLIENT = as_bytes ''girth-auth-client-v1''"

definition DOMAIN_SERVER :: "byte list" where
  "DOMAIN_SERVER = as_bytes ''girth-auth-server-v1''"

type_synonym mac_fun = "byte list \<Rightarrow> byte list \<Rightarrow> byte list"

definition client_transcript :: "i64 \<Rightarrow> string \<Rightarrow> string \<Rightarrow> i64 \<Rightarrow> byte list \<Rightarrow> byte list" where
  "client_transcript version mode name sz client_pub =
     DOMAIN_CLIENT @ le_bytes 8 version @ as_bytes mode @ [0] @ as_bytes name @ [0] @ le_bytes 8 sz @ client_pub"

definition server_transcript :: "u32 \<Rightarrow> byte list \<Rightarrow> byte list \<Rightarrow> byte list" where
  "server_transcript session server_pub cmac = DOMAIN_SERVER @ le_bytes 4 session @ server_pub @ cmac"

definition client_mac :: "mac_fun \<Rightarrow> byte list \<Rightarrow> i64 \<Rightarrow> string \<Rightarrow> string \<Rightarrow> i64 \<Rightarrow> byte list \<Rightarrow> byte list" where
  "client_mac hmac token version mode name sz client_pub =
     hmac token (client_transcript version mode name sz client_pub)"

definition server_mac :: "mac_fun \<Rightarrow> byte list \<Rightarrow> u32 \<Rightarrow> byte list \<Rightarrow> byte list \<Rightarrow> byte list" where
  "server_mac hmac token session server_pub cmac = hmac token (server_transcript session server_pub cmac)"

text \<open>\<open>verify_slice\<close> compares the whole tag.\<close>

definition verify_client_mac ::
  "mac_fun \<Rightarrow> byte list \<Rightarrow> i64 \<Rightarrow> string \<Rightarrow> string \<Rightarrow> i64 \<Rightarrow> byte list \<Rightarrow> byte list \<Rightarrow> bool" where
  "verify_client_mac hmac token version mode name sz client_pub presented \<longleftrightarrow>
     hmac token (client_transcript version mode name sz client_pub) = presented"

definition verify_server_mac ::
  "mac_fun \<Rightarrow> byte list \<Rightarrow> u32 \<Rightarrow> byte list \<Rightarrow> byte list \<Rightarrow> byte list \<Rightarrow> bool" where
  "verify_server_mac hmac token session server_pub cmac presented \<longleftrightarrow>
     hmac token (server_transcript session server_pub cmac) = presented"

definition mac_collision_free :: "mac_fun \<Rightarrow> bool" where
  "mac_collision_free hmac \<longleftrightarrow> (\<forall>k m k' m'. hmac k m = hmac k' m' \<longrightarrow> k = k' \<and> m = m')"

section \<open>The transcripts determine their fields\<close>

definition nul_free :: "string \<Rightarrow> bool" where
  "nul_free s \<longleftrightarrow> 0 \<notin> set (as_bytes s)"

lemma as_bytes_inj [simp]: "as_bytes s = as_bytes t \<longleftrightarrow> s = t"
proof -
  have u: "unat (of_nat (of_char c) :: byte) = of_char c" for c
    using nat_of_char_less_256 [of c] by (simp add: unat_of_nat)
  have "inj (\<lambda>c. of_nat (of_char c) :: byte)"
    by (rule injI) (metis u of_char_eq_iff)
  then show ?thesis by (auto simp: as_bytes_def inj_map_eq_map)
qed

lemma le_bytes_inj:
  assumes "LENGTH('a::len) \<le> 8 * n"
  shows "le_bytes n w = le_bytes n (w' :: 'a word) \<longleftrightarrow> w = w'"
  by (metis assms le_word_le_bytes)

lemma le_bytes_append_eq [simp]:
  "le_bytes 8 w @ xs = le_bytes 8 w' @ ys \<longleftrightarrow> w = w' \<and> xs = ys" for w w' :: i64
  by (auto simp: append_eq_append_conv le_bytes_inj)

lemma nul_terminated_eq:
  assumes "0 \<notin> set xs" and "0 \<notin> set ys"
  shows "xs @ [0] @ r = ys @ [0] @ s \<longleftrightarrow> xs = ys \<and> r = (s :: byte list)"
  using assms
proof (induction xs arbitrary: ys)
  case Nil
  then show ?case by (cases ys) auto
next
  case (Cons x xs)
  then show ?case by (cases ys) auto
qed

lemma client_transcript_inj:
  assumes "nul_free mode" and "nul_free name" and "nul_free mode'" and "nul_free name'"
    and "client_transcript v mode name sz p = client_transcript v' mode' name' sz' p'"
  shows "v = v' \<and> mode = mode' \<and> name = name' \<and> sz = sz' \<and> p = p'"
proof -
  have "v = v'" and t: "as_bytes mode @ [0] @ as_bytes name @ [0] @ le_bytes 8 sz @ p =
      as_bytes mode' @ [0] @ as_bytes name' @ [0] @ le_bytes 8 sz' @ p'"
    using assms(5) by (simp_all add: client_transcript_def)
  have "mode = mode'" and "as_bytes name @ [0] @ le_bytes 8 sz @ p = as_bytes name' @ [0] @ le_bytes 8 sz' @ p'"
    using t nul_terminated_eq [of "as_bytes mode" "as_bytes mode'"] assms(1,3) by (auto simp: nul_free_def)
  then show ?thesis
    using \<open>v = v'\<close> nul_terminated_eq [of "as_bytes name" "as_bytes name'"] assms(2,4)
    by (auto simp: nul_free_def)
qed

lemma server_transcript_inj:
  assumes "length cmac = length cmac'"
    and "server_transcript s p cmac = server_transcript s' p' cmac'"
  shows "s = s' \<and> p = p' \<and> cmac = cmac'"
proof -
  have "le_bytes 4 s = le_bytes 4 s'" "p @ cmac = p' @ cmac'"
    using assms(2) by (simp_all add: server_transcript_def append_eq_append_conv)
  then show ?thesis using assms(1) by (simp add: le_bytes_inj append_eq_append_conv)
qed

section \<open>Properties\<close>


text \<open>A collision-free MAC, for concrete instances: the key in a prefix code, then the
  message.\<close>

definition plain_mac :: mac_fun where
  "plain_mac k m = replicate (length k) 1 @ [0] @ k @ m"

lemma plain_mac_collision_free: "mac_collision_free plain_mac"
proof -
  have len: "length k = length k'" if "replicate (length k) 1 @ [0] @ r = replicate (length k') 1 @ [0] @ (r' :: byte list)"
    for k k' r r' :: "byte list"
  proof -
    have "takeWhile (\<lambda>b. b = 1) (replicate n 1 @ [0] @ (r :: byte list)) = replicate n 1" for n r
      by (induction n) auto
    then show ?thesis using that by (metis length_replicate)
  qed
  show ?thesis
    unfolding mac_collision_free_def
  proof (intro allI impI)
    fix k m k' m' assume eq: "plain_mac k m = plain_mac k' m'"
    then have "length k = length k'" using len [of k "k @ m" k' "k' @ m'"] by (simp add: plain_mac_def)
    then show "k = k' \<and> m = m'" using eq by (simp add: plain_mac_def)
  qed
qed


text \<open>Property C28: without that restriction the transcript is ambiguous: two requests with
  different names, sizes and ephemeral keys have the same client MAC under every MAC function
  and token, so a proof for one verifies for the other.\<close>

theorem client_mac_ambiguous_with_nul:
  "\<exists>name name' sz sz' p p'. name \<noteq> name' \<and> sz \<noteq> sz' \<and> p \<noteq> p' \<and> length p = 32 \<and>
     (\<forall>hmac token v mode. verify_client_mac hmac token v mode name' sz' p' (client_mac hmac token v mode name sz p))"
proof (intro exI conjI allI)
  let ?name = "''a''" and ?name' = "[CHR ''a'', CHR 0x00, CHR ''b'']"
  let ?p = "[7, 7] @ replicate 30 (9 :: byte)" and ?p' = "replicate 30 (9 :: byte)"
  let ?s = "[0x62, 0, 0, 0, 0, 0, 0, 0] :: byte list" and ?s' = "[0, 0, 0, 0, 0, 0, 7, 7] :: byte list"
  have s: "le_bytes 8 (le_word ?s :: i64) = ?s" "le_bytes 8 (le_word ?s' :: i64) = ?s'"
    by (rule le_bytes_le_word; simp)+
  have "as_bytes ?name @ [0] @ ?s @ ?p = as_bytes ?name' @ [0] @ ?s' @ ?p'"
    by (simp add: as_bytes_def)
  then have "client_transcript v mode ?name (le_word ?s) ?p = client_transcript v mode ?name' (le_word ?s') ?p'" for v mode
    unfolding client_transcript_def s by simp
  then show "verify_client_mac hmac token v mode ?name' (le_word ?s') ?p'
      (client_mac hmac token v mode ?name (le_word ?s) ?p)" for hmac token v mode
    by (simp only: verify_client_mac_def client_mac_def)
  show "(le_word ?s :: i64) \<noteq> le_word ?s'"
  proof
    assume "(le_word ?s :: i64) = le_word ?s'"
    then have "?s = ?s'" using s by metis
    then show False by simp
  qed
qed simp_all

end
