(* ===== verification/Control_Plane.thy ===== *)
theory Control_Plane
  imports Wire Rate_Control Block_IO
begin

text \<open>
  \<open>src/src/control.rs\<close>: the control messages \<open>Hello\<close> and \<open>Ack\<close>, their length-prefixed
  framing, the transfer parameters, and \<open>basename\<close>.

  A TCP stream is the list of bytes still to be read; reading gives the value and the bytes
  left. JSON encoding is the \<open>serde_json\<close> crate: \<open>ser\<close> and \<open>de\<close> are parameters of the
  framing. An \<open>i64\<close> field is an \<open>int\<close>, a \<open>u64\<close> or \<open>usize\<close> one a \<open>nat\<close>, a \<open>Duration\<close> its
  microseconds. Paths follow \<open>std::path\<close> on unix.
\<close>

section \<open>Messages\<close>

definition MODE_SEND :: string where "MODE_SEND = ''send''"
definition MODE_RECV :: string where "MODE_RECV = ''recv''"

record hello =
  h_version :: int
  h_mode :: string
  h_name :: string
  h_size :: int
  h_block_size :: int
  h_rate_bps :: nat
  h_max_bps :: nat
  h_adaptive :: bool
  h_alpha_bps :: nat
  h_crc32c :: u32
  h_warm_rate_bps :: nat
  h_warm_srtt_net_us :: nat
  h_warm_base_rtt_us :: nat
  h_encrypt :: bool
  h_ciphers :: "string list option"
  h_pub_key :: "byte list option"
  h_auth_mac :: "byte list option"

record ack =
  a_ok :: bool
  a_err :: string
  a_udp_port :: int
  a_session :: u32
  a_size :: int
  a_crc32c :: u32
  a_name :: string
  a_encrypt :: bool
  a_cipher :: string
  a_pub_key :: "byte list option"
  a_auth_required :: bool
  a_auth_mac :: "byte list option"

definition ack_default :: ack where
  "ack_default = \<lparr>a_ok = False, a_err = [], a_udp_port = 0, a_session = 0, a_size = 0, a_crc32c = 0,
     a_name = [], a_encrypt = False, a_cipher = [], a_pub_key = None, a_auth_required = False,
     a_auth_mac = None\<rparr>"

section \<open>Framing\<close>

definition write_json :: "('a \<Rightarrow> byte list option) \<Rightarrow> byte list \<Rightarrow> 'a \<Rightarrow> byte list io" where
  "write_json ser out v =
     (case ser v of
        None \<Rightarrow> Inl OtherIO
      | Some b \<Rightarrow> Inr (out @ le_bytes 4 (of_nat (length b) :: u32) @ b))"

definition read_exact :: "byte list \<Rightarrow> nat \<Rightarrow> (byte list \<times> byte list) io" where
  "read_exact inp n = (if length inp < n then Inl UnexpectedEof else Inr (take n inp, drop n inp))"

definition read_json :: "(byte list \<Rightarrow> 'a option) \<Rightarrow> byte list \<Rightarrow> ('a \<times> byte list) io" where
  "read_json de inp =
     (case read_exact inp 4 of
        Inl e \<Rightarrow> Inl e
      | Inr (lenbuf, inp) \<Rightarrow>
          let n = unat (le_word lenbuf :: u32)
          in if n > 2 ^ 20 then Inl OtherIO
             else case read_exact inp n of
                    Inl e \<Rightarrow> Inl e
                  | Inr (b, inp) \<Rightarrow> (case de b of None \<Rightarrow> Inl OtherIO | Some v \<Rightarrow> Inr (v, inp)))"

text \<open>A sequence of messages on one connection.\<close>

fun write_all_json :: "('a \<Rightarrow> byte list option) \<Rightarrow> byte list \<Rightarrow> 'a list \<Rightarrow> byte list io" where
  "write_all_json ser out [] = Inr out"
| "write_all_json ser out (v # vs) =
     (case write_json ser out v of Inl e \<Rightarrow> Inl e | Inr out' \<Rightarrow> write_all_json ser out' vs)"

fun read_all_json :: "(byte list \<Rightarrow> 'a option) \<Rightarrow> nat \<Rightarrow> byte list \<Rightarrow> ('a list \<times> byte list) io" where
  "read_all_json de 0 inp = Inr ([], inp)"
| "read_all_json de (Suc n) inp =
     (case read_json de inp of
        Inl e \<Rightarrow> Inl e
      | Inr (v, inp') \<Rightarrow>
          (case read_all_json de n inp' of Inl e \<Rightarrow> Inl e | Inr (vs, rest) \<Rightarrow> Inr (v # vs, rest)))"

lemma read_json_frame:
  assumes "length b \<le> 2 ^ 20"
  shows "read_json de (le_bytes 4 (of_nat (length b) :: u32) @ b @ rest) =
           (case de b of None \<Rightarrow> Inl OtherIO | Some v \<Rightarrow> Inr (v, rest))"
proof -
  have "unat (of_nat (length b) :: u32) = length b"
    using assms by (simp add: unat_of_nat)
  then show ?thesis using assms by (simp add: read_json_def read_exact_def)
qed

section \<open>Parameters\<close>

record transfer_params =
  tp_block_size :: nat
  tp_rate_bps :: nat
  tp_max_bps :: nat
  tp_adaptive :: bool
  tp_alpha_bps :: nat
  tp_read_workers :: nat
  tp_feedback_interval_us :: nat
  tp_net_tick_interval_us :: nat
  tp_report_interval :: nat
  tp_verbose :: bool
  tp_encrypt :: bool

definition default_params :: transfer_params where
  "default_params = \<lparr>tp_block_size = DEFAULT_BLOCK_SIZE, tp_rate_bps = 100000000, tp_max_bps = 10000000000,
     tp_adaptive = False, tp_alpha_bps = 30000000, tp_read_workers = 0, tp_feedback_interval_us = 5000,
     tp_net_tick_interval_us = 10000, tp_report_interval = 1000000, tp_verbose = False, tp_encrypt = False\<rparr>"

definition params_rate_config :: "transfer_params \<Rightarrow> nat \<Rightarrow> rate_config" where
  "params_rate_config p target =
     \<lparr>rc_mode = (if tp_adaptive p then Adaptive else Fixed), target_bps = target, min_bps = 0,
      max_bps = tp_max_bps p, alpha = f64_of_nat (tp_alpha_bps p)\<rparr>"

section \<open>Paths\<close>

fun split_on :: "char \<Rightarrow> string \<Rightarrow> string list" where
  "split_on sep [] = [[]]"
| "split_on sep (c # cs) =
     (if c = sep then [] # split_on sep cs
      else case split_on sep cs of [] \<Rightarrow> [[c]] | w # ws \<Rightarrow> (c # w) # ws)"

text \<open>The components of \<open>std::path::Path\<close> after normalisation, without the root and a leading
  \<open>.\<close>: empty parts and \<open>.\<close> are skipped, \<open>..\<close> is kept.\<close>

definition path_components :: "string \<Rightarrow> string list" where
  "path_components p = filter (\<lambda>c. c \<noteq> [] \<and> c \<noteq> ''.'') (split_on (CHR ''/'') p)"

definition file_name :: "string \<Rightarrow> string option" where
  "file_name p =
     (let cs = path_components p in if cs = [] \<or> last cs = ''..'' then None else Some (last cs))"

definition basename :: "string \<Rightarrow> string" where
  "basename p = (case file_name p of Some s \<Rightarrow> s | None \<Rightarrow> p)"

text \<open>\<open>Path::join\<close>.\<close>

definition path_join :: "string \<Rightarrow> string \<Rightarrow> string" where
  "path_join dir p =
     (if p \<noteq> [] \<and> hd p = CHR ''/'' then p
      else if dir = [] \<or> last dir = CHR ''/'' then dir @ p
      else dir @ ''/'' @ p)"

lemma split_on_nonempty [simp]: "split_on sep s \<noteq> []"
  by (induction s) (auto split: list.splits)

lemma split_on_no_sep: "sep \<notin> set s \<Longrightarrow> split_on sep s = [s]"
  by (induction s) auto

lemma split_on_append: "split_on sep (s @ sep # t) = split_on sep s @ split_on sep t"
  by (induction s) (auto split: list.splits)

lemma split_on_parts: "w \<in> set (split_on sep s) \<Longrightarrow> sep \<notin> set w"
proof (induction s arbitrary: w)
  case (Cons c cs)
  then show ?case by (cases "split_on sep cs") (auto split: if_splits)
qed simp

lemma path_components_join:
  assumes "CHR ''/'' \<notin> set p"
  shows "path_components (path_join dir p) = path_components dir @ path_components p"
proof -
  have p: "split_on (CHR ''/'') p = [p]" by (rule split_on_no_sep [OF assms])
  have h: "\<not> (p \<noteq> [] \<and> hd p = CHR ''/'')" using assms by (cases p) auto
  consider "dir = []" | d where "dir = d @ ''/''" | "dir \<noteq> []" "last dir \<noteq> CHR ''/''"
    by (metis append_butlast_last_id)
  then show ?thesis
  proof cases
    case 1
    then show ?thesis using h by (simp add: path_join_def path_components_def)
  next
    case 2
    then have j: "path_join dir p = d @ CHR ''/'' # p" using h by (auto simp: path_join_def)
    show ?thesis
      unfolding path_components_def j split_on_append p by (simp add: 2 split_on_append)
  next
    case 3
    then have j: "path_join dir p = dir @ CHR ''/'' # p" using h by (auto simp: path_join_def)
    show ?thesis unfolding path_components_def j split_on_append by simp
  qed
qed

lemma file_name_component:
  assumes "file_name p = Some s"
  shows "s \<noteq> []" and "s \<noteq> ''.''" and "s \<noteq> ''..''" and "CHR ''/'' \<notin> set s"
proof -
  have "path_components p \<noteq> []" "last (path_components p) = s" "s \<noteq> ''..''"
    using assms by (auto simp: file_name_def Let_def split: if_splits)
  then have "s \<in> set (path_components p)" "s \<noteq> ''..''" by auto
  then show "s \<noteq> []" "s \<noteq> ''.''" "s \<noteq> ''..''" "CHR ''/'' \<notin> set s"
    using split_on_parts by (auto simp: path_components_def)
qed

section \<open>Properties\<close>

text \<open>A sequence of control messages written to one connection, each of at most
  one mebibyte when encoded, is read back unchanged and in order, and leaves the bytes that
  follow it unread.\<close>

theorem control_stream_roundtrip:
  assumes "\<forall>v \<in> set vs. \<exists>b. ser v = Some b \<and> de b = Some v \<and> length b \<le> 2 ^ 20"
  shows "\<exists>frames. write_all_json ser out vs = Inr (out @ frames) \<and>
           read_all_json de (length vs) (frames @ rest) = Inr (vs, rest)"
  using assms
proof (induction vs arbitrary: out)
  case (Cons v vs)
  obtain b where b: "ser v = Some b" "de b = Some v" "length b \<le> 2 ^ 20" using Cons.prems by auto
  let ?f = "le_bytes 4 (of_nat (length b) :: u32) @ b"
  obtain fs where fs: "write_all_json ser (out @ ?f) vs = Inr ((out @ ?f) @ fs)"
      "read_all_json de (length vs) (fs @ rest) = Inr (vs, rest)"
    using Cons.IH [of "out @ ?f"] Cons.prems by auto
  have "write_all_json ser out (v # vs) = Inr (out @ ?f @ fs)"
    using b fs(1) by (simp add: write_json_def)
  moreover have "read_json de ((?f @ fs) @ rest) = Inr (v, fs @ rest)"
    using read_json_frame [OF b(3), of de "fs @ rest"] b(2) by simp
  then have "read_all_json de (length (v # vs)) ((?f @ fs) @ rest) = Inr (v # vs, rest)"
    using fs(2) by (simp del: append_assoc)
  ultimately show ?case by blast
qed simp

definition byte_ser :: "byte list \<Rightarrow> byte list option" where
  "byte_ser v = Some v"

theorem control_stream_roundtrip_witness:
  "\<exists>frames. write_all_json byte_ser [] [[1, 2], [], [3]] = Inr ([] @ frames) \<and>
     read_all_json byte_ser (length [[1, 2], [], [3 :: byte]]) (frames @ [9]) = Inr ([[1, 2], [], [3]], [9])"
  by (rule control_stream_roundtrip) (simp add: byte_ser_def)

text \<open>A frame that announces more than one mebibyte is refused before its body is
  read, and a message that is accepted consumed its header and at most that many bytes.\<close>

theorem control_message_bounded:
  "(unat (le_word (take 4 inp) :: u32) > 2 ^ 20 \<and> 4 \<le> length inp \<longrightarrow> read_json de inp = Inl OtherIO) \<and>
   (\<forall>v rest. read_json de inp = Inr (v, rest) \<longrightarrow>
      (\<exists>used. inp = used @ rest \<and> 4 \<le> length used \<and> length used \<le> 4 + 2 ^ 20))"
proof (intro conjI allI impI)
  fix v rest assume r: "read_json de inp = Inr (v, rest)"
  define n where "n = unat (le_word (take 4 inp) :: u32)"
  have "4 \<le> length inp" "n \<le> 2 ^ 20" "n \<le> length inp - 4" "rest = drop n (drop 4 inp)"
    using r by (auto simp: read_json_def read_exact_def Let_def simp flip: n_def
        split: if_splits option.splits)
  then show "\<exists>used. inp = used @ rest \<and> 4 \<le> length used \<and> length used \<le> 4 + 2 ^ 20"
    by (intro exI [of _ "take (4 + n) inp"]) (auto simp: add.commute)
qed (auto simp: read_json_def read_exact_def)

theorem control_message_bounded_witness:
  "read_json byte_ser [0, 0, 255, 255, 7] = Inl OtherIO \<and> read_json byte_ser [1, 0, 0, 0, 7, 8] = Inr ([7], [8])"
proof -
  have "read_json byte_ser [0, 0, 255, 255, 7] = Inl OtherIO"
    using control_message_bounded [of "[0, 0, 255, 255, 7]" byte_ser] by simp
  then show ?thesis by (simp add: read_json_def read_exact_def byte_ser_def)
qed

end
