(* ===== verification/Errors.thy ===== *)
theory Errors
  imports Block_IO "HOL-Library.Sublist"
begin

text \<open>
  \<open>src/src/error.rs\<close>: the classified transfer errors, their classification from a server's
  rejection text and from an \<open>io::Error\<close>, and \<open>is_retryable\<close>. An \<open>io::Error\<close> is its kind;
  its display text is the parameter \<open>io_text\<close>.
\<close>

datatype girth_error =
    Timeout
  | Stopped
  | AuthDenied
  | NotFound
  | VersionMismatch
  | Integrity
  | Protocol string
  | Io io_error

definition is_retryable :: "girth_error \<Rightarrow> bool" where
  "is_retryable e \<longleftrightarrow> (case e of Timeout \<Rightarrow> True | _ \<Rightarrow> False)"

text \<open>\<open>str::to_ascii_lowercase\<close> and \<open>str::contains\<close>.\<close>

definition ascii_lower :: "char \<Rightarrow> char" where
  "ascii_lower c = (if of_char c \<in> {65..90 :: nat} then char_of (of_char c + 32 :: nat) else c)"

definition to_ascii_lowercase :: "string \<Rightarrow> string" where
  "to_ascii_lowercase s = map ascii_lower s"

fun contains :: "string \<Rightarrow> string \<Rightarrow> bool" where
  "contains [] pat \<longleftrightarrow> pat = []"
| "contains (c # s) pat \<longleftrightarrow> prefix pat (c # s) \<or> contains s pat"

lemma contains_sublist: "contains s pat \<longleftrightarrow> sublist pat s"
  by (induction s) (auto simp: sublist_Cons_right)

definition from_server_err :: "string \<Rightarrow> girth_error" where
  "from_server_err msg =
     (let m = to_ascii_lowercase msg
      in if contains m ''version mismatch'' then VersionMismatch
         else if contains m ''auth'' \<or> contains m ''denied'' \<or> contains m ''unauthorized'' then AuthDenied
         else if contains m ''no such file'' \<or> contains m ''not found'' \<or> contains m ''notfound'' then NotFound
         else Protocol msg)"

definition display :: "(io_error \<Rightarrow> string) \<Rightarrow> girth_error \<Rightarrow> string" where
  "display io_text e =
     (case e of
        Timeout \<Rightarrow> ''transfer timed out''
      | Stopped \<Rightarrow> ''transfer cancelled''
      | AuthDenied \<Rightarrow> ''authentication denied''
      | NotFound \<Rightarrow> ''object not found''
      | VersionMismatch \<Rightarrow> ''protocol version mismatch''
      | Integrity \<Rightarrow> ''integrity check failed (crc32c mismatch)''
      | Protocol s \<Rightarrow> ''protocol error: '' @ s
      | Io ioe \<Rightarrow> ''io error: '' @ io_text ioe)"

definition from_io :: "io_error \<Rightarrow> girth_error" where
  "from_io e = (case e of TimedOut \<Rightarrow> Timeout | WouldBlock \<Rightarrow> Timeout | NoSuchFile \<Rightarrow> NotFound | _ \<Rightarrow> Io e)"

definition into_io :: "girth_error \<Rightarrow> io_error" where
  "into_io e = (case e of Io ioe \<Rightarrow> ioe | _ \<Rightarrow> OtherIO)"

lemma from_server_err_terminal: "\<not> is_retryable (from_server_err msg)"
  by (simp add: from_server_err_def is_retryable_def Let_def)

lemma lower_idem: "to_ascii_lowercase (to_ascii_lowercase s) = to_ascii_lowercase s"
proof -
  have "ascii_lower (ascii_lower c) = ascii_lower c" for c
    by (auto simp: ascii_lower_def)
  then show ?thesis by (simp add: to_ascii_lowercase_def)
qed

text \<open>Only time-outs are retryable. No rejection by the server is, whatever its
  text; an I/O error is exactly when it is a time-out of the system; and an error that went
  through \<open>io::Error\<close> and back keeps its class when it was an I/O error, and is never turned
  into a retryable one.\<close>

theorem retry_only_timeouts:
  "\<not> is_retryable (from_server_err msg) \<and>
   (is_retryable (from_io e) \<longleftrightarrow> e = TimedOut \<or> e = WouldBlock) \<and>
   from_io (into_io (from_io e)) = (if e \<in> {TimedOut, WouldBlock, NoSuchFile} then Io OtherIO else from_io e) \<and>
   (is_retryable (from_io (into_io g)) \<longleftrightarrow> g = Io TimedOut \<or> g = Io WouldBlock)"
proof (intro conjI)
  show "\<not> is_retryable (from_server_err msg)" by (rule from_server_err_terminal)
  show "is_retryable (from_io (into_io g)) \<longleftrightarrow> g = Io TimedOut \<or> g = Io WouldBlock"
    by (cases g) (auto simp: is_retryable_def from_io_def into_io_def split: io_error.splits)
qed (auto simp: is_retryable_def from_io_def into_io_def split: io_error.splits)

end
