(* ===== verification/Statistics.thy ===== *)
theory Statistics
  imports Float64
begin

text \<open>
  \<open>src/src/stats.rs\<close>: the shared counters and gauges (\<open>stats\<close>), the point-in-time copy
  handed to callers (\<open>stats_snapshot\<close>, \<open>snapshot\<close>), the rates between two copies, the
  reporter's poll (\<open>reporter_poll\<close>) and the lines it writes. An \<open>AtomicU64\<close> is a natural
  number below \<open>2 ^ 64\<close> and \<open>fetch_add\<close> wraps (\<open>fetch_add\<close>); a \<open>Duration\<close> and an \<open>Instant\<close>
  are natural numbers of nanoseconds. A formatted line is the sequence of its pieces
  (\<open>piece\<close>): literal text, and the values with the precision that the format string gives.
\<close>

definition fetch_add :: "nat \<Rightarrow> nat \<Rightarrow> nat" where
  "fetch_add n c = (c + n) mod 2 ^ 64"

definition sub_u64 :: "nat \<Rightarrow> nat \<Rightarrow> nat" where
  "sub_u64 a b = nat ((int a - int b) mod 2 ^ 64)"

definition as_secs_f64 :: "nat \<Rightarrow> real" where
  "as_secs_f64 d = fadd (f64_of_nat (d div 10 ^ 9)) (fdiv (f64_of_nat (d mod 10 ^ 9)) 1000000000)"

record stats =
  st_bytes_sent :: nat
  st_packets_sent :: nat
  st_retrans_sent :: nat
  st_bytes_recv :: nat
  st_packets_recv :: nat
  st_payload_recv :: nat
  st_dup_recv :: nat
  st_corrupt_recv :: nat
  st_nacks_sent :: nat
  st_nacks_recv :: nat
  st_blocks_written :: nat
  st_target_rate_bps :: nat
  st_srtt_path_us :: nat
  st_srtt_net_us :: nat
  st_base_rtt_us :: nat
  st_rto_us :: nat
  st_rex_queue_len :: int
  st_hi_contig :: nat
  st_total_bytes :: nat
  st_total_blocks :: nat
  st_block_size :: nat
  st_start :: nat

definition stats_new :: "nat \<Rightarrow> stats" where
  "stats_new now =
     \<lparr>st_bytes_sent = 0, st_packets_sent = 0, st_retrans_sent = 0, st_bytes_recv = 0,
      st_packets_recv = 0, st_payload_recv = 0, st_dup_recv = 0, st_corrupt_recv = 0,
      st_nacks_sent = 0, st_nacks_recv = 0, st_blocks_written = 0, st_target_rate_bps = 0,
      st_srtt_path_us = 0, st_srtt_net_us = 0, st_base_rtt_us = 0, st_rto_us = 0,
      st_rex_queue_len = 0, st_hi_contig = 0, st_total_bytes = 0, st_total_blocks = 0,
      st_block_size = 0, st_start = now\<rparr>"

definition elapsed :: "nat \<Rightarrow> stats \<Rightarrow> nat" where
  "elapsed now s = now - st_start s"

record stats_snapshot =
  sn_elapsed :: nat
  sn_total_bytes :: nat
  sn_total_blocks :: nat
  sn_block_size :: nat
  sn_bytes_sent :: nat
  sn_packets_sent :: nat
  sn_retrans_sent :: nat
  sn_bytes_recv :: nat
  sn_packets_recv :: nat
  sn_payload_recv :: nat
  sn_dup_recv :: nat
  sn_corrupt_recv :: nat
  sn_nacks_sent :: nat
  sn_nacks_recv :: nat
  sn_blocks_written :: nat
  sn_target_rate_bps :: nat
  sn_srtt_path_us :: nat
  sn_srtt_net_us :: nat
  sn_base_rtt_us :: nat
  sn_rto_us :: nat
  sn_rex_queue_len :: int
  sn_hi_contig :: nat
  sn_progress_bytes :: nat
  sn_progress_blocks :: nat
  sn_percent_complete :: real
  sn_retrans_percent :: real
  sn_duplicate_percent :: real
  sn_queue_delay_us :: nat
  sn_average_send_wire_mbps :: real
  sn_average_recv_wire_mbps :: real
  sn_average_recv_goodput_mbps :: real

definition mbps :: "nat \<Rightarrow> real \<Rightarrow> real" where
  "mbps delta_bytes dt = fdiv (fdiv (fmul (f64_of_nat delta_bytes) 8) 1000000) dt"

definition pct :: "nat \<Rightarrow> nat \<Rightarrow> real" where
  "pct a b = (if b = 0 then 0 else fmul (fdiv (f64_of_nat a) (f64_of_nat b)) 100)"

definition qdelay_ms :: "nat \<Rightarrow> nat \<Rightarrow> real" where
  "qdelay_ms srtt_net base = (if srtt_net < base then 0 else fdiv (f64_of_nat (srtt_net - base)) 1000)"

definition delta_secs :: "stats_snapshot \<Rightarrow> stats_snapshot \<Rightarrow> real" where
  "delta_secs cur prev =
     (if sn_elapsed prev \<le> sn_elapsed cur \<and> 0 < as_secs_f64 (sn_elapsed cur - sn_elapsed prev)
      then as_secs_f64 (sn_elapsed cur - sn_elapsed prev) else f64_lit (1 / 10 ^ 9))"

definition send_wire_mbps_since :: "stats_snapshot \<Rightarrow> stats_snapshot \<Rightarrow> real" where
  "send_wire_mbps_since cur prev = mbps (sn_bytes_sent cur - sn_bytes_sent prev) (delta_secs cur prev)"

definition recv_wire_mbps_since :: "stats_snapshot \<Rightarrow> stats_snapshot \<Rightarrow> real" where
  "recv_wire_mbps_since cur prev = mbps (sn_bytes_recv cur - sn_bytes_recv prev) (delta_secs cur prev)"

definition recv_goodput_mbps_since :: "stats_snapshot \<Rightarrow> stats_snapshot \<Rightarrow> real" where
  "recv_goodput_mbps_since cur prev =
     mbps (sn_payload_recv cur - sn_payload_recv prev) (delta_secs cur prev)"

definition saturating_mul :: "nat \<Rightarrow> nat \<Rightarrow> nat" where
  "saturating_mul a b = min (a * b) (2 ^ 64 - 1)"

definition snapshot :: "nat \<Rightarrow> stats \<Rightarrow> stats_snapshot" where
  "snapshot now s =
     (let el = elapsed now s;
          elapsed_secs = max (as_secs_f64 el) (f64_lit (1 / 10 ^ 9));
          total_bytes = st_total_bytes s;
          total_blocks = st_total_blocks s;
          block_size = st_block_size s;
          payload_recv = st_payload_recv s;
          progress_blocks = min (max (st_hi_contig s) (st_blocks_written s)) total_blocks;
          progress_bytes =
            (if 0 < payload_recv then min payload_recv total_bytes
             else if 0 < total_bytes \<and> 0 < block_size
             then min (saturating_mul progress_blocks block_size) total_bytes
             else 0);
          percent_complete =
            (if 0 < total_bytes then fmul (fdiv (f64_of_nat progress_bytes) (f64_of_nat total_bytes)) 100
             else if total_blocks = 0 then 100 else 0)
      in \<lparr>sn_elapsed = el, sn_total_bytes = total_bytes, sn_total_blocks = total_blocks,
          sn_block_size = block_size, sn_bytes_sent = st_bytes_sent s,
          sn_packets_sent = st_packets_sent s, sn_retrans_sent = st_retrans_sent s,
          sn_bytes_recv = st_bytes_recv s, sn_packets_recv = st_packets_recv s,
          sn_payload_recv = payload_recv, sn_dup_recv = st_dup_recv s,
          sn_corrupt_recv = st_corrupt_recv s, sn_nacks_sent = st_nacks_sent s,
          sn_nacks_recv = st_nacks_recv s, sn_blocks_written = st_blocks_written s,
          sn_target_rate_bps = st_target_rate_bps s, sn_srtt_path_us = st_srtt_path_us s,
          sn_srtt_net_us = st_srtt_net_us s, sn_base_rtt_us = st_base_rtt_us s,
          sn_rto_us = st_rto_us s, sn_rex_queue_len = st_rex_queue_len s,
          sn_hi_contig = st_hi_contig s, sn_progress_bytes = progress_bytes,
          sn_progress_blocks = progress_blocks, sn_percent_complete = percent_complete,
          sn_retrans_percent = pct (st_retrans_sent s) (st_packets_sent s),
          sn_duplicate_percent = pct (st_dup_recv s) (st_packets_recv s),
          sn_queue_delay_us = st_srtt_net_us s - st_base_rtt_us s,
          sn_average_send_wire_mbps = mbps (st_bytes_sent s) elapsed_secs,
          sn_average_recv_wire_mbps = mbps (st_bytes_recv s) elapsed_secs,
          sn_average_recv_goodput_mbps = mbps payload_recv elapsed_secs\<rparr>)"

section \<open>Human-readable sizes\<close>

function human_loop :: "nat \<Rightarrow> nat \<Rightarrow> nat \<Rightarrow> nat \<times> nat" where
  "human_loop dv ex n = (if n < 1024 then (dv, ex) else human_loop (dv * 1024 mod 2 ^ 64) (ex + 1) (n div 1024))"
  by auto
termination by (relation "measure (\<lambda>(dv, ex, n). n)") auto

declare human_loop.simps [simp del]

datatype piece = Lit string | Dec nat | DecI int | Decimal nat real

definition human_bytes :: "nat \<Rightarrow> piece list may_panic" where
  "human_bytes b =
     (if b < 1024 then Some [Dec b, Lit '' B'']
      else do {
        let (dv, ex) = human_loop 1024 0 (b div 1024);
        pre \<leftarrow> index_at ''KMGTPE'' ex;
        Some [Decimal 2 (fdiv (f64_of_nat b) (f64_of_nat dv)), Lit ('' '' @ [pre] @ ''iB'')]
      })"

section \<open>The reporter\<close>

record snap =
  sp_t :: nat
  sp_bytes_sent :: nat
  sp_bytes_recv :: nat
  sp_payload_recv :: nat

definition take_snap :: "nat \<Rightarrow> stats \<Rightarrow> snap" where
  "take_snap now s = \<lparr>sp_t = now, sp_bytes_sent = st_bytes_sent s, sp_bytes_recv = st_bytes_recv s,
                      sp_payload_recv = st_payload_recv s\<rparr>"

definition mega :: "nat \<Rightarrow> real" where "mega n = fdiv (f64_of_nat n) 1000000"
definition milli :: "nat \<Rightarrow> real" where "milli n = fdiv (f64_of_nat n) 1000"

definition format_line :: "nat \<Rightarrow> string \<Rightarrow> real \<Rightarrow> snap \<Rightarrow> snap \<Rightarrow> stats \<Rightarrow> piece list" where
  "format_line now role dt prev cur s =
     (let el = as_secs_f64 (elapsed now s)
      in if role = ''send'' then
           [Lit ''t='', Decimal 1 el,
            Lit '' role=send wire_mbps='', Decimal 1 (mbps (sub_u64 (sp_bytes_sent cur) (sp_bytes_sent prev)) dt),
            Lit '' target_mbps='', Decimal 1 (mega (st_target_rate_bps s)),
            Lit '' pkts='', Dec (st_packets_sent s), Lit '' retrans='', Dec (st_retrans_sent s),
            Lit '' nacks_in='', Dec (st_nacks_recv s), Lit '' rexq='', DecI (st_rex_queue_len s),
            Lit '' hicontig='', Dec (st_hi_contig s), Lit ''/'', Dec (st_total_blocks s)]
         else
           [Lit ''t='', Decimal 1 el,
            Lit '' role=recv wire_mbps='', Decimal 1 (mbps (sub_u64 (sp_bytes_recv cur) (sp_bytes_recv prev)) dt),
            Lit '' goodput_mbps='', Decimal 1 (mbps (sub_u64 (sp_payload_recv cur) (sp_payload_recv prev)) dt),
            Lit '' pkts='', Dec (st_packets_recv s), Lit '' dup='', Dec (st_dup_recv s),
            Lit ''('', Decimal 2 (pct (st_dup_recv s) (st_packets_recv s)),
            Lit ''%) corrupt='', Dec (st_corrupt_recv s), Lit '' nacks_out='', Dec (st_nacks_sent s),
            Lit '' losstab='', DecI (st_rex_queue_len s),
            Lit '' srtt_path_ms='', Decimal 1 (milli (st_srtt_path_us s)),
            Lit '' srtt_net_ms='', Decimal 1 (milli (st_srtt_net_us s)),
            Lit '' base_ms='', Decimal 1 (milli (st_base_rtt_us s)),
            Lit '' rto_ms='', Decimal 1 (milli (st_rto_us s)),
            Lit '' qdelay_ms='', Decimal 1 (qdelay_ms (st_srtt_net_us s) (st_base_rtt_us s)),
            Lit '' target_mbps='', Decimal 1 (mega (st_target_rate_bps s)),
            Lit '' hicontig='', Dec (st_hi_contig s), Lit ''/'', Dec (st_total_blocks s)])"

text \<open>One turn of the reporter's loop, after its sleep: stop, wait on, or write a line and
  remember the new copy. The clock readings of the turn are arguments.\<close>

record reporter =
  rp_prev :: snap
  rp_last :: nat

datatype report = Stop | Wait | Line "piece list"

definition reporter_poll :: "string \<Rightarrow> nat \<Rightarrow> bool \<Rightarrow> nat \<Rightarrow> stats \<Rightarrow> reporter \<Rightarrow> report \<times> reporter" where
  "reporter_poll role interval stop now s r =
     (if stop then (Stop, r)
      else if now - rp_last r < interval then (Wait, r)
      else let cur = take_snap now s;
               dt0 = as_secs_f64 (sp_t cur - sp_t (rp_prev r));
               dt = (if dt0 \<le> 0 then as_secs_f64 interval else dt0)
           in (Line (format_line now role dt (rp_prev r) cur s), \<lparr>rp_prev = cur, rp_last = now\<rparr>))"

definition summary :: "nat \<Rightarrow> string \<Rightarrow> stats \<Rightarrow> piece list may_panic" where
  "summary now role s = do {
     let el0 = as_secs_f64 (elapsed now s);
     let el = (if el0 \<le> 0 then f64_lit (1 / 10 ^ 9) else el0);
     total \<leftarrow> human_bytes (st_total_bytes s);
     Some (if role = ''send'' then
             Lit ''girth send complete: '' # total @
             [Lit '' in '', Decimal 2 el, Lit ''s (wire '', Decimal 1 (mbps (st_bytes_sent s) el),
              Lit '' Mbps) | pkts='', Dec (st_packets_sent s), Lit '' retrans='', Dec (st_retrans_sent s),
              Lit '' ('', Decimal 2 (pct (st_retrans_sent s) (st_packets_sent s)),
              Lit ''%) nacks_in='', Dec (st_nacks_recv s)]
           else
             Lit ''girth recv complete: '' # total @
             [Lit '' in '', Decimal 2 el, Lit ''s (goodput '', Decimal 1 (mbps (st_payload_recv s) el),
              Lit '' Mbps, wire '', Decimal 1 (mbps (st_bytes_recv s) el),
              Lit '' Mbps) | pkts='', Dec (st_packets_recv s), Lit '' dup='', Dec (st_dup_recv s),
              Lit '' ('', Decimal 2 (pct (st_dup_recv s) (st_packets_recv s)),
              Lit ''%) corrupt='', Dec (st_corrupt_recv s), Lit '' nacks_out='', Dec (st_nacks_sent s)])
   }"

section \<open>Laws\<close>

lemma f64_ratio_bounds:
  assumes "a \<le> b"
  shows "0 \<le> fmul (fdiv (f64_of_nat a) (f64_of_nat b)) 100 \<and> fmul (fdiv (f64_of_nat a) (f64_of_nat b)) 100 \<le> 100"
proof -
  have "f64_of_nat a / f64_of_nat b \<le> 1"
    using f64_of_nat_mono [OF assms]
    by (cases "f64_of_nat b = 0") (auto simp: divide_le_eq_1 less_le)
  then have "fdiv (f64_of_nat a) (f64_of_nat b) \<le> 1"
    unfolding fdiv_def using f64.rnd_int [of 1] by (intro f64.rnd_le_rep) simp_all
  moreover have "0 \<le> fdiv (f64_of_nat a) (f64_of_nat b)"
    unfolding fdiv_def by (intro f64.rnd_nonneg) simp
  ultimately show ?thesis
    unfolding fmul_def using f64.rnd_numeral [of "num.Bit0 (num.Bit0 (num.Bit1 (num.Bit0 (num.Bit0 (num.Bit1 num.One)))))"]
    by (auto intro!: f64.rnd_nonneg f64.rnd_le_rep)
qed

lemma human_loop_spec:
  assumes "n = b div dv" and "dv = 1024 ^ Suc ex" and "0 < n" and "b < 2 ^ 64" and "human_loop dv ex n = (d, e)"
  shows "d = 1024 ^ Suc e \<and> d \<le> b \<and> b < 1024 * d"
  using assms
proof (induction dv ex n rule: human_loop.induct)
  case (1 dv ex n)
  show ?case
  proof (cases "n < 1024")
    case True
    then have "d = dv" "e = ex" using "1.prems"(5) by (simp_all add: human_loop.simps)
    moreover have "dv \<le> b" using "1.prems"(1,3) by (simp add: div_greater_zero_iff)
    moreover have "b < 1024 * dv"
      using True "1.prems"(1,2) by (simp add: less_mult_imp_div_less div_less_iff_less_mult mult.commute)
    ultimately show ?thesis using "1.prems"(2) by simp
  next
    case False
    have le: "dv * 1024 \<le> b"
      using False "1.prems"(1,2) by (simp add: not_less less_eq_div_iff_mult_less_eq mult.commute)
    then have m: "dv * 1024 mod 2 ^ 64 = dv * 1024" using "1.prems"(4) by simp
    have n: "n div 1024 = b div (dv * 1024)" using "1.prems"(1) by (simp add: div_mult2_eq)
    have "human_loop (dv * 1024 mod 2 ^ 64) (ex + 1) (n div 1024) = (d, e)"
      using "1.prems"(5) False by (subst (asm) human_loop.simps) simp
    moreover have "0 < n div 1024" using False by (simp add: div_greater_zero_iff)
    moreover have "dv * 1024 = 1024 ^ Suc (ex + 1)" using "1.prems"(2) by simp
    ultimately show ?thesis using "1.IH" [OF False] "1.prems"(4) m n by metis
  qed
qed

lemma power_1024_bound: "1024 ^ Suc e \<le> b \<Longrightarrow> b < 2 ^ 64 \<Longrightarrow> e < 6" for b :: nat
proof (rule ccontr)
  assume a: "1024 ^ Suc e \<le> b" "b < 2 ^ 64" "\<not> e < 6"
  then have "(1024::nat) ^ 7 \<le> 1024 ^ Suc e" by (intro power_increasing) auto
  then show False using a by simp
qed

text \<open>The size shown to the user is well defined for every 64-bit size: the loop
  over the prefixes ends with the divisor \<open>1024 ^ (e + 1)\<close>, which has not wrapped, the table
  index is at most 5 so the indexing does not panic, and the size lies between one and 1024
  of the unit shown.\<close>

theorem human_bytes_total:
  assumes "b < 2 ^ 64"
  shows "human_bytes b = Some [Dec b, Lit '' B''] \<and> b < 1024 \<or>
         (\<exists>e < 6. human_bytes b =
              Some [Decimal 2 (fdiv (f64_of_nat b) (f64_of_nat (1024 ^ Suc e))),
                    Lit ('' '' @ [''KMGTPE'' ! e] @ ''iB'')] \<and>
            1024 ^ Suc e \<le> b \<and> b < 1024 ^ Suc (Suc e))"
proof (cases "b < 1024")
  case False
  obtain d e where l: "human_loop 1024 0 (b div 1024) = (d, e)" by (cases "human_loop 1024 0 (b div 1024)")
  have s: "d = 1024 ^ Suc e \<and> d \<le> b \<and> b < 1024 * d"
    using human_loop_spec [OF _ _ _ assms l] False by (simp add: div_greater_zero_iff)
  then have e: "e < 6" using power_1024_bound [of e b] assms by simp
  then have "index_at ''KMGTPE'' e = Some (''KMGTPE'' ! e)" by (intro index_in_range) simp
  then have "human_bytes b = Some [Decimal 2 (fdiv (f64_of_nat b) (f64_of_nat (1024 ^ Suc e))),
                    Lit ('' '' @ [''KMGTPE'' ! e] @ ''iB'')]"
    using False l s by (simp add: human_bytes_def)
  then show ?thesis using s e by auto
qed (simp add: human_bytes_def)

theorem human_bytes_total_witness:
  "human_bytes 1000 = Some [Dec 1000, Lit '' B'']"
  using human_bytes_total [of 1000] by (auto simp: human_bytes_def)

text \<open>A snapshot never reports more progress than there is to do, its percentage lies
  between 0 and 100 with every \<open>f64\<close> rounding taken into account, and it is exactly 100 once
  the counted payload, or the contiguous prefix, reaches the total.\<close>

theorem snapshot_progress_bounded:
  "sn_progress_bytes (snapshot now s) \<le> st_total_bytes s \<and>
   sn_progress_blocks (snapshot now s) \<le> st_total_blocks s \<and>
   0 \<le> sn_percent_complete (snapshot now s) \<and> sn_percent_complete (snapshot now s) \<le> 100 \<and>
   (st_total_bytes s \<le> st_payload_recv s \<and> 0 < st_total_bytes s \<and> st_total_bytes s < 2 ^ 53 \<longrightarrow>
      sn_percent_complete (snapshot now s) = 100)"
proof (intro conjI impI)
  show pb: "sn_progress_bytes (snapshot now s) \<le> st_total_bytes s"
    by (simp add: snapshot_def Let_def)
  show "sn_progress_blocks (snapshot now s) \<le> st_total_blocks s"
    by (simp add: snapshot_def Let_def)
  have pc: "sn_percent_complete (snapshot now s) =
      (if 0 < st_total_bytes s
       then fmul (fdiv (f64_of_nat (sn_progress_bytes (snapshot now s))) (f64_of_nat (st_total_bytes s))) 100
       else if st_total_blocks s = 0 then 100 else 0)"
    by (simp add: snapshot_def Let_def)
  show "0 \<le> sn_percent_complete (snapshot now s)" "sn_percent_complete (snapshot now s) \<le> 100"
    using f64_ratio_bounds [OF pb] by (simp_all add: pc)
  assume full: "st_total_bytes s \<le> st_payload_recv s \<and> 0 < st_total_bytes s \<and> st_total_bytes s < 2 ^ 53"
  then have "sn_progress_bytes (snapshot now s) = st_total_bytes s" by (simp add: snapshot_def Let_def)
  moreover have "f64_of_nat (st_total_bytes s) = real (st_total_bytes s)"
    using full by (intro f64_of_nat_exact) simp
  ultimately show "sn_percent_complete (snapshot now s) = 100"
    using full f64.rnd_int [of 1] f64.rnd_int [of 100] by (simp add: pc fmul_def fdiv_def)
qed

theorem snapshot_progress_bounded_witness:
  "sn_percent_complete (snapshot 5 ((stats_new 0)\<lparr>st_total_bytes := 10, st_payload_recv := 10\<rparr>)) = 100"
  using snapshot_progress_bounded [of 5 "(stats_new 0)\<lparr>st_total_bytes := 10, st_payload_recv := 10\<rparr>"]
  by simp

text \<open>Within one reporter, the deltas it shows are true differences: no subtraction wraps as
  long as the counters have not been reset.\<close>

lemma sub_u64_exact: "b \<le> a \<Longrightarrow> a < 2 ^ 64 \<Longrightarrow> sub_u64 a b = a - b"
  by (simp add: sub_u64_def nat_minus_as_int)

lemma reporter_waits_interval:
  "reporter_poll role interval stop now s r = (Line l, r') \<Longrightarrow>
     \<not> stop \<and> interval \<le> now - rp_last r \<and> rp_last r' = now \<and> rp_prev r' = take_snap now s"
  by (auto simp: reporter_poll_def Let_def split: if_splits)

end
