(* ===== verification/Transfer_Runtime.thy ===== *)
theory Transfer_Runtime
  imports Statistics
begin

text \<open>
  \<open>src/src/runtime.rs\<close>: the caller's handle on a running transfer. \<open>transfer_control\<close> holds the
  three atomics that the data plane polls (rate limit, pause, cancel), \<open>transfer_handle\<close> adds
  the statistics, the phase byte and the last error. Rates are natural numbers below
  \<open>2 ^ 64\<close>; the phase is the byte that the source stores.
\<close>

datatype transfer_phase = Queued | Connecting | Transferring | Verifying | Complete | Failed

definition as_u8 :: "transfer_phase \<Rightarrow> 8 word" where
  "as_u8 p = (case p of Queued \<Rightarrow> 0 | Connecting \<Rightarrow> 1 | Transferring \<Rightarrow> 2 | Verifying \<Rightarrow> 3
              | Complete \<Rightarrow> 4 | Failed \<Rightarrow> 5)"

definition from_u8 :: "8 word \<Rightarrow> transfer_phase" where
  "from_u8 v = (if v = 1 then Connecting else if v = 2 then Transferring else if v = 3 then Verifying
                else if v = 4 then Complete else if v = 5 then Failed else Queued)"

lemma from_as_u8 [simp]: "from_u8 (as_u8 p) = p"
  by (cases p) (simp_all add: from_u8_def as_u8_def)

definition PAUSED_RATE_BPS :: nat where "PAUSED_RATE_BPS = 1000000"

record transfer_control =
  tc_rate_limit_bps :: nat
  tc_paused :: bool
  tc_cancelled :: bool

definition control_new :: transfer_control where
  "control_new = \<lparr>tc_rate_limit_bps = 0, tc_paused = False, tc_cancelled = False\<rparr>"

definition set_rate_limit :: "nat option \<Rightarrow> transfer_control \<Rightarrow> transfer_control" where
  "set_rate_limit bps c = c\<lparr>tc_rate_limit_bps := (case bps of None \<Rightarrow> 0 | Some n \<Rightarrow> n)\<rparr>"

definition rate_limit_bps :: "transfer_control \<Rightarrow> nat option" where
  "rate_limit_bps c = (if tc_rate_limit_bps c = 0 then None else Some (tc_rate_limit_bps c))"

definition pause :: "transfer_control \<Rightarrow> transfer_control" where
  "pause c = c\<lparr>tc_paused := True\<rparr>"

definition resume :: "transfer_control \<Rightarrow> transfer_control" where
  "resume c = c\<lparr>tc_paused := False\<rparr>"

definition is_paused :: "transfer_control \<Rightarrow> bool" where
  "is_paused c = tc_paused c"

definition cancel :: "transfer_control \<Rightarrow> transfer_control" where
  "cancel c = c\<lparr>tc_cancelled := True\<rparr>"

definition is_cancelled :: "transfer_control \<Rightarrow> bool" where
  "is_cancelled c = tc_cancelled c"

definition effective_rate_bps :: "nat \<Rightarrow> transfer_control \<Rightarrow> nat" where
  "effective_rate_bps base c =
     (if is_paused c then min PAUSED_RATE_BPS (max base 1)
      else case rate_limit_bps c of Some limit \<Rightarrow> min base (max limit 1) | None \<Rightarrow> base)"

record transfer_handle =
  th_stats :: stats
  th_control :: transfer_control
  th_phase :: "8 word"
  th_last_error :: "string option"

definition handle_new :: "nat \<Rightarrow> transfer_handle" where
  "handle_new now = \<lparr>th_stats = stats_new now, th_control = control_new, th_phase = 0, th_last_error = None\<rparr>"

definition phase_of :: "transfer_handle \<Rightarrow> transfer_phase" where
  "phase_of h = from_u8 (th_phase h)"

definition set_phase :: "transfer_phase \<Rightarrow> transfer_handle \<Rightarrow> transfer_handle" where
  "set_phase p h =
     (let h = (if p \<noteq> Failed then h\<lparr>th_last_error := None\<rparr> else h)
      in h\<lparr>th_phase := as_u8 p\<rparr>)"

definition set_failed :: "string \<Rightarrow> transfer_handle \<Rightarrow> transfer_handle" where
  "set_failed err h = h\<lparr>th_last_error := Some err, th_phase := 5\<rparr>"

text \<open>The operations of the handle, and any sequence of them.\<close>

datatype handle_op =
    OpRateLimit "nat option" | OpPause | OpResume | OpCancel | OpPhase transfer_phase | OpFailed string

primrec handle_step :: "handle_op \<Rightarrow> transfer_handle \<Rightarrow> transfer_handle" where
  "handle_step (OpRateLimit bps) h = h\<lparr>th_control := set_rate_limit bps (th_control h)\<rparr>"
| "handle_step OpPause h = h\<lparr>th_control := pause (th_control h)\<rparr>"
| "handle_step OpResume h = h\<lparr>th_control := resume (th_control h)\<rparr>"
| "handle_step OpCancel h = h\<lparr>th_control := cancel (th_control h)\<rparr>"
| "handle_step (OpPhase p) h = set_phase p h"
| "handle_step (OpFailed err) h = set_failed err h"

lemmas control_defs = set_rate_limit_def rate_limit_bps_def pause_def resume_def is_paused_def
  cancel_def is_cancelled_def

definition handle_ok :: "transfer_handle \<Rightarrow> bool" where
  "handle_ok h \<longleftrightarrow> as_u8 (phase_of h) = th_phase h \<and> (th_last_error h \<noteq> None \<longrightarrow> phase_of h = Failed)"

lemma handle_step_ok: "handle_ok h \<Longrightarrow> handle_ok (handle_step op h)"
proof (cases op)
  case (OpPhase p)
  then show "handle_ok h \<Longrightarrow> ?thesis"
    by (cases "p = Failed") (simp_all add: handle_ok_def set_phase_def phase_of_def)
qed (auto simp: handle_ok_def set_failed_def phase_of_def as_u8_def from_u8_def)

lemma handle_run_ok: "handle_ok h \<Longrightarrow> handle_ok (fold handle_step ops h)"
  by (induction ops arbitrary: h) (simp_all add: handle_step_ok)

lemma handle_step_cancelled:
  "is_cancelled (th_control (handle_step op h)) \<longleftrightarrow> is_cancelled (th_control h) \<or> op = OpCancel"
  by (cases op) (simp_all add: control_defs set_phase_def set_failed_def)

lemma handle_run_cancelled:
  "is_cancelled (th_control (fold handle_step ops h)) \<longleftrightarrow> is_cancelled (th_control h) \<or> OpCancel \<in> set ops"
  by (induction ops arbitrary: h) (auto simp: handle_step_cancelled)

lemma handle_ok_new: "handle_ok (handle_new now)"
  by (simp add: handle_ok_def handle_new_def phase_of_def as_u8_def from_u8_def)

text \<open>Whatever sequence of calls a new handle has received, its phase byte is the
  code of a phase, an error text is visible only in the phase \<open>Failed\<close>, and the handle is
  cancelled exactly when one of the calls was \<open>cancel\<close> (no other call withdraws it).\<close>

theorem handle_coherent:
  "as_u8 (phase_of (fold handle_step ops (handle_new now))) = th_phase (fold handle_step ops (handle_new now)) \<and>
   (th_last_error (fold handle_step ops (handle_new now)) = None \<or>
    phase_of (fold handle_step ops (handle_new now)) = Failed) \<and>
   (is_cancelled (th_control (fold handle_step ops (handle_new now))) \<longleftrightarrow> OpCancel \<in> set ops)"
  using handle_run_ok [OF handle_ok_new, of ops now] handle_run_cancelled [of ops "handle_new now"]
  by (auto simp: handle_ok_def handle_new_def control_new_def is_cancelled_def)

text \<open>The effective rate: never above the base rate (nor zero for a positive base), never above
  the caller's limit, and at most \<open>PAUSED_RATE_BPS\<close> while paused.\<close>

lemma effective_rate_le: "0 < base \<Longrightarrow> effective_rate_bps base c \<le> base"
  by (auto simp: effective_rate_bps_def split: option.split)

lemma effective_rate_pos: "0 < base \<Longrightarrow> 0 < effective_rate_bps base c"
  by (auto simp: effective_rate_bps_def PAUSED_RATE_BPS_def split: option.split)

lemma effective_rate_limit:
  "rate_limit_bps c = Some l \<Longrightarrow> \<not> is_paused c \<Longrightarrow> effective_rate_bps base c \<le> l"
  by (auto simp: effective_rate_bps_def rate_limit_bps_def split: if_splits)

lemma effective_rate_paused: "is_paused c \<Longrightarrow> effective_rate_bps base c \<le> PAUSED_RATE_BPS"
  by (simp add: effective_rate_bps_def)

end
