(* ===== verification/Net_Batch.thy ===== *)
theory Net_Batch
  imports Block_IO Float64
begin

text \<open>
  The datagram backends of \<open>src/src/sys\<close>: the batched sender and receiver of \<open>linux.rs\<close>, the
  per-packet ones of \<open>portable.rs\<close>, and the helpers of \<open>mod.rs\<close> and \<open>util.rs\<close> that the data
  plane calls.

  The kernel is not under \<open>src/\<close>: what a system call answers is an argument. A run of
  \<open>sendmmsg\<close> consumes a list of answers (\<open>mm_answer\<close>) and is \<open>None\<close> while it still waits for
  one. A raw pointer and length queued by \<open>add\<close> is the datagram it points to. Socket addresses
  are laid out as in the Linux ABI on a little-endian machine.
\<close>

section \<open>Addresses\<close>

datatype ip_addr = Ip4 "byte list" | Ip6 "byte list"

datatype socket_addr = V4 "byte list" u16 | V6 "byte list" u16 u32 u32

fun addr_ip :: "socket_addr \<Rightarrow> ip_addr" where
  "addr_ip (V4 a p) = Ip4 a"
| "addr_ip (V6 a p f s) = Ip6 a"

definition is_timeout :: "io_error \<Rightarrow> bool" where
  "is_timeout e \<longleftrightarrow> e = WouldBlock \<or> e = TimedOut"

text \<open>\<open>sockaddr_storage\<close> is its bytes: family, port in network order, then the address (and for
  IPv6 the flow label before and the scope after it).\<close>

definition sockaddr_to_socketaddr :: "byte list \<Rightarrow> nat \<Rightarrow> socket_addr option" where
  "sockaddr_to_socketaddr ss len =
     (let family = unat (le_word (take 2 ss) :: u16);
          port = le_word (rev (take 2 (drop 2 ss)))
      in if family = 2 then
           (if len < 16 then None else Some (V4 (take 4 (drop 4 ss)) port))
         else if family = 10 then
           (if len < 28 then None
            else Some (V6 (take 16 (drop 8 ss)) port (le_word (take 4 (drop 4 ss))) (le_word (take 4 (drop 24 ss)))))
         else None)"

text \<open>What the kernel, and \<open>SockAddr::from\<close>, store for an address.\<close>

fun sockaddr_bytes :: "socket_addr \<Rightarrow> byte list" where
  "sockaddr_bytes (V4 a p) = le_bytes 2 (2 :: u16) @ rev (le_bytes 2 p) @ a @ replicate 8 0"
| "sockaddr_bytes (V6 a p f s) = le_bytes 2 (10 :: u16) @ rev (le_bytes 2 p) @ le_bytes 4 f @ a @ le_bytes 4 s"

fun addr_ok :: "socket_addr \<Rightarrow> bool" where
  "addr_ok (V4 a p) \<longleftrightarrow> length a = 4"
| "addr_ok (V6 a p f s) \<longleftrightarrow> length a = 16"

lemma sockaddr_roundtrip:
  "addr_ok a \<Longrightarrow> sockaddr_to_socketaddr (sockaddr_bytes a @ rest) (length (sockaddr_bytes a)) = Some a"
  by (cases a) (simp_all add: sockaddr_to_socketaddr_def Let_def)

section \<open>Batched sending\<close>

record linux_sender =
  ls_cap :: nat
  ls_n :: nat
  ls_iovs :: "byte list list"
  ls_bad :: bool

definition linux_sender_new :: "bool \<Rightarrow> nat \<Rightarrow> linux_sender" where
  "linux_sender_new no_batch cap_hint =
     (let cap = max cap_hint 8
      in \<lparr>ls_cap = cap, ls_n = 0, ls_iovs = replicate cap [], ls_bad = no_batch\<rparr>)"

definition linux_reset :: "linux_sender \<Rightarrow> linux_sender" where
  "linux_reset s = s\<lparr>ls_n := 0\<rparr>"

definition linux_add :: "byte list \<Rightarrow> linux_sender \<Rightarrow> linux_sender" where
  "linux_add p s =
     (if ls_n s \<ge> ls_cap s then s
      else s\<lparr>ls_iovs := (ls_iovs s)[ls_n s := p], ls_n := ls_n s + 1\<rparr>)"

datatype mm_answer = MMSent nat | MMInterrupted | MMFailed

text \<open>The loop over \<open>sendmmsg\<close>: \<open>done\<close> counts the datagrams handed over, \<open>wire\<close> lists them.\<close>

fun mm_loop :: "mm_answer list \<Rightarrow> byte list list \<Rightarrow> nat \<Rightarrow> byte list list \<Rightarrow> (nat \<times> byte list list \<times> bool) option"
where
  "mm_loop as q sent wire =
     (if sent < length q then
        (case as of
           [] \<Rightarrow> None
         | MMInterrupted # as' \<Rightarrow> mm_loop as' q sent wire
         | MMFailed # as' \<Rightarrow> Some (sent, wire, True)
         | MMSent r # as' \<Rightarrow>
             if r = 0 then Some (sent, wire, False)
             else mm_loop as' q (sent + r) (wire @ take r (drop sent q)))
      else Some (sent, wire, False))"

declare mm_loop.simps [simp del]

text \<open>One \<open>send_to\<close> per datagram: \<open>oks\<close> tells which calls succeed.\<close>

fun send_each :: "bool list \<Rightarrow> byte list list \<Rightarrow> nat" where
  "send_each oks [] = 0"
| "send_each [] (p # ps) = send_each [] ps"
| "send_each (k # oks) (p # ps) = (if k then 1 else 0) + send_each oks ps"

text \<open>\<open>flush\<close>: the count it returns, the datagrams handed to the kernel in order (by either kind
  of call), and the sender after it.\<close>

definition linux_flush ::
  "mm_answer list \<Rightarrow> bool list \<Rightarrow> linux_sender \<Rightarrow> (nat \<times> byte list list \<times> linux_sender) option"
where
  "linux_flush as oks s =
     (let n = ls_n s; q = take n (ls_iovs s)
      in if n = 0 then Some (0, [], s)
         else do {
           (sent, wire, failed) \<leftarrow> (if ls_bad s then Some (0, [], False) else mm_loop as q 0 []);
           let rest = drop sent q;
           Some (sent + send_each oks rest, wire @ rest, s\<lparr>ls_bad := ls_bad s \<or> failed\<rparr>)
         })"

record portable_sender =
  ps_cap :: nat
  ps_pkts :: "byte list list"

definition portable_sender_new :: "nat \<Rightarrow> portable_sender" where
  "portable_sender_new cap_hint = \<lparr>ps_cap = max cap_hint 8, ps_pkts = []\<rparr>"

definition portable_reset :: "portable_sender \<Rightarrow> portable_sender" where
  "portable_reset s = s\<lparr>ps_pkts := []\<rparr>"

definition portable_add :: "byte list \<Rightarrow> portable_sender \<Rightarrow> portable_sender" where
  "portable_add p s = (if length (ps_pkts s) \<ge> ps_cap s then s else s\<lparr>ps_pkts := ps_pkts s @ [p]\<rparr>)"

definition portable_flush :: "bool list \<Rightarrow> portable_sender \<Rightarrow> nat \<times> byte list list" where
  "portable_flush oks s = (send_each oks (ps_pkts s), ps_pkts s)"

text \<open>What both backends promise: an abstract batch is the list of the first \<open>cap\<close> datagrams
  added since the last reset.\<close>

locale batch_sender =
  fixes reset :: "'b \<Rightarrow> 'b"
    and add :: "byte list \<Rightarrow> 'b \<Rightarrow> 'b"
    and queued :: "'b \<Rightarrow> byte list list"
    and capacity :: "'b \<Rightarrow> nat"
    and wf :: "'b \<Rightarrow> bool"
  assumes wf_reset: "wf b \<Longrightarrow> wf (reset b) \<and> queued (reset b) = [] \<and> capacity (reset b) = capacity b"
    and wf_add: "wf b \<Longrightarrow> wf (add p b) \<and> capacity (add p b) = capacity b \<and>
          queued (add p b) = (if length (queued b) \<ge> capacity b then queued b else queued b @ [p])"
begin

lemma fold_add:
  "wf b \<Longrightarrow> length (queued b) + length ps \<le> capacity b \<Longrightarrow>
   wf (fold add ps b) \<and> capacity (fold add ps b) = capacity b \<and> queued (fold add ps b) = queued b @ ps"
proof (induction ps arbitrary: b)
  case (Cons p ps)
  then show ?case using wf_add [of b p] by (auto simp: Cons.IH)
qed simp

lemma batch_queued:
  "wf b \<Longrightarrow> length ps \<le> capacity b \<Longrightarrow>
   wf (fold add ps (reset b)) \<and> capacity (fold add ps (reset b)) = capacity b \<and>
   queued (fold add ps (reset b)) = ps"
  using wf_reset [of b] fold_add [of "reset b" ps] by auto

end

definition linux_queued :: "linux_sender \<Rightarrow> byte list list" where
  "linux_queued s = take (ls_n s) (ls_iovs s)"

definition linux_wf :: "linux_sender \<Rightarrow> bool" where
  "linux_wf s \<longleftrightarrow> length (ls_iovs s) = ls_cap s \<and> ls_n s \<le> ls_cap s"

interpretation linux_tx: batch_sender linux_reset linux_add linux_queued ls_cap linux_wf
  by unfold_locales
    (auto simp: linux_reset_def linux_add_def linux_queued_def linux_wf_def take_Suc_conv_app_nth)

interpretation portable_tx: batch_sender portable_reset portable_add ps_pkts ps_cap "\<lambda>s. True"
  by unfold_locales (auto simp: portable_reset_def portable_add_def)

lemma linux_new_wf: "linux_wf (linux_sender_new nb c)" "ls_cap (linux_sender_new nb c) = max c 8"
  by (simp_all add: linux_sender_new_def linux_wf_def Let_def)

text \<open>The answers the kernel may give to a call for \<open>m\<close> datagrams: at most \<open>m\<close> sent.\<close>

fun answers_fit :: "mm_answer list \<Rightarrow> nat \<Rightarrow> bool" where
  "answers_fit [] m \<longleftrightarrow> True"
| "answers_fit (MMSent r # as) m \<longleftrightarrow> r \<le> m \<and> answers_fit as (m - r)"
| "answers_fit (MMInterrupted # as) m \<longleftrightarrow> answers_fit as m"
| "answers_fit (MMFailed # as) m \<longleftrightarrow> answers_fit as m"

lemma mm_loop_hands_over:
  assumes "mm_loop as q sent wire = Some (sent', wire', failed)"
    and "answers_fit as (length q - sent)" and "sent \<le> length q" and "wire = take sent q"
  shows "sent' \<le> length q \<and> wire' = take sent' q"
  using assms
proof (induction as q sent wire rule: mm_loop.induct)
  case (1 as q sent wire)
  show ?case
  proof (cases "sent < length q")
    case False
    then show ?thesis using "1.prems" by (auto simp: mm_loop.simps)
  next
    case True
    show ?thesis
    proof (cases as)
      case (Cons a as')
      show ?thesis
      proof (cases a)
        case (MMSent r)
        show ?thesis
        proof (cases "r = 0")
          case False
          have r: "r \<le> length q - sent" using "1.prems"(2) Cons MMSent by simp
          have "mm_loop as' q (sent + r) (wire @ take r (drop sent q)) = Some (sent', wire', failed)"
            using "1.prems"(1) True Cons MMSent False by (subst (asm) mm_loop.simps) simp
          moreover have "wire @ take r (drop sent q) = take (sent + r) q" using "1.prems"(4) by (simp add: take_add)
          ultimately show ?thesis
            using "1.IH"(1) [OF True Cons MMSent False] "1.prems"(2,3) Cons MMSent r True by simp
        qed (use "1.prems" True Cons MMSent in \<open>auto simp: mm_loop.simps\<close>)
      next
        case MMInterrupted
        then have "mm_loop as' q sent wire = Some (sent', wire', failed)"
          using "1.prems"(1) True Cons by (subst (asm) mm_loop.simps) simp
        then show ?thesis using "1.IH"(2) [OF True Cons MMInterrupted] "1.prems" Cons MMInterrupted by simp
      qed (use "1.prems" True Cons in \<open>auto simp: mm_loop.simps\<close>)
    qed (use "1.prems" True in \<open>auto simp: mm_loop.simps\<close>)
  qed
qed

lemma mm_loop_ends:
  assumes "length q - sent \<le> length (filter (\<lambda>a. a \<noteq> MMInterrupted) as)"
  shows "\<exists>r. mm_loop as q sent wire = Some r"
  using assms
proof (induction as arbitrary: sent wire)
  case Nil
  then show ?case by (auto simp: mm_loop.simps)
next
  case (Cons a as)
  show ?case
    using Cons.prems Cons.IH by (subst mm_loop.simps) (auto split: mm_answer.split)
qed

text \<open>Property C40: the batched and the per-packet sender hand the same datagrams to the kernel.
  Whatever mixture of partial batches, interruptions and failures \<open>sendmmsg\<close> answers, a flush
  that ends has handed over every queued datagram exactly once and in order, as the portable
  backend does; and it ends as soon as the kernel has given as many answers other than
  \<open>EINTR\<close> as there are datagrams.\<close>

theorem flush_hands_over_all:
  assumes "length ps \<le> ls_cap s" and "linux_wf s" and "length ps \<le> ps_cap t"
    and "answers_fit as (length ps)" and "length ps \<le> length (filter (\<lambda>a. a \<noteq> MMInterrupted) as)"
  shows "\<exists>n s'. linux_flush as oks (fold linux_add ps (linux_reset s)) = Some (n, ps, s') \<and>
           snd (portable_flush oks' (fold portable_add ps (portable_reset t))) = ps"
proof -
  define b where "b = fold linux_add ps (linux_reset s)"
  have b: "linux_wf b" "linux_queued b = ps" using linux_tx.batch_queued [OF assms(2,1)] by (auto simp: b_def)
  then have n: "ls_n b = length ps" "take (ls_n b) (ls_iovs b) = ps"
    by (auto simp: linux_queued_def linux_wf_def)
  obtain sent wire failed where l: "mm_loop as ps 0 [] = Some (sent, wire, failed)"
    using mm_loop_ends [of ps 0 as "[]"] assms(5) by auto
  have w: "sent \<le> length ps \<and> wire = take sent ps"
    using mm_loop_hands_over [OF l] assms(4) by simp
  have "\<exists>n s'. linux_flush as oks b = Some (n, ps, s')"
    using l w n by (cases "ls_bad b") (auto simp: linux_flush_def Let_def)
  moreover have "ps_pkts (fold portable_add ps (portable_reset t)) = ps"
    using portable_tx.batch_queued [of ps t] assms(3) by simp
  ultimately show ?thesis by (simp add: portable_flush_def b_def)
qed

theorem flush_hands_over_all_witness:
  "\<exists>n s'. linux_flush [MMSent 1, MMInterrupted, MMFailed, MMFailed] [True]
       (fold linux_add [[1], [2, 3]] (linux_reset (linux_sender_new False 4))) = Some (n, [[1], [2, 3]], s') \<and>
     snd (portable_flush [] (fold portable_add [[1], [2, 3]] (portable_reset (portable_sender_new 4)))) = [[1], [2, 3]]"
  by (rule flush_hands_over_all) (simp_all add: linux_new_wf portable_sender_new_def)

section \<open>Batched receiving\<close>

text \<open>Slot \<open>i\<close> of the buffer area is \<open>[i * buf_len, (i + 1) * buf_len)\<close>.\<close>

record linux_receiver =
  lr_cap :: nat
  lr_buf_len :: nat
  lr_bufs :: "byte list"
  lr_lens :: "nat list"
  lr_addrs :: "byte list list"
  lr_namelens :: "nat list"
  lr_bad :: bool

definition linux_receiver_new :: "bool \<Rightarrow> nat \<Rightarrow> nat \<Rightarrow> linux_receiver" where
  "linux_receiver_new no_batch cap buf_len =
     \<lparr>lr_cap = cap, lr_buf_len = buf_len, lr_bufs = replicate (cap * buf_len) 0, lr_lens = replicate cap 0,
      lr_addrs = replicate cap (replicate 128 0), lr_namelens = replicate cap 128, lr_bad = no_batch\<rparr>"

text \<open>The kernel's store of one datagram into slot \<open>i\<close>: at most \<open>buf_len\<close> bytes of it, its
  stored length, and the source address.\<close>

definition put_slot :: "nat \<Rightarrow> byte list \<Rightarrow> socket_addr \<Rightarrow> linux_receiver \<Rightarrow> linux_receiver" where
  "put_slot i d a r =
     r\<lparr>lr_bufs := overwrite (lr_bufs r) (i * lr_buf_len r) (take (lr_buf_len r) d),
       lr_lens := (lr_lens r)[i := min (length d) (lr_buf_len r)],
       lr_addrs := (lr_addrs r)[i := overwrite (lr_addrs r ! i) 0 (sockaddr_bytes a)],
       lr_namelens := (lr_namelens r)[i := length (sockaddr_bytes a)]\<rparr>"

fun kernel_fill :: "nat \<Rightarrow> (byte list \<times> socket_addr) list \<Rightarrow> linux_receiver \<Rightarrow> linux_receiver" where
  "kernel_fill i [] r = r"
| "kernel_fill i ((d, a) # ds) r = kernel_fill (Suc i) ds (put_slot i d a r)"

datatype rm_answer =
    RMGot "(byte list \<times> socket_addr) list"
  | RMInterrupted
  | RMNoSys
  | RMFailed io_error

definition recv_one :: "io_error + (byte list \<times> socket_addr) \<Rightarrow> linux_receiver \<Rightarrow> (nat \<times> linux_receiver) io" where
  "recv_one one r = (case one of Inl e \<Rightarrow> Inl e | Inr (d, a) \<Rightarrow> Inr (1, put_slot 0 d a r))"

fun recv_loop ::
  "rm_answer list \<Rightarrow> io_error + (byte list \<times> socket_addr) \<Rightarrow> linux_receiver \<Rightarrow> (nat \<times> linux_receiver) io option"
where
  "recv_loop [] one r = None"
| "recv_loop (RMInterrupted # as) one r = recv_loop as one r"
| "recv_loop (RMNoSys # as) one r = Some (recv_one one (r\<lparr>lr_bad := True\<rparr>))"
| "recv_loop (RMFailed e # as) one r = Some (Inl e)"
| "recv_loop (RMGot ds # as) one r = Some (Inr (length ds, kernel_fill 0 ds r))"

definition linux_recv ::
  "rm_answer list \<Rightarrow> io_error + (byte list \<times> socket_addr) \<Rightarrow> linux_receiver \<Rightarrow> (nat \<times> linux_receiver) io option"
where
  "linux_recv as one r =
     (if lr_bad r then Some (recv_one one r)
      else recv_loop as one
             (r\<lparr>lr_lens := replicate (lr_cap r) 0, lr_namelens := replicate (lr_cap r) 128\<rparr>))"

definition message_mut :: "nat \<Rightarrow> linux_receiver \<Rightarrow> (byte list \<times> socket_addr option) may_panic" where
  "message_mut i r = do {
     n \<leftarrow> index_at (lr_lens r) i;
     namelen \<leftarrow> index_at (lr_namelens r) i;
     ss \<leftarrow> index_at (lr_addrs r) i;
     let off = i * lr_buf_len r;
     data \<leftarrow> subslice (lr_bufs r) off (off + min n (lr_buf_len r));
     Some (data, sockaddr_to_socketaddr ss namelen)
   }"

record portable_receiver =
  pr_buf_len :: nat
  pr_buf :: "byte list"
  pr_len :: nat
  pr_addr :: "socket_addr option"

definition portable_receiver_new :: "nat \<Rightarrow> portable_receiver" where
  "portable_receiver_new buf_len = \<lparr>pr_buf_len = buf_len, pr_buf = replicate buf_len 0, pr_len = 0, pr_addr = None\<rparr>"

definition portable_recv :: "io_error + (byte list \<times> socket_addr) \<Rightarrow> portable_receiver \<Rightarrow> (nat \<times> portable_receiver) io" where
  "portable_recv one r =
     (case one of
        Inl e \<Rightarrow> Inl e
      | Inr (d, a) \<Rightarrow>
          let d' = take (pr_buf_len r) d
          in Inr (1, r\<lparr>pr_buf := overwrite (pr_buf r) 0 d', pr_len := min (length d') (pr_buf_len r), pr_addr := Some a\<rparr>))"

definition portable_message_mut :: "portable_receiver \<Rightarrow> (byte list \<times> socket_addr option) may_panic" where
  "portable_message_mut r = do { data \<leftarrow> subslice (pr_buf r) 0 (pr_len r); Some (data, pr_addr r) }"

definition receiver_wf :: "linux_receiver \<Rightarrow> bool" where
  "receiver_wf r \<longleftrightarrow> length (lr_bufs r) = lr_cap r * lr_buf_len r \<and> length (lr_lens r) = lr_cap r \<and>
     length (lr_addrs r) = lr_cap r \<and> length (lr_namelens r) = lr_cap r \<and> (\<forall>ss \<in> set (lr_addrs r). length ss = 128)"

lemma receiver_new_wf: "receiver_wf (linux_receiver_new nb cap bl)"
  by (simp add: receiver_wf_def linux_receiver_new_def)

lemma sockaddr_bytes_len: "addr_ok a \<Longrightarrow> length (sockaddr_bytes a) \<le> 28"
  by (cases a) simp_all

lemma slot_in_bufs: "i < cap \<Longrightarrow> n \<le> bl \<Longrightarrow> i * bl + n \<le> cap * bl" for i cap bl n :: nat
  by (metis add_le_cancel_left le_trans mult_Suc mult_le_mono1 Suc_leI add.commute)

lemma put_slot_wf:
  assumes "receiver_wf r" and "i < lr_cap r" and "addr_ok a"
  shows "receiver_wf (put_slot i d a r)"
proof -
  have "i * lr_buf_len r + length (take (lr_buf_len r) d) \<le> length (lr_bufs r)"
    using assms slot_in_bufs by (simp add: receiver_wf_def)
  moreover have "length (lr_addrs r ! i) = 128" using assms by (simp add: receiver_wf_def)
  ultimately show ?thesis
    using assms sockaddr_bytes_len [OF assms(3)]
    by (auto simp: receiver_wf_def put_slot_def dest!: subsetD [OF set_update_subset_insert])
qed

lemma slots_disjoint: "i \<noteq> j \<Longrightarrow> i * bl + bl \<le> j * bl \<or> j * bl + bl \<le> i * bl" for i j bl :: nat
  by (metis add.commute mult_Suc mult_le_mono1 Suc_leI linorder_neqE_nat)

lemma subslice_overwrite_other:
  assumes "off + length b \<le> length xs" and "off + length b \<le> lo \<or> hi \<le> off" and "lo \<le> hi"
  shows "subslice (overwrite xs off b) lo hi = subslice xs lo hi"
proof (cases "hi \<le> length xs")
  case True
  have "take (hi - lo) (drop lo (overwrite xs off b)) = take (hi - lo) (drop lo xs)"
    using assms True by (intro nth_equalityI) (auto simp: nth_overwrite)
  then show ?thesis using assms True by (simp add: subslice_def)
qed (use assms in \<open>simp add: subslice_def\<close>)

lemma message_put_slot_same:
  assumes "receiver_wf r" and "i < lr_cap r" and "addr_ok a"
  shows "message_mut i (put_slot i d a r) = Some (take (lr_buf_len r) d, Some a)"
proof -
  have fit: "i * lr_buf_len r + length (take (lr_buf_len r) d) \<le> length (lr_bufs r)"
    using assms slot_in_bufs by (simp add: receiver_wf_def)
  then have "subslice (overwrite (lr_bufs r) (i * lr_buf_len r) (take (lr_buf_len r) d)) (i * lr_buf_len r)
      (i * lr_buf_len r + min (min (length d) (lr_buf_len r)) (lr_buf_len r)) = Some (take (lr_buf_len r) d)"
    by (simp add: subslice_def overwrite_def) (simp add: min_def)
  moreover have "sockaddr_to_socketaddr (overwrite (lr_addrs r ! i) 0 (sockaddr_bytes a)) (length (sockaddr_bytes a)) = Some a"
    using sockaddr_roundtrip [OF assms(3)] by (simp add: overwrite_def)
  ultimately show ?thesis
    using assms(1,2) by (simp add: message_mut_def put_slot_def receiver_wf_def index_in_range Let_def)
qed

lemma message_put_slot_other:
  assumes "receiver_wf r" and "i < lr_cap r" and "j \<noteq> i"
  shows "message_mut j (put_slot i d a r) = message_mut j r"
proof -
  let ?bl = "lr_buf_len r"
  have fit: "i * ?bl + length (take ?bl d) \<le> length (lr_bufs r)"
    using assms slot_in_bufs by (simp add: receiver_wf_def)
  have "subslice (overwrite (lr_bufs r) (i * ?bl) (take ?bl d)) (j * ?bl) (j * ?bl + min n ?bl) =
      subslice (lr_bufs r) (j * ?bl) (j * ?bl + min n ?bl)" for n
    using slots_disjoint [OF assms(3), of ?bl] by (intro subslice_overwrite_other [OF fit]) auto
  then show ?thesis using assms(3) by (simp add: message_mut_def put_slot_def index_at_def Let_def)
qed

lemma put_slot_geometry [simp]: "lr_cap (put_slot i d a r) = lr_cap r" "lr_buf_len (put_slot i d a r) = lr_buf_len r"
  by (simp_all add: put_slot_def)

lemma kernel_fill_messages:
  assumes "receiver_wf r" and "i + length ds \<le> lr_cap r" and "\<forall>(d, a) \<in> set ds. addr_ok a"
  shows "(\<forall>j < length ds. message_mut (i + j) (kernel_fill i ds r) =
           Some (take (lr_buf_len r) (fst (ds ! j)), Some (snd (ds ! j)))) \<and>
         (\<forall>j < i. message_mut j (kernel_fill i ds r) = message_mut j r)"
  using assms
proof (induction ds arbitrary: i r)
  case (Cons p ds)
  obtain d a where p: "p = (d, a)" by (cases p)
  have i: "i < lr_cap r" and a: "addr_ok a" using Cons.prems p by auto
  have wf: "receiver_wf (put_slot i d a r)" by (rule put_slot_wf [OF Cons.prems(1) i a])
  have IH: "(\<forall>j < length ds. message_mut (Suc i + j) (kernel_fill (Suc i) ds (put_slot i d a r)) =
        Some (take (lr_buf_len r) (fst (ds ! j)), Some (snd (ds ! j)))) \<and>
      (\<forall>j < Suc i. message_mut j (kernel_fill (Suc i) ds (put_slot i d a r)) = message_mut j (put_slot i d a r))"
    using Cons.IH [OF wf, of "Suc i"] Cons.prems by simp
  then have here: "message_mut i (kernel_fill (Suc i) ds (put_slot i d a r)) = Some (take (lr_buf_len r) d, Some a)"
    using message_put_slot_same [OF Cons.prems(1) i a] by simp
  have "message_mut j (kernel_fill (Suc i) ds (put_slot i d a r)) = message_mut j r" if "j < i" for j
    using IH message_put_slot_other [OF Cons.prems(1) i, of j] that by simp
  moreover have "message_mut (i + j) (kernel_fill (Suc i) ds (put_slot i d a r)) =
      Some (take (lr_buf_len r) (fst ((p # ds) ! j)), Some (snd ((p # ds) ! j)))" if "j < length (p # ds)" for j
    using here IH that p by (cases j) auto
  ultimately show ?case using p by simp
qed simp

lemma recv_loop_interrupted: "recv_loop (replicate k RMInterrupted @ as) one r = recv_loop as one r"
  by (induction k) simp_all

text \<open>The batched receiver delivers what the kernel stored. After any number of
  interrupted calls, a receive that obtained the datagrams \<open>ds\<close> reports their number, and
  each of them, cut at the slot size, is read back from its own slot with its source address:
  no slot overlaps another and nothing of an earlier batch shows through.\<close>

theorem recv_delivers_each:
  assumes "receiver_wf r" and "\<not> lr_bad r" and "length ds \<le> lr_cap r" and "\<forall>(d, a) \<in> set ds. addr_ok a"
  shows "\<exists>r'. linux_recv (replicate k RMInterrupted @ RMGot ds # as) one r = Some (Inr (length ds, r')) \<and>
           (\<forall>i < length ds. message_mut i r' = Some (take (lr_buf_len r) (fst (ds ! i)), Some (snd (ds ! i))))"
proof -
  define r0 where "r0 = r\<lparr>lr_lens := replicate (lr_cap r) 0, lr_namelens := replicate (lr_cap r) 128\<rparr>"
  have "receiver_wf r0" "lr_cap r0 = lr_cap r" "lr_buf_len r0 = lr_buf_len r"
    using assms(1) by (auto simp: r0_def receiver_wf_def)
  moreover have "linux_recv (replicate k RMInterrupted @ RMGot ds # as) one r =
      Some (Inr (length ds, kernel_fill 0 ds r0))"
    using assms(2) by (simp add: linux_recv_def recv_loop_interrupted r0_def)
  ultimately show ?thesis using kernel_fill_messages [of r0 0 ds] assms(3,4) by simp
qed

theorem recv_delivers_each_witness:
  "\<exists>r'. linux_recv (replicate 2 RMInterrupted @ RMGot [([1, 2, 3], V4 [127, 0, 0, 1] 7400), ([4], V4 [10, 0, 0, 9] 5)] # [])
       (Inl TimedOut) (linux_receiver_new False 4 2) = Some (Inr (2, r')) \<and>
     message_mut 0 r' = Some ([1, 2], Some (V4 [127, 0, 0, 1] 7400)) \<and>
     message_mut 1 r' = Some ([4], Some (V4 [10, 0, 0, 9] 5))"
proof -
  let ?ds = "[([1, 2, 3], V4 [127, 0, 0, 1] 7400), ([4], V4 [10, 0, 0, 9] 5)] :: (byte list \<times> socket_addr) list"
  have "\<exists>r'. linux_recv (replicate 2 RMInterrupted @ RMGot ?ds # []) (Inl TimedOut) (linux_receiver_new False 4 2) =
      Some (Inr (length ?ds, r')) \<and>
    (\<forall>i < length ?ds. message_mut i r' =
       Some (take (lr_buf_len (linux_receiver_new False 4 2)) (fst (?ds ! i)), Some (snd (?ds ! i))))"
    by (rule recv_delivers_each [OF receiver_new_wf]) (simp_all add: linux_receiver_new_def)
  then show ?thesis by (auto simp: linux_receiver_new_def numeral_2_eq_2 All_less_Suc)
qed

section \<open>The pacing sleep\<close>

text \<open>\<open>precise_sleep_us\<close>: how long it sleeps and the deadline until which it then spins.\<close>

definition SPIN_THRESHOLD_US :: real where "SPIN_THRESHOLD_US = 150"

definition precise_sleep_us :: "nat \<Rightarrow> real \<Rightarrow> (nat \<times> nat) option" where
  "precise_sleep_us now us =
     (if us \<le> 0 then None
      else let spin0 = fmul us (f64_lit (5 / 100));
               spin = (if spin0 > SPIN_THRESHOLD_US then SPIN_THRESHOLD_US else spin0);
               deadline = now + as_u64 us
           in Some (if us > spin then as_u64 (fsub us spin) else 0, deadline))"

lemma precise_sleep_before_deadline:
  assumes "precise_sleep_us now us = Some (sleep, deadline)" and "f64_round us = us"
  shows "now + sleep \<le> deadline"
proof -
  let ?spin0 = "fmul us (f64_lit (5 / 100))"
  let ?spin = "if ?spin0 > SPIN_THRESHOLD_US then SPIN_THRESHOLD_US else ?spin0"
  have us: "0 < us" using assms(1) by (simp add: precise_sleep_us_def split: if_splits)
  have "0 \<le> ?spin"
    using us by (auto simp: SPIN_THRESHOLD_US_def fmul_def f64_lit_def intro!: f64.rnd_nonneg mult_nonneg_nonneg)
  then have "fsub us ?spin \<le> us" using assms(2) by (auto simp: fsub_def intro!: f64.rnd_le_rep)
  then show ?thesis
    using assms(1) us as_u64_mono [of "fsub us ?spin" us]
    by (auto simp: precise_sleep_us_def Let_def split: if_splits)
qed

end
