(* ===== verification/Data_Pdu.thy ===== *)
theory Data_Pdu
  imports Wire Data_Crypto Transfer_Runtime
begin

text \<open>
  What the two data planes share: the small helpers that \<open>sender.rs\<close> and \<open>receiver.rs\<close> both
  define, and the contract between them, \<open>data_pdu\<close>: which datagrams carry a given block.
\<close>

definition should_stop :: "bool \<Rightarrow> transfer_control option \<Rightarrow> bool" where
  "should_stop stop control \<longleftrightarrow> stop \<or> (case control of Some c \<Rightarrow> is_cancelled c | None \<Rightarrow> False)"

definition control_paused :: "transfer_control option \<Rightarrow> bool" where
  "control_paused control \<longleftrightarrow> (case control of Some c \<Rightarrow> is_paused c | None \<Rightarrow> False)"

definition effective_rate :: "transfer_control option \<Rightarrow> nat \<Rightarrow> nat" where
  "effective_rate control rate = (case control of None \<Rightarrow> rate | Some c \<Rightarrow> effective_rate_bps rate c)"

text \<open>\<open>data_pdu crc dec crypto session rex p seq payload\<close>: the datagram \<open>p\<close> is a DATA datagram of
  the session for block \<open>seq\<close> that carries \<open>payload\<close>, in the clear with its checksum or sealed
  under the block's nonce; \<open>rex\<close> tells whether it is marked as a retransmission.\<close>

definition data_body :: "(byte list \<Rightarrow> u32) \<Rightarrow> dec_fun \<Rightarrow> aead_box option \<Rightarrow> data_header \<Rightarrow> byte list \<Rightarrow> byte list \<Rightarrow> bool" where
  "data_body crc dec crypto h body payload \<longleftrightarrow>
     (case crypto of
        None \<Rightarrow> body = payload \<and> dh_payload_crc h = crc payload
      | Some c \<Rightarrow> \<exists>ct tag. body = ct @ tag \<and> length ct = length payload \<and> length tag = AEAD_TAG_LEN \<and>
                    dec c (block_nonce (dh_block_seq h)) ct tag = Some payload)"

definition data_pdu ::
  "(byte list \<Rightarrow> u32) \<Rightarrow> dec_fun \<Rightarrow> aead_box option \<Rightarrow> u32 \<Rightarrow> bool \<Rightarrow> byte list \<Rightarrow> u64 \<Rightarrow> byte list \<Rightarrow> bool" where
  "data_pdu crc dec crypto session rex p seq payload \<longleftrightarrow>
     (\<exists>h body. p = data_header_bytes h @ body \<and> dh_session h = session \<and> dh_block_seq h = seq \<and>
        length payload < 2 ^ 16 \<and> dh_payload_len h = of_nat (length payload) \<and>
        (dh_flags h AND FLAG_RETRANSMIT \<noteq> 0 \<longleftrightarrow> rex) \<and> data_body crc dec crypto h body payload)"

lemma data_body_update:
  "dh_payload_crc h' = dh_payload_crc h \<Longrightarrow> dh_block_seq h' = dh_block_seq h \<Longrightarrow>
   data_body crc dec crypto h' body payload = data_body crc dec crypto h body payload"
  by (simp add: data_body_def split: option.split)

lemma data_pdu_length: "data_pdu crc dec crypto session rex p seq payload \<Longrightarrow> 36 \<le> length p"
  by (auto simp: data_pdu_def)

lemma data_pdu_decode:
  "data_pdu crc dec crypto session rex p seq payload \<Longrightarrow>
   \<exists>h. decode_data_header p = Some (Some h) \<and> dh_session h = session \<and> dh_block_seq h = seq \<and>
     (dh_flags h AND FLAG_RETRANSMIT \<noteq> 0 \<longleftrightarrow> rex)"
  using decode_data_header_bytes by (fastforce simp: data_pdu_def)

text \<open>The tick bits do not touch the retransmission mark.\<close>

lemma tick_flags_keep_rex:
  "(f OR FLAG_HAS_TICK OR FLAG_TICK_N) AND FLAG_RETRANSMIT = f AND FLAG_RETRANSMIT"
  "((f OR FLAG_HAS_TICK) AND NOT FLAG_TICK_N) AND FLAG_RETRANSMIT = f AND FLAG_RETRANSMIT"
  "(f OR FLAG_LAST_BLOCK) AND FLAG_RETRANSMIT = f AND FLAG_RETRANSMIT"
  by (simp_all add: FLAG_HAS_TICK_def FLAG_TICK_N_def FLAG_RETRANSMIT_def FLAG_LAST_BLOCK_def bit.conj_disj_distrib2 and.assoc)

text \<open>Overwriting the flag byte and the echo tick of a header.\<close>

lemma put_flags_header:
  "put_u8 (data_header_bytes h @ body) 1 f = Some (data_header_bytes (h\<lparr>dh_flags := f\<rparr>) @ body)"
  by (simp add: put_u8_def data_header_bytes_def buffer_simps)

lemma put_tick_header:
  "put_echo_tick (data_header_bytes h @ body) v = Some (data_header_bytes (h\<lparr>dh_echo_tick := v\<rparr>) @ body)"
  by (simp add: put_echo_tick_def put_u64_def data_header_bytes_def buffer_simps)

lemma index_flags_header: "index_at (data_header_bytes h @ body) 1 = Some (dh_flags h)"
  by (simp add: data_header_bytes_def buffer_simps)

end
