(* ===== verification/Data_Sender.thy ===== *)
theory Data_Sender
  imports Data_Pdu Rate_Control Block_IO Net_Batch
begin

text \<open>
  \<open>src/src/sender.rs\<close>: the sending data plane. \<open>sender_env\<close> holds what is fixed for a transfer
  (the immutable part of \<open>Shared\<close>), \<open>sender_state\<close> what its threads change: the retransmit queue,
  the pending tick, the target rate, the done flag, the channels between the prefetch thread and
  the pacer, and the pacer's own variables. Each thread is a step function: \<open>prefetch_step\<close> is one
  turn of the prefetch loop, \<open>feedback_step\<close> one datagram of the feedback loop, \<open>pacing_step\<close> one
  turn of the pacing loop; \<open>sender_event\<close> interleaves them with the calls of the transfer's owner.

  The block source is the function \<open>se_read\<close>, CRC-32C the function \<open>se_crc\<close>, the AEAD encryption
  \<open>se_enc\<close>. Sequence numbers are \<open>u64\<close> words and offsets wrap as in a release build; clock
  readings are arguments.
\<close>

section \<open>Configuration\<close>

definition MAX_BATCH :: nat where "MAX_BATCH = 64"

record send_config =
  sc_peer :: "socket_addr option"
  sc_expected_peer_ip :: "ip_addr option"
  sc_file_size :: i64
  sc_block_size :: nat
  sc_total_blocks :: u64
  sc_session :: u32
  sc_rate :: rate_config
  sc_read_workers :: nat
  sc_crypto :: "aead_box option"
  sc_stats :: stats
  sc_control :: "transfer_control option"
  sc_warm_start :: "rate_warm_start option"

definition initial_rate :: "send_config \<Rightarrow> nat" where
  "initial_rate conf =
     (let rate = sc_rate conf;
          init = (if target_bps rate = 0 then max_bps rate else target_bps rate)
      in if rc_mode rate = Adaptive then
           (let cap = (if max_bps rate = 0 then 2 ^ 64 - 1 else max_bps rate)
            in case sc_warm_start conf of
                 Some w \<Rightarrow> if warm_rate_bps w > 0 then min (warm_rate_bps w) cap else init
               | None \<Rightarrow> init)
         else init)"

definition sender_new :: "send_config \<Rightarrow> send_config" where
  "sender_new conf =
     conf\<lparr>sc_read_workers := (if sc_read_workers conf = 0 then 2 else sc_read_workers conf),
         sc_stats := (sc_stats conf)
           \<lparr>st_total_bytes := unat (sc_file_size conf), st_total_blocks := unat (sc_total_blocks conf),
            st_block_size := sc_block_size conf, st_target_rate_bps := initial_rate conf\<rparr>\<rparr>"

definition sender_overhead :: "aead_box option \<Rightarrow> nat" where
  "sender_overhead crypto = (case crypto of Some c \<Rightarrow> overhead c | None \<Rightarrow> 0)"

section \<open>Shared state\<close>

record rex_queue =
  rq_heap :: "u64 list"
  rq_set :: "u64 set"

record tick_state =
  tk_pending :: bool
  tk_val :: u64
  tk_is_net :: bool
  tk_t2 :: u64

record sender_env =
  se_read :: "nat \<Rightarrow> nat \<Rightarrow> byte list io"
  se_crc :: "byte list \<Rightarrow> u32"
  se_enc :: enc_fun
  se_file_size :: i64
  se_block_size :: nat
  se_total_blocks :: u64
  se_session :: u32
  se_rate_mode :: rate_mode
  se_crypto :: "aead_box option"
  se_peer :: socket_addr
  se_configured :: nat

record sender_state =
  ss_rex :: rex_queue
  ss_tick :: tick_state
  ss_target :: nat
  ss_done :: bool
  ss_stats :: stats
  ss_control :: "transfer_control option"
  ss_next :: u64
  ss_ready :: "(byte list \<times> nat) list"
  ss_closed :: bool
  ss_free :: "byte list list"
  ss_scratch :: "byte list list"
  ss_rate :: nat
  ss_ipd_us :: real
  ss_batch :: real
  ss_new_done :: bool
  ss_deadline :: real

section \<open>The retransmit queue\<close>

definition rex_insert :: "u64 \<Rightarrow> rex_queue \<Rightarrow> rex_queue" where
  "rex_insert seq q =
     (if seq \<in> rq_set q then q
      else q\<lparr>rq_set := insert seq (rq_set q), rq_heap := heap_push seq (rq_heap q)\<rparr>)"

definition store_rex_len :: "sender_state \<Rightarrow> sender_state" where
  "store_rex_len st = st\<lparr>ss_stats := (ss_stats st)\<lparr>st_rex_queue_len := int (card (rq_set (ss_rex st)))\<rparr>\<rparr>"

definition push_retransmits :: "nack_entry list \<Rightarrow> sender_state \<Rightarrow> sender_state" where
  "push_retransmits nacks st =
     store_rex_len (st\<lparr>ss_rex := fold (\<lambda>n q. rex_insert (ne_block_seq n) q) nacks (ss_rex st)\<rparr>)"

definition pop_retransmit :: "sender_state \<Rightarrow> (u64 \<times> sender_state) option" where
  "pop_retransmit st =
     (case heap_pop (rq_heap (ss_rex st)) of
        None \<Rightarrow> None
      | Some (seq, h) \<Rightarrow>
          Some (seq, store_rex_len (st\<lparr>ss_rex := \<lparr>rq_heap = h, rq_set = rq_set (ss_rex st) - {seq}\<rparr>\<rparr>)))"

definition rex_len :: "sender_state \<Rightarrow> nat" where
  "rex_len st = length (rq_heap (ss_rex st))"

section \<open>Building DATA datagrams\<close>

text \<open>The offset and the payload length of a block: \<open>seq * block_size\<close> and the subtraction wrap,
  the comparison is signed, \<open>rem as usize\<close> reinterprets the bits.\<close>

definition block_extent :: "sender_env \<Rightarrow> u64 \<Rightarrow> u64 \<times> i64 \<times> nat" where
  "block_extent env seq =
     (let off = seq * of_nat (se_block_size env);
          rem = se_file_size env - off
      in (off, rem, if sint rem < sint (of_nat (se_block_size env) :: i64) then unat rem else se_block_size env))"

definition finish_pdu :: "sender_env \<Rightarrow> byte list \<Rightarrow> byte \<Rightarrow> u64 \<Rightarrow> i64 \<Rightarrow> nat \<Rightarrow> (byte list \<times> nat) may_panic" where
  "finish_pdu env buf flags seq rex plen = do {
     let flags = (if seq = se_total_blocks env - 1 then flags OR FLAG_LAST_BLOCK else flags);
     payload \<leftarrow> subslice buf DATA_HEADER_SIZE (DATA_HEADER_SIZE + plen);
     let crc = (if se_crypto env = None then se_crc env payload else 0);
     buf \<leftarrow> encode_data_header buf
       \<lparr>dh_flags = flags, dh_payload_len = of_nat plen, dh_session = se_session env, dh_block_seq = seq,
        dh_echo_tick = 0, dh_rex_index = rex, dh_payload_crc = crc\<rparr>;
     (case se_crypto env of
        Some c \<Rightarrow> seal_data (se_enc env) c buf DATA_HEADER_SIZE plen seq
      | None \<Rightarrow> Some (buf, DATA_HEADER_SIZE + plen))
   }"

definition read_block :: "sender_env \<Rightarrow> byte list \<Rightarrow> u64 \<Rightarrow> nat \<Rightarrow> byte list option may_panic" where
  "read_block env buf off plen = do {
     dst \<leftarrow> subslice buf DATA_HEADER_SIZE (DATA_HEADER_SIZE + plen);
     (case se_read env (unat off) plen of
        Inl e \<Rightarrow> Some None
      | Inr b \<Rightarrow> map_option Some (write_at buf DATA_HEADER_SIZE b))
   }"

definition prefetch_block :: "sender_env \<Rightarrow> byte list \<Rightarrow> u64 \<Rightarrow> (byte list \<times> nat) option may_panic" where
  "prefetch_block env buf seq = do {
     let (off, rem, plen) = block_extent env seq;
     r \<leftarrow> read_block env buf off plen;
     (case r of
        None \<Rightarrow> Some None
      | Some buf \<Rightarrow> map_option Some (finish_pdu env buf 0 seq 0 plen))
   }"

definition fill_retransmit :: "sender_env \<Rightarrow> byte list \<Rightarrow> u64 \<Rightarrow> (byte list \<times> nat) option may_panic" where
  "fill_retransmit env buf seq = do {
     let (off, rem, plen) = block_extent env seq;
     if plen = 0 \<or> sint rem \<le> 0 then Some None
     else do {
       r \<leftarrow> read_block env buf off plen;
       (case r of
          None \<Rightarrow> Some None
        | Some buf \<Rightarrow> map_option Some (finish_pdu env buf FLAG_RETRANSMIT seq seq plen))
     }
   }"

definition attach_tick :: "u64 \<Rightarrow> byte list \<Rightarrow> sender_state \<Rightarrow> (byte list \<times> sender_state) may_panic" where
  "attach_tick now buf st =
     (let t = ss_tick st
      in if \<not> tk_pending t then Some (buf, st)
         else do {
           b1 \<leftarrow> index_at buf 1;
           let flags = b1 OR FLAG_HAS_TICK;
           let (flags, echo) =
             (if tk_is_net t then (flags OR FLAG_TICK_N, tk_val t + (now - tk_t2 t))
              else (flags AND NOT FLAG_TICK_N, tk_val t));
           buf \<leftarrow> put_u8 buf 1 flags;
           buf \<leftarrow> put_echo_tick buf echo;
           Some (buf, st\<lparr>ss_tick := t\<lparr>tk_pending := False\<rparr>\<rparr>)
         })"

section \<open>The prefetch thread\<close>

text \<open>One turn: leave the loop at the last block, on a stop, on \<open>done\<close> and on a read error (the
  producer's end of the ready channel is then dropped); otherwise borrow a buffer, fill it and
  publish it. With no free buffer the turn is a timed-out wait.\<close>

definition prefetch_step :: "sender_env \<Rightarrow> bool \<Rightarrow> sender_state \<Rightarrow> sender_state may_panic" where
  "prefetch_step env stop st =
     (if ss_closed st then Some st
      else if ss_next st \<ge> se_total_blocks env then Some (st\<lparr>ss_closed := True\<rparr>)
      else if should_stop stop (ss_control st) \<or> ss_done st then Some (st\<lparr>ss_closed := True\<rparr>)
      else case ss_free st of
             [] \<Rightarrow> Some st
           | buf # bufs \<Rightarrow> do {
               r \<leftarrow> prefetch_block env buf (ss_next st);
               (case r of
                  None \<Rightarrow> Some (st\<lparr>ss_free := bufs, ss_closed := True\<rparr>)
                | Some item \<Rightarrow>
                    Some (st\<lparr>ss_free := bufs, ss_ready := ss_ready st @ [item], ss_next := ss_next st + 1\<rparr>))
             })"

section \<open>The pacing loop\<close>

definition recompute :: "nat \<Rightarrow> nat \<Rightarrow> nat \<times> real \<times> real" where
  "recompute block_size rate =
     (let rate = max rate 1;
          block_bits = fmul (f64_of_nat (block_size + DATA_HEADER_SIZE)) 8;
          ipd = fmul (fdiv block_bits (f64_of_nat rate)) 1000000
      in if ipd < 5000 then
           (let batch0 = fadd (f64_of_nat (min (as_u64 (fdiv 5000 ipd)) (2 ^ 63 - 1))) 1;
                batch = (if batch0 > real MAX_BATCH then real MAX_BATCH else batch0)
            in (rate, fmul (fdiv (fmul block_bits batch) (f64_of_nat rate)) 1000000, batch))
         else (rate, ipd, 1))"

text \<open>The batch being built: datagrams queued for the socket, buffers to hand back, and the
  counts of the turn.\<close>

record batch =
  bt_bs :: portable_sender
  bt_new_bufs :: "byte list list"
  bt_rex_idx :: nat
  bt_rex_bytes :: nat
  bt_new_bytes :: nat
  bt_rex_n :: nat
  bt_new_n :: nat

definition batch_empty :: batch where
  "batch_empty = \<lparr>bt_bs = portable_reset (portable_sender_new 1024), bt_new_bufs = [], bt_rex_idx = 0,
     bt_rex_bytes = 0, bt_new_bytes = 0, bt_rex_n = 0, bt_new_n = 0\<rparr>"

text \<open>One queued retransmission: whether a datagram was built.\<close>

definition take_rex ::
  "sender_env \<Rightarrow> nat \<Rightarrow> u64 \<Rightarrow> u64 \<Rightarrow> batch \<Rightarrow> sender_state \<Rightarrow> (bool \<times> batch \<times> sender_state) may_panic"
where
  "take_rex env buf_len now seq b st = do {
     let scratch = (if bt_rex_idx b = length (ss_scratch st) then ss_scratch st @ [replicate buf_len 0]
                    else ss_scratch st);
     buf \<leftarrow> index_at scratch (bt_rex_idx b);
     r \<leftarrow> fill_retransmit env buf seq;
     (case r of
        None \<Rightarrow> Some (False, b, st\<lparr>ss_scratch := scratch\<rparr>)
      | Some (buf, n) \<Rightarrow> do {
          (buf, st) \<leftarrow> attach_tick now buf st;
          p \<leftarrow> subslice buf 0 n;
          Some (True,
                b\<lparr>bt_bs := portable_add p (bt_bs b), bt_rex_bytes := bt_rex_bytes b + n,
                  bt_rex_n := bt_rex_n b + 1, bt_rex_idx := bt_rex_idx b + 1\<rparr>,
                st\<lparr>ss_scratch := scratch[bt_rex_idx b := buf]\<rparr>)
        })
   }"

definition take_new :: "u64 \<Rightarrow> byte list \<times> nat \<Rightarrow> batch \<Rightarrow> sender_state \<Rightarrow> (batch \<times> sender_state) may_panic" where
  "take_new now item b st = do {
     let (buf, n) = item;
     (buf, st) \<leftarrow> attach_tick now buf st;
     p \<leftarrow> subslice buf 0 n;
     Some (b\<lparr>bt_bs := portable_add p (bt_bs b), bt_new_bytes := bt_new_bytes b + n,
             bt_new_n := bt_new_n b + 1, bt_new_bufs := bt_new_bufs b @ [buf]\<rparr>, st)
   }"

lemma heap_pop_length: "heap_pop h = Some (x, h') \<Longrightarrow> length h = Suc (length h')"
  by (cases h) auto

lemma pop_rex_len: "pop_retransmit st = Some (seq, st') \<Longrightarrow> rex_len st = Suc (rex_len st')"
  by (auto simp: pop_retransmit_def rex_len_def store_rex_len_def dest: heap_pop_length split: option.splits prod.splits)

lemma pop_new_done: "pop_retransmit st = Some (seq, st') \<Longrightarrow> ss_new_done st' = ss_new_done st"
  by (auto simp: pop_retransmit_def store_rex_len_def split: option.splits prod.splits)

lemma attach_tick_frame:
  "attach_tick now buf st = Some (buf', st') \<Longrightarrow> \<exists>t. st' = st\<lparr>ss_tick := t\<rparr>"
  by (auto simp: attach_tick_def Let_def split: if_splits Option.bind_splits) (metis sender_state.surjective sender_state.update_convs(2))

lemma take_rex_frame:
  "take_rex env buf_len now seq b st = Some (ok, b', st') \<Longrightarrow>
   ss_rex st' = ss_rex st \<and> ss_new_done st' = ss_new_done st \<and> ss_ready st' = ss_ready st"
  by (auto simp: take_rex_def Let_def split: option.splits Option.bind_splits dest!: attach_tick_frame)

lemma take_new_frame:
  "take_new now item b st = Some (b', st') \<Longrightarrow> \<exists>t. st' = st\<lparr>ss_tick := t\<rparr>"
  by (auto simp: take_new_def Let_def split: prod.splits Option.bind_splits dest!: attach_tick_frame)

text \<open>The loop that fills one batch: retransmissions before new blocks. With an empty but open
  ready channel the batch is flushed as it is.\<close>

function build_batch ::
  "sender_env \<Rightarrow> nat \<Rightarrow> u64 \<Rightarrow> nat \<Rightarrow> nat \<Rightarrow> batch \<Rightarrow> sender_state \<Rightarrow> (batch \<times> sender_state) may_panic"
where
  "build_batch env buf_len now to_send built b st =
     (if built < to_send then
        (case pop_retransmit st of
           Some (seq, st1) \<Rightarrow>
             (case take_rex env buf_len now seq b st1 of
                None \<Rightarrow> None
              | Some (ok, b', st') \<Rightarrow> build_batch env buf_len now to_send (if ok then built + 1 else built) b' st')
         | None \<Rightarrow>
             if ss_new_done st then Some (b, st)
             else case ss_ready st of
                    item # items \<Rightarrow>
                      (case take_new now item b (st\<lparr>ss_ready := items\<rparr>) of
                         None \<Rightarrow> None
                       | Some (b', st') \<Rightarrow> build_batch env buf_len now to_send (built + 1) b' st')
                  | [] \<Rightarrow>
                      if ss_closed st
                      then build_batch env buf_len now to_send built b (st\<lparr>ss_new_done := True\<rparr>)
                      else Some (b, st))
      else Some (b, st))"
  by pat_completeness auto
termination
proof (relation "measure (\<lambda>(env, bl, now, to_send, built, b, st).
    rex_len st + (to_send - built) + (if ss_new_done st then 0 else 1))", goal_cases)
  case (4 env bl now to_send built b st p seq st1 q ok r b' st')
  then have "rex_len st = Suc (rex_len st1)" "ss_new_done st1 = ss_new_done st"
    using pop_rex_len [of st seq st1] pop_new_done [of st seq st1] by auto
  moreover have "rex_len st' = rex_len st1" "ss_new_done st' = ss_new_done st1"
    using take_rex_frame [of env bl now seq b st1 ok b' st'] 4 by (auto simp: rex_len_def)
  ultimately show ?case by auto
next
  case (3 env bl now to_send built b st item items p b' st')
  then obtain t where "st' = (st\<lparr>ss_ready := items\<rparr>)\<lparr>ss_tick := t\<rparr>"
    using take_new_frame [of now item b "st\<lparr>ss_ready := items\<rparr>" b' st'] by auto
  then show ?case using 3 by (auto simp: rex_len_def)
qed (auto simp: rex_len_def)

declare build_batch.simps [simp del]

definition fin_pdu :: "sender_env \<Rightarrow> byte list may_panic" where
  "fin_pdu env = do {
     (b, n) \<leftarrow> encode_fin (replicate 16 0) (se_session env) (se_total_blocks env);
     subslice b 0 n
   }"

definition count_batch :: "batch \<Rightarrow> stats \<Rightarrow> stats" where
  "count_batch b s =
     (let s = (if bt_rex_n b > 0 then
                 s\<lparr>st_retrans_sent := fetch_add (bt_rex_n b) (st_retrans_sent s),
                   st_packets_sent := fetch_add (bt_rex_n b) (st_packets_sent s),
                   st_bytes_sent := fetch_add (bt_rex_bytes b) (st_bytes_sent s)\<rparr> else s)
      in if bt_new_n b > 0 then
           s\<lparr>st_packets_sent := fetch_add (bt_new_n b) (st_packets_sent s),
             st_bytes_sent := fetch_add (bt_new_bytes b) (st_bytes_sent s)\<rparr> else s)"

definition next_deadline :: "nat \<Rightarrow> real \<Rightarrow> real \<Rightarrow> real" where
  "next_deadline now ipd deadline =
     (let d = fadd deadline ipd; n = f64_of_nat now
      in if n < d then d else if fsub n d > fmul 100 ipd then n else d)"

text \<open>The parts of one turn: adopt the effective rate, account for the batch, announce FIN.\<close>

definition retune :: "sender_env \<Rightarrow> sender_state \<Rightarrow> sender_state" where
  "retune env st =
     (let r = effective_rate (ss_control st) (ss_target st);
          st = st\<lparr>ss_stats := (ss_stats st)\<lparr>st_target_rate_bps := r\<rparr>\<rparr>
      in if r \<noteq> ss_rate st then
           (case recompute (se_block_size env) r of
              (rate, ipd, bt) \<Rightarrow> st\<lparr>ss_rate := rate, ss_ipd_us := ipd, ss_batch := bt\<rparr>)
         else st)"

definition settle :: "batch \<Rightarrow> sender_state \<Rightarrow> sender_state" where
  "settle b st = st\<lparr>ss_stats := count_batch b (ss_stats st), ss_free := ss_free st @ bt_new_bufs b\<rparr>"

definition announce_fin :: "sender_env \<Rightarrow> sender_state \<Rightarrow> byte list list may_panic" where
  "announce_fin env st =
     (if ss_new_done st \<and> rex_len st = 0 then map_option (\<lambda>p. [p]) (fin_pdu env) else Some [])"

datatype pace_result = PaceOk | PaceStopped | PaceGoOn

text \<open>One turn of the loop: its result, the datagrams put on the wire, and the state. The
  turn's clock readings are \<open>t1\<close> (at the tick stamping) and \<open>t2\<close> (at the deadline).\<close>

definition pacing_step ::
  "sender_env \<Rightarrow> nat \<Rightarrow> bool \<Rightarrow> nat \<Rightarrow> nat \<Rightarrow> sender_state \<Rightarrow> (pace_result \<times> byte list list \<times> sender_state) may_panic"
where
  "pacing_step env buf_len stop t1 t2 st =
     (if ss_done st then Some (PaceOk, [], st)
      else if should_stop stop (ss_control st) then Some (PaceStopped, [], st)
      else if control_paused (ss_control st) then Some (PaceGoOn, [], st\<lparr>ss_deadline := f64_of_nat t1\<rparr>)
      else do {
        let st = retune env st;
        (b, st) \<leftarrow> build_batch env buf_len (of_nat t1) (as_u64 (ss_batch st)) 0 batch_empty st;
        let st = settle b st;
        fin \<leftarrow> announce_fin env st;
        Some (PaceGoOn, ps_pkts (bt_bs b) @ fin,
              st\<lparr>ss_deadline := next_deadline t2 (ss_ipd_us st) (ss_deadline st)\<rparr>)
      })"

section \<open>The feedback thread\<close>

text \<open>One received datagram; the clock reading \<open>now\<close> is taken after its type is known.\<close>

definition adopt_target :: "sender_env \<Rightarrow> feedback_header \<Rightarrow> sender_state \<Rightarrow> sender_state" where
  "adopt_target env fh st =
     (if fh_target_rate fh > 0 then
        let peer_target = (if se_rate_mode env = Adaptive then unat (fh_target_rate fh)
                           else min (unat (fh_target_rate fh)) (se_configured env))
        in st\<lparr>ss_target := peer_target,
              ss_stats := (ss_stats st)\<lparr>st_target_rate_bps := effective_rate (ss_control st) peer_target\<rparr>\<rparr>
      else st)"

definition feedback_step :: "sender_env \<Rightarrow> bool \<Rightarrow> u64 \<Rightarrow> byte list \<Rightarrow> socket_addr \<Rightarrow> sender_state \<Rightarrow> sender_state may_panic" where
  "feedback_step env stop now pkt addr st =
     (if ss_done st \<or> should_stop stop (ss_control st) then Some st
      else if addr \<noteq> se_peer env then Some st
      else do {
        t \<leftarrow> pdu_type pkt;
        if t \<noteq> PDU_FEEDBACK then Some st
        else do {
          d \<leftarrow> decode_feedback pkt;
          (case d of
             None \<Rightarrow> Some st
           | Some (fh, nacks) \<Rightarrow>
               if fh_session fh \<noteq> se_session env then Some st
               else let st = st\<lparr>ss_tick := \<lparr>tk_pending = True, tk_val = fh_tick fh,
                                   tk_is_net = fh_tick_is_network fh, tk_t2 = now\<rparr>\<rparr>;
                        st = (if nacks \<noteq> [] then
                                push_retransmits nacks
                                  (st\<lparr>ss_stats := (ss_stats st)
                                      \<lparr>st_nacks_recv := fetch_add (length nacks) (st_nacks_recv (ss_stats st))\<rparr>\<rparr>)
                              else st);
                        st = adopt_target env fh st;
                        st = st\<lparr>ss_stats := (ss_stats st)\<lparr>st_hi_contig := unat (fh_hi_contig fh)\<rparr>\<rparr>
                    in Some (if fh_done fh then st\<lparr>ss_done := True\<rparr> else st))
        }
      })"

section \<open>Learning the peer\<close>

text \<open>One turn reads the stop flag, the clock against the deadline, and the socket; \<open>None\<close>
  while the loop still runs.\<close>

fun wait_for_peer ::
  "u32 \<Rightarrow> ip_addr option \<Rightarrow> (bool \<times> bool \<times> (io_error + (byte list \<times> socket_addr))) list \<Rightarrow> socket_addr io option may_panic"
where
  "wait_for_peer session expected_ip [] = Some None"
| "wait_for_peer session expected_ip ((stopped, late, got) # rest) =
     (if stopped then Some (Some (Inl OtherIO))
      else if late then Some (Some (Inl OtherIO))
      else case got of
             Inr (buf, addr) \<Rightarrow>
               if (case expected_ip of Some ip \<Rightarrow> addr_ip addr \<noteq> ip | None \<Rightarrow> False)
               then wait_for_peer session expected_ip rest
               else do {
                 d \<leftarrow> decode_start buf;
                 if d = Some session then Some (Some (Inr addr)) else wait_for_peer session expected_ip rest
               }
           | Inl e \<Rightarrow>
               if is_timeout e then wait_for_peer session expected_ip rest else Some (Some (Inl e)))"

section \<open>A run\<close>

definition sender_env_of ::
  "(nat \<Rightarrow> nat \<Rightarrow> byte list io) \<Rightarrow> (byte list \<Rightarrow> u32) \<Rightarrow> enc_fun \<Rightarrow> send_config \<Rightarrow> socket_addr \<Rightarrow> sender_env" where
  "sender_env_of read crc enc conf peer =
     \<lparr>se_read = read, se_crc = crc, se_enc = enc, se_file_size = sc_file_size conf,
      se_block_size = sc_block_size conf, se_total_blocks = sc_total_blocks conf,
      se_session = sc_session conf, se_rate_mode = rc_mode (sc_rate conf), se_crypto = sc_crypto conf,
      se_peer = peer, se_configured = st_target_rate_bps (sc_stats conf)\<rparr>"

definition sender_start :: "send_config \<Rightarrow> nat \<Rightarrow> nat \<Rightarrow> sender_state" where
  "sender_start conf buf_len now =
     (let init = st_target_rate_bps (sc_stats conf)
      in case recompute (sc_block_size conf) init of
           (rate, ipd, bt) \<Rightarrow>
             \<lparr>ss_rex = \<lparr>rq_heap = [], rq_set = {}\<rparr>,
              ss_tick = \<lparr>tk_pending = False, tk_val = 0, tk_is_net = False, tk_t2 = 0\<rparr>,
              ss_target = init, ss_done = False, ss_stats = sc_stats conf, ss_control = sc_control conf,
              ss_next = 0, ss_ready = [], ss_closed = (sc_total_blocks conf = 0),
              ss_free = replicate 4096 (replicate buf_len 0), ss_scratch = [],
              ss_rate = rate, ss_ipd_us = ipd, ss_batch = bt, ss_new_done = False,
              ss_deadline = f64_of_nat now\<rparr>)"

datatype sender_event =
    EvPrefetch bool
  | EvPace bool nat nat
  | EvFeedback bool u64 "byte list" socket_addr
  | EvControl "transfer_control option"

text \<open>The turns of a run after \<open>PaceOk\<close> or \<open>PaceStopped\<close> change nothing that is sent: a run
  stops at the first of them.\<close>

fun run_sender ::
  "sender_env \<Rightarrow> nat \<Rightarrow> sender_event list \<Rightarrow> sender_state \<Rightarrow> (pace_result \<times> byte list list \<times> sender_state) may_panic"
where
  "run_sender env bl [] st = Some (PaceGoOn, [], st)"
| "run_sender env bl (EvPrefetch stop # es) st =
     (case prefetch_step env stop st of None \<Rightarrow> None | Some st' \<Rightarrow> run_sender env bl es st')"
| "run_sender env bl (EvFeedback stop now pkt addr # es) st =
     (case feedback_step env stop now pkt addr st of None \<Rightarrow> None | Some st' \<Rightarrow> run_sender env bl es st')"
| "run_sender env bl (EvControl c # es) st = run_sender env bl es (st\<lparr>ss_control := c\<rparr>)"
| "run_sender env bl (EvPace stop t1 t2 # es) st =
     (case pacing_step env bl stop t1 t2 st of
        None \<Rightarrow> None
      | Some (PaceGoOn, wire, st') \<Rightarrow>
          (case run_sender env bl es st' of
             None \<Rightarrow> None
           | Some (res, wire', st'') \<Rightarrow> Some (res, wire @ wire', st''))
      | Some (res, wire, st') \<Rightarrow> Some (res, wire, st'))"

section \<open>The blocks of the source\<close>

definition source_reads :: "(nat \<Rightarrow> nat \<Rightarrow> byte list io) \<Rightarrow> byte list \<Rightarrow> bool" where
  "source_reads read data \<longleftrightarrow>
     (\<forall>off n. off + n \<le> length data \<longrightarrow> read off n = Inr (take n (drop off data))) \<and>
     (\<forall>off n. length data < off + n \<longrightarrow> (\<exists>e. read off n = Inl e))"

text \<open>A transfer of \<open>data\<close>: the sizes agree, the block size fits the header's length field.\<close>

definition sender_for :: "sender_env \<Rightarrow> dec_fun \<Rightarrow> byte list \<Rightarrow> bool" where
  "sender_for env dec data \<longleftrightarrow>
     0 < se_block_size env \<and> se_block_size env < 2 ^ 16 \<and> length data < 2 ^ 62 \<and>
     se_file_size env = of_nat (length data) \<and>
     num_blocks (int (length data)) (se_block_size env) = Some (unat (se_total_blocks env)) \<and>
     aead_correct (se_enc env) dec"

definition buf_size :: "sender_env \<Rightarrow> nat" where
  "buf_size env = se_block_size env + DATA_HEADER_SIZE + sender_overhead (se_crypto env)"

abbreviation carries :: "sender_env \<Rightarrow> dec_fun \<Rightarrow> bool \<Rightarrow> byte list \<Rightarrow> u64 \<Rightarrow> byte list \<Rightarrow> bool" where
  "carries env dec \<equiv> data_pdu (se_crc env) dec (se_crypto env) (se_session env)"

lemma seq_in_range:
  "sender_for env dec data \<Longrightarrow> seq < unat (se_total_blocks env) \<longleftrightarrow> seq * se_block_size env < length data"
  using num_blocks_less_iff [of "int (length data)" "se_block_size env" "unat (se_total_blocks env)" seq]
  by (auto simp: sender_for_def simp flip: of_nat_mult)

lemma sint_of_nat_small: "n < 2 ^ 63 \<Longrightarrow> sint (of_nat n :: i64) = int n"
  by (simp add: signed_of_nat signed_take_bit_int_eq_self)

lemma unat_of_nat_small: "n < 2 ^ 64 \<Longrightarrow> unat (of_nat n :: 64 word) = n"
  by (simp add: unat_of_nat)

lemma unat_of_nonneg_sint:
  assumes "0 \<le> sint (w :: i64)"
  shows "unat w = nat (sint w)" and "unat w < 2 ^ 63"
proof -
  have less: "sint w < 2 ^ 63" using sint_less [of w] by simp
  have "w = of_nat (nat (sint w))" using assms by simp
  then show u: "unat w = nat (sint w)"
    using unat_of_nat_small [of "nat (sint w)"] less assms by simp
  show "unat w < 2 ^ 63" unfolding u using assms less by simp
qed

lemma block_extent_valid:
  assumes "sender_for env dec data" and "seq * se_block_size env < length data"
  shows "block_extent env (of_nat seq) =
           (of_nat (seq * se_block_size env), of_nat (length data - seq * se_block_size env),
            length (block_of data (se_block_size env) seq))"
proof -
  let ?bs = "se_block_size env" and ?L = "length data"
  have s: "?bs < 2 ^ 16" "?L < 2 ^ 62" "se_file_size env = of_nat ?L" using assms(1) by (auto simp: sender_for_def)
  have rem: "se_file_size env - of_nat (seq * ?bs) = (of_nat (?L - seq * ?bs) :: i64)"
    using s(3) assms(2) by simp
  have "sint (of_nat (?L - seq * ?bs) :: i64) = int (?L - seq * ?bs)" "sint (of_nat ?bs :: i64) = int ?bs"
      "unat (of_nat (?L - seq * ?bs) :: i64) = ?L - seq * ?bs"
    using s by (auto intro!: sint_of_nat_small unat_of_nat_small)
  then show ?thesis
    using rem by (simp add: block_extent_def Let_def length_block_of min_def del: of_nat_diff of_nat_mult)
      (simp add: not_less)
qed

text \<open>For a sequence number that is not a block of the file (a NACK names any 64-bit number) the
  products wrap; whatever passes the checks and can be read lies inside the file.\<close>

lemma block_extent_any:
  assumes "sender_for env dec data" and "block_extent env seq = (off, rem, plen)" and "0 < sint rem"
  shows "plen \<le> se_block_size env \<and> (unat off + plen \<le> length data \<or> 2 ^ 63 \<le> unat off)"
proof -
  let ?bs = "se_block_size env" and ?L = "length data"
  have s: "?bs < 2 ^ 16" "?L < 2 ^ 62" "se_file_size env = of_nat ?L" using assms(1) by (auto simp: sender_for_def)
  have bs: "sint (of_nat ?bs :: i64) = int ?bs" using s by (intro sint_of_nat_small) simp
  have off: "off = seq * of_nat ?bs" "rem = of_nat ?L - off"
    and plen: "plen = (if sint rem < int ?bs then unat rem else ?bs)"
    using assms(2) s(3) bs by (auto simp: block_extent_def Let_def)
  have r: "unat rem = nat (sint rem)" "unat rem < 2 ^ 63" using unat_of_nonneg_sint [of rem] assms(3) by simp_all
  then have le: "plen \<le> ?bs" "plen \<le> unat rem" using plen by auto
  have "unat off + unat rem = ?L" if "unat off < 2 ^ 63"
  proof -
    have "(of_nat (unat off + unat rem) :: 64 word) = of_nat ?L" using off by simp
    moreover have "unat off + unat rem < 2 ^ 64" "?L < 2 ^ 64" using that r(2) s(2) by simp_all
    ultimately show ?thesis by (metis unat_of_nat_small)
  qed
  then show ?thesis using le by force
qed

lemma take_length_block_of: "take (length (block_of data bs seq)) (drop (seq * bs) data) = block_of data bs seq"
  by (simp add: block_of_def min_def)

lemma finish_pdu_ok:
  assumes "aead_correct (se_enc env) dec" and "length pre = 36" and "length payload = plen" and "plen < 2 ^ 16"
    and "sender_overhead (se_crypto env) \<le> length rest"
  shows "\<exists>buf' n. finish_pdu env (pre @ payload @ rest) flags seq rex plen = Some (buf', n) \<and>
           length buf' = length (pre @ payload @ rest) \<and> n = 36 + plen + sender_overhead (se_crypto env) \<and>
           carries env dec (flags AND FLAG_RETRANSMIT \<noteq> 0) (take n buf') seq payload"
proof -
  define h where "h = \<lparr>dh_flags = (if seq = se_total_blocks env - 1 then flags OR FLAG_LAST_BLOCK else flags),
      dh_payload_len = of_nat plen, dh_session = se_session env, dh_block_seq = seq, dh_echo_tick = 0,
      dh_rex_index = rex, dh_payload_crc = (if se_crypto env = None then se_crc env payload else 0)\<rparr>"
  have h: "dh_session h = se_session env" "dh_block_seq h = seq" "dh_payload_len h = of_nat (length payload)"
      "(dh_flags h AND FLAG_RETRANSMIT \<noteq> 0) = (flags AND FLAG_RETRANSMIT \<noteq> 0)"
    using assms(3) by (simp_all add: h_def tick_flags_keep_rex)
  have sub: "subslice (pre @ payload @ rest) DATA_HEADER_SIZE (DATA_HEADER_SIZE + plen) = Some payload"
    using assms(2,3) by (simp add: subslice_def size_defs)
  have enc: "encode_data_header (pre @ payload @ rest) h = Some (data_header_bytes h @ payload @ rest)"
    using assms(2) by (simp add: encode_data_header_eq)
  show ?thesis
  proof (cases "se_crypto env")
    case None
    then have "finish_pdu env (pre @ payload @ rest) flags seq rex plen =
        Some (data_header_bytes h @ payload @ rest, 36 + plen)"
      using sub enc by (simp add: finish_pdu_def Let_def size_defs h_def)
    moreover have "carries env dec (flags AND FLAG_RETRANSMIT \<noteq> 0) (data_header_bytes h @ payload) seq payload"
      unfolding data_pdu_def using h assms(3,4) None
      by (intro exI [of _ h] exI [of _ payload]) (simp add: data_body_def h_def)
    ultimately show ?thesis using assms(2,3) None by (simp add: sender_overhead_def)
  next
    case (Some c)
    have tag: "AEAD_TAG_LEN \<le> length rest" using assms(5) Some by (simp add: sender_overhead_def overhead_def)
    obtain ct tag where s: "length ct = plen" "length tag = AEAD_TAG_LEN"
        "dec c (block_nonce seq) ct tag = Some payload"
        "seal_data (se_enc env) c (data_header_bytes h @ payload @ rest) 36 plen seq =
          Some (data_header_bytes h @ ct @ tag @ drop AEAD_TAG_LEN rest, 36 + plen + AEAD_TAG_LEN)"
      using seal_data_ok [OF assms(1) length_data_header_bytes assms(3) tag] by metis
    then have "finish_pdu env (pre @ payload @ rest) flags seq rex plen =
        Some (data_header_bytes h @ ct @ tag @ drop AEAD_TAG_LEN rest, 36 + plen + AEAD_TAG_LEN)"
      using sub enc Some by (simp add: finish_pdu_def Let_def size_defs h_def)
    moreover have "carries env dec (flags AND FLAG_RETRANSMIT \<noteq> 0) (data_header_bytes h @ ct @ tag) seq payload"
      unfolding data_pdu_def using h s assms(3,4) Some
      by (intro exI [of _ h] exI [of _ "ct @ tag"]) (auto simp: data_body_def)
    ultimately show ?thesis
      using assms(2,3) Some s(1,2) tag by (simp add: sender_overhead_def overhead_def)
  qed
qed

text \<open>Reading and finishing: the buffer that comes back carries exactly the bytes of the source
  at the offset; a failed read leaves no datagram.\<close>

lemma read_finish_ok:
  assumes "aead_correct (se_enc env) dec" and "length buf = buf_size env" and "plen \<le> se_block_size env"
    and "se_block_size env < 2 ^ 16" and "se_read env (unat off) plen = Inr payload" and "length payload = plen"
  shows "\<exists>buf' n. (do { r \<leftarrow> read_block env buf off plen;
               (case r of None \<Rightarrow> Some None | Some buf \<Rightarrow> map_option Some (finish_pdu env buf flags seq rex plen)) }) =
             Some (Some (buf', n)) \<and>
           length buf' = buf_size env \<and> n \<le> buf_size env \<and>
           carries env dec (flags AND FLAG_RETRANSMIT \<noteq> 0) (take n buf') seq payload"
proof -
  define rest where "rest = drop (36 + plen) buf"
  have len: "36 + plen \<le> length buf" "sender_overhead (se_crypto env) \<le> length rest"
    using assms(2,3) by (auto simp: buf_size_def size_defs rest_def)
  have "write_at buf DATA_HEADER_SIZE payload = Some (take 36 buf @ payload @ rest)"
    using len assms(6) by (simp add: write_at_def size_defs rest_def add.commute)
  then have rb: "read_block env buf off plen = Some (Some (take 36 buf @ payload @ rest))"
    using len assms(5) by (simp add: read_block_def subslice_def size_defs)
  obtain buf' n where f: "finish_pdu env (take 36 buf @ payload @ rest) flags seq rex plen = Some (buf', n)"
      "length buf' = length (take 36 buf @ payload @ rest)" "n = 36 + plen + sender_overhead (se_crypto env)"
      "carries env dec (flags AND FLAG_RETRANSMIT \<noteq> 0) (take n buf') seq payload"
    using finish_pdu_ok [OF assms(1) _ assms(6), of "take 36 buf" rest flags seq rex] len assms(3,4) by auto
  have "length buf' = buf_size env" "n \<le> buf_size env"
    using f(2,3) len assms(2,3,6) by (auto simp: rest_def buf_size_def size_defs)
  then show ?thesis using rb f(1,4) by simp
qed

lemma prefetch_block_ok:
  assumes "sender_for env dec data" and "source_reads (se_read env) data" and "length buf = buf_size env"
    and "seq < unat (se_total_blocks env)"
  shows "\<exists>buf' n. prefetch_block env buf (of_nat seq) = Some (Some (buf', n)) \<and> length buf' = buf_size env \<and>
           n \<le> buf_size env \<and> carries env dec False (take n buf') (of_nat seq) (block_of data (se_block_size env) seq)"
proof -
  let ?bs = "se_block_size env" and ?b = "block_of data (se_block_size env) seq"
  have r: "seq * ?bs < length data" using seq_in_range [OF assms(1)] assms(4) by simp
  have s: "aead_correct (se_enc env) dec" "?bs < 2 ^ 16" "length data < 2 ^ 62"
    using assms(1) by (auto simp: sender_for_def)
  have off: "unat (of_nat (seq * ?bs) :: u64) = seq * ?bs" using r s(3) by (intro unat_of_nat_small) simp
  have "seq * ?bs + length ?b \<le> length data" by (rule block_of_in_range [OF r])
  then have rd: "se_read env (unat (of_nat (seq * ?bs) :: u64)) (length ?b) = Inr ?b"
    using assms(2) off take_length_block_of [of data ?bs seq] by (simp add: source_reads_def del: of_nat_mult)
  have le: "length ?b \<le> ?bs" by (simp add: length_block_of)
  show ?thesis
    using read_finish_ok [OF s(1) assms(3) le s(2) rd refl, of 0 "of_nat seq" 0]
    unfolding prefetch_block_def block_extent_valid [OF assms(1) r] Let_def prod.case by simp
qed

lemma fill_retransmit_ok:
  assumes "sender_for env dec data" and "source_reads (se_read env) data" and "length buf = buf_size env"
  shows "fill_retransmit env buf seq = Some None \<and> \<not> unat seq < unat (se_total_blocks env) \<or>
         (\<exists>buf' n payload. fill_retransmit env buf seq = Some (Some (buf', n)) \<and> length buf' = buf_size env \<and>
            n \<le> buf_size env \<and> carries env dec True (take n buf') seq payload \<and>
            payload = take (length payload) (drop (unat (seq * of_nat (se_block_size env))) data) \<and>
            (unat seq < unat (se_total_blocks env) \<longrightarrow> payload = block_of data (se_block_size env) (unat seq)))"
proof -
  let ?bs = "se_block_size env"
  obtain off rem plen where e: "block_extent env seq = (off, rem, plen)" by (cases "block_extent env seq") auto
  have off: "off = seq * of_nat ?bs" using e by (auto simp: block_extent_def Let_def)
  have s: "aead_correct (se_enc env) dec" "?bs < 2 ^ 16" "length data < 2 ^ 62"
    using assms(1) by (auto simp: sender_for_def)
  have valid: "off = of_nat (unat seq * ?bs) \<and> sint rem > 0 \<and> plen = length (block_of data ?bs (unat seq)) \<and>
      0 < plen \<and> unat off = unat seq * ?bs \<and> unat off + plen \<le> length data" if "unat seq < unat (se_total_blocks env)"
  proof -
    have r: "unat seq * ?bs < length data" using seq_in_range [OF assms(1)] that by simp
    have "sint (of_nat (length data - unat seq * ?bs) :: i64) = int (length data - unat seq * ?bs)"
      using s(3) by (intro sint_of_nat_small) simp
    then show ?thesis
      using block_extent_valid [OF assms(1) r] e r block_of_in_range [OF r] s(3) assms(1)
      by (auto simp: length_block_of sender_for_def unat_of_nat_small simp del: of_nat_mult of_nat_diff)
  qed
  show ?thesis
  proof (cases "plen = 0 \<or> sint rem \<le> 0")
    case True
    then have "fill_retransmit env buf seq = Some None" using e by (simp add: fill_retransmit_def)
    then show ?thesis using True valid by auto
  next
    case False
    then have ext: "plen \<le> ?bs" "unat off + plen \<le> length data \<or> 2 ^ 63 \<le> unat off"
      using block_extent_any [OF assms(1) e] by auto
    have eq: "fill_retransmit env buf seq = (do { r \<leftarrow> read_block env buf off plen;
        (case r of None \<Rightarrow> Some None | Some buf \<Rightarrow> map_option Some (finish_pdu env buf FLAG_RETRANSMIT seq seq plen)) })"
      using False e by (simp add: fill_retransmit_def)
    show ?thesis
    proof (cases "unat off + plen \<le> length data")
      case True
      define payload where "payload = take plen (drop (unat off) data)"
      have rd: "se_read env (unat off) plen = Inr payload" "length payload = plen"
        using assms(2) True by (auto simp: source_reads_def payload_def)
      have blk: "payload = block_of data ?bs (unat seq)" if "unat seq < unat (se_total_blocks env)"
        using valid [OF that] take_length_block_of [of data ?bs "unat seq"] unfolding payload_def by metis
      have slice: "payload = take (length payload) (drop (unat (seq * of_nat ?bs)) data)"
        using rd(2) by (simp add: payload_def off)
      have rex: "(FLAG_RETRANSMIT AND FLAG_RETRANSMIT \<noteq> 0) = True" by (simp add: FLAG_RETRANSMIT_def)
      obtain buf' n where "fill_retransmit env buf seq = Some (Some (buf', n))" "length buf' = buf_size env"
          "n \<le> buf_size env" "carries env dec True (take n buf') seq payload"
        using read_finish_ok [OF s(1) assms(3) ext(1) s(2) rd, of FLAG_RETRANSMIT seq seq] unfolding eq rex by blast
      then show ?thesis using blk slice by blast
    next
      case False
      then obtain err where "se_read env (unat off) plen = Inl err"
        using assms(2) unfolding source_reads_def not_le by blast
      then have "fill_retransmit env buf seq = Some None"
        using eq assms(3) ext(1) by (simp add: read_block_def subslice_def size_defs buf_size_def)
      then show ?thesis using False valid by auto
    qed
  qed
qed

lemma attach_tick_ok:
  assumes "carries env dec rex (take n buf) seq payload" and "n \<le> length buf"
  shows "\<exists>buf' t. attach_tick now buf st = Some (buf', st\<lparr>ss_tick := t\<rparr>) \<and> length buf' = length buf \<and>
           carries env dec rex (take n buf') seq payload"
proof (cases "tk_pending (ss_tick st)")
  case False
  then show ?thesis using assms(1) by (intro exI [of _ buf] exI [of _ "ss_tick st"]) (simp add: attach_tick_def)
next
  case True
  obtain h body where p: "take n buf = data_header_bytes h @ body" "dh_session h = se_session env"
      "dh_block_seq h = seq" "length payload < 2 ^ 16" "dh_payload_len h = of_nat (length payload)"
      "(dh_flags h AND FLAG_RETRANSMIT \<noteq> 0) = rex" "data_body (se_crc env) dec (se_crypto env) h body payload"
    using assms(1) by (auto simp: data_pdu_def)
  define rest where "rest = drop n buf"
  have buf: "buf = data_header_bytes h @ body @ rest" using p(1) by (metis append_assoc append_take_drop_id rest_def)
  have n: "n = 36 + length body" using p(1) assms(2) by (metis length_append length_data_header_bytes length_take min.absorb2)
  define h' where "h' = (if tk_is_net (ss_tick st)
     then h\<lparr>dh_flags := dh_flags h OR FLAG_HAS_TICK OR FLAG_TICK_N, dh_echo_tick := tk_val (ss_tick st) + (now - tk_t2 (ss_tick st))\<rparr>
     else h\<lparr>dh_flags := (dh_flags h OR FLAG_HAS_TICK) AND NOT FLAG_TICK_N, dh_echo_tick := tk_val (ss_tick st)\<rparr>)"
  have "attach_tick now buf st =
      Some (data_header_bytes h' @ body @ rest, st\<lparr>ss_tick := (ss_tick st)\<lparr>tk_pending := False\<rparr>\<rparr>)"
    using True by (simp add: attach_tick_def Let_def buf index_flags_header put_flags_header put_tick_header h'_def
        or.assoc del: One_nat_def)
  moreover have "data_body (se_crc env) dec (se_crypto env) h' body payload"
    using p(7) by (subst data_body_update [of _ h]) (simp_all add: h'_def)
  moreover have "dh_session h' = se_session env" "dh_block_seq h' = seq" "dh_payload_len h' = of_nat (length payload)"
      "(dh_flags h' AND FLAG_RETRANSMIT \<noteq> 0) = rex"
    using p(2-6) by (simp_all add: h'_def tick_flags_keep_rex)
  then have "carries env dec rex (data_header_bytes h' @ body) seq payload"
    unfolding data_pdu_def using p(4) calculation(2) by blast
  ultimately show ?thesis using n buf by auto
qed

end
