(* ===== verification/Sender_Invariant.thy ===== *)
theory Sender_Invariant
  imports Data_Sender
begin

text \<open>
  The sending data plane as a whole: the invariant of \<open>sender_state\<close>, that every turn of the
  prefetch, pacing and feedback threads keeps it and never panics, and what any interleaving of
  them may put on the wire (\<open>wire_log\<close>).
\<close>

section \<open>The invariant of the sender\<close>

definition rex_ok :: "rex_queue \<Rightarrow> bool" where
  "rex_ok q \<longleftrightarrow> sorted (rq_heap q) \<and> distinct (rq_heap q) \<and> set (rq_heap q) = rq_set q"

lemma rex_insert_ok:
  "rex_ok q \<Longrightarrow> rex_ok (rex_insert seq q) \<and> rq_set (rex_insert seq q) = insert seq (rq_set q)"
  by (auto simp: rex_ok_def rex_insert_def heap_push_def distinct_insort sorted_insort insert_absorb set_insort_key)

lemma push_retransmits_ok:
  "rex_ok (ss_rex st) \<Longrightarrow>
   rex_ok (ss_rex (push_retransmits ns st)) \<and>
   rq_set (ss_rex (push_retransmits ns st)) = rq_set (ss_rex st) \<union> ne_block_seq ` set ns"
proof -
  have "rex_ok q \<Longrightarrow> rex_ok (fold (\<lambda>n q. rex_insert (ne_block_seq n) q) ns q) \<and>
      rq_set (fold (\<lambda>n q. rex_insert (ne_block_seq n) q) ns q) = rq_set q \<union> ne_block_seq ` set ns" for q
    by (induction ns arbitrary: q) (auto simp: rex_insert_ok)
  then show "rex_ok (ss_rex st) \<Longrightarrow> ?thesis" by (simp add: push_retransmits_def store_rex_len_def)
qed

lemma pop_retransmit_cases:
  assumes "rex_ok (ss_rex st)"
  obtains "pop_retransmit st = None" "rq_heap (ss_rex st) = []"
  | seq h s where "pop_retransmit st = Some (seq, st\<lparr>ss_rex := \<lparr>rq_heap = h, rq_set = set h\<rparr>, ss_stats := s\<rparr>)"
      "rq_heap (ss_rex st) = seq # h" "\<forall>x \<in> set h. seq < x" "rex_ok \<lparr>rq_heap = h, rq_set = set h\<rparr>"
proof (cases "rq_heap (ss_rex st)")
  case Nil
  then show ?thesis using that(1) by (simp add: pop_retransmit_def)
next
  case (Cons seq h)
  then have "rq_set (ss_rex st) - {seq} = set h" "\<forall>x \<in> set h. seq < x" "rex_ok \<lparr>rq_heap = h, rq_set = set h\<rparr>"
    using assms by (auto simp: rex_ok_def le_less)
  then show ?thesis using that(2) [OF _ Cons] Cons by (simp add: pop_retransmit_def store_rex_len_def)
qed

text \<open>\<open>k\<close> new blocks have been handed to the socket, the ready channel holds the next ones. The
  flag \<open>q\<close> says that the transfer has never been stopped: the channel is then closed only
  after the last block or after DONE.\<close>

definition new_item :: "sender_env \<Rightarrow> dec_fun \<Rightarrow> byte list \<Rightarrow> nat \<Rightarrow> byte list \<times> nat \<Rightarrow> bool" where
  "new_item env dec data k item \<longleftrightarrow>
     length (fst item) = buf_size env \<and> snd item \<le> buf_size env \<and>
     carries env dec False (take (snd item) (fst item)) (of_nat k) (block_of data (se_block_size env) k)"

definition sender_inv :: "bool \<Rightarrow> sender_env \<Rightarrow> dec_fun \<Rightarrow> byte list \<Rightarrow> nat \<Rightarrow> sender_state \<Rightarrow> bool" where
  "sender_inv q env dec data k st \<longleftrightarrow>
     rex_ok (ss_rex st) \<and>
     (\<forall>buf \<in> set (ss_free st). length buf = buf_size env) \<and>
     (\<forall>buf \<in> set (ss_scratch st). length buf = buf_size env) \<and>
     unat (ss_next st) = k + length (ss_ready st) \<and> unat (ss_next st) \<le> unat (se_total_blocks env) \<and>
     (\<forall>i < length (ss_ready st). new_item env dec data (k + i) (ss_ready st ! i)) \<and>
     (ss_new_done st \<longrightarrow> ss_ready st = [] \<and> ss_closed st) \<and>
     (q \<and> ss_closed st \<and> \<not> ss_done st \<longrightarrow> ss_next st = se_total_blocks env) \<and>
     1 \<le> ss_batch st \<and> ss_batch st \<le> real MAX_BATCH"

text \<open>What the wire may show from the \<open>k\<close>-th new block on: retransmissions, whose payload is the
  named block when there is one; the new blocks one after the other; FIN datagrams, in an
  undisturbed run only behind the last block.\<close>

inductive wire_log :: "bool \<Rightarrow> sender_env \<Rightarrow> dec_fun \<Rightarrow> byte list \<Rightarrow> nat \<Rightarrow> byte list list \<Rightarrow> nat \<Rightarrow> bool"
  for q env dec data
where
  log_Nil: "wire_log q env dec data k [] k"
| log_Rex: "wire_log q env dec data k ps k' \<Longrightarrow> carries env dec True p seq payload \<Longrightarrow>
    (unat seq < unat (se_total_blocks env) \<longrightarrow> payload = block_of data (se_block_size env) (unat seq)) \<Longrightarrow>
    wire_log q env dec data k (ps @ [p]) k'"
| log_New: "wire_log q env dec data k ps k' \<Longrightarrow> k' < unat (se_total_blocks env) \<Longrightarrow>
    carries env dec False p (of_nat k') (block_of data (se_block_size env) k') \<Longrightarrow>
    wire_log q env dec data k (ps @ [p]) (Suc k')"
| log_Fin: "wire_log q env dec data k ps k' \<Longrightarrow> fin_pdu env = Some p \<Longrightarrow>
    (q \<longrightarrow> k' = unat (se_total_blocks env)) \<Longrightarrow> wire_log q env dec data k (ps @ [p]) k'"

lemma wire_log_append:
  assumes "wire_log q env dec data k' qs k''" and "wire_log q env dec data k ps k'"
  shows "wire_log q env dec data k (ps @ qs) k''"
  using assms
proof (induction rule: wire_log.induct)
  case (log_Rex k' qs k'' p seq payload)
  then show ?case using wire_log.log_Rex [of q env dec data k "ps @ qs"] by simp
next
  case (log_New k' qs k'' p)
  then show ?case using wire_log.log_New [of q env dec data k "ps @ qs"] by simp
next
  case (log_Fin k' qs k'' p)
  then show ?case using wire_log.log_Fin [of q env dec data k "ps @ qs"] by simp
qed simp

text \<open>A batch under construction: every datagram is accounted for, retransmissions come first and
  in ascending order, and new blocks only once the queue is empty.\<close>

definition pdu_seq :: "byte list \<Rightarrow> u64" where
  "pdu_seq p = le_word (take 8 (drop 8 p))"

lemma carries_seq: "carries env dec rex p seq payload \<Longrightarrow> pdu_seq p = seq"
  by (auto simp: data_pdu_def pdu_seq_def data_header_bytes_def)

definition batch_ok :: "sender_env \<Rightarrow> dec_fun \<Rightarrow> nat \<Rightarrow> batch \<Rightarrow> sender_state \<Rightarrow> bool" where
  "batch_ok env dec built b st \<longleftrightarrow>
     ps_cap (bt_bs b) = 1024 \<and> length (ps_pkts (bt_bs b)) = built \<and> bt_rex_n b + bt_new_n b = built \<and>
     bt_rex_bytes b + bt_new_bytes b = sum_list (map length (ps_pkts (bt_bs b))) \<and>
     bt_rex_idx b \<le> length (ss_scratch st) \<and> (\<forall>buf \<in> set (bt_new_bufs b). length buf = buf_size env) \<and>
     (\<exists>rs ns. ps_pkts (bt_bs b) = rs @ ns \<and> length rs = bt_rex_n b \<and>
        (\<forall>p \<in> set rs. \<exists>seq d. carries env dec True p seq d) \<and> (\<forall>p \<in> set ns. \<exists>seq d. carries env dec False p seq d) \<and>
        sorted_wrt (<) (map pdu_seq rs) \<and> (\<forall>p \<in> set rs. \<forall>q \<in> set (rq_heap (ss_rex st)). pdu_seq p < q) \<and>
        (ns \<noteq> [] \<longrightarrow> rq_heap (ss_rex st) = []))"

lemma batch_ok_empty: "batch_ok env dec 0 batch_empty st"
  by (simp add: batch_ok_def batch_empty_def portable_reset_def portable_sender_new_def)

lemma fill_scratch_length:
  "\<forall>buf \<in> set (ss_scratch st). length buf = n \<Longrightarrow> i \<le> length (ss_scratch st) \<Longrightarrow>
   scratch = (if i = length (ss_scratch st) then ss_scratch st @ [replicate n 0] else ss_scratch st) \<Longrightarrow>
   i < length scratch \<and> (\<forall>buf \<in> set scratch. length buf = n)"
  by auto

lemma take_rex_ok:
  assumes "sender_for env dec data" and "source_reads (se_read env) data" and "sender_inv q env dec data k st"
    and "bt_rex_idx b \<le> length (ss_scratch st)"
  shows "\<exists>t sc. (\<forall>buf \<in> set sc. length buf = buf_size env) \<and>
     ((\<not> unat seq < unat (se_total_blocks env) \<and> bt_rex_idx b \<le> length sc \<and>
        take_rex env (buf_size env) now seq b st = Some (False, b, st\<lparr>ss_tick := t, ss_scratch := sc\<rparr>)) \<or>
      (\<exists>p payload. carries env dec True p seq payload \<and> bt_rex_idx b + 1 \<le> length sc \<and>
        (unat seq < unat (se_total_blocks env) \<longrightarrow> payload = block_of data (se_block_size env) (unat seq)) \<and>
        take_rex env (buf_size env) now seq b st =
          Some (True, b\<lparr>bt_bs := portable_add p (bt_bs b), bt_rex_bytes := bt_rex_bytes b + length p,
                  bt_rex_n := bt_rex_n b + 1, bt_rex_idx := bt_rex_idx b + 1\<rparr>, st\<lparr>ss_tick := t, ss_scratch := sc\<rparr>)))"
proof -
  define sc where "sc = (if bt_rex_idx b = length (ss_scratch st) then ss_scratch st @ [replicate (buf_size env) 0]
                         else ss_scratch st)"
  have sc: "bt_rex_idx b < length sc" "\<forall>buf \<in> set sc. length buf = buf_size env"
    using fill_scratch_length [OF _ assms(4) sc_def] assms(3) by (auto simp: sender_inv_def)
  then have buf: "index_at sc (bt_rex_idx b) = Some (sc ! bt_rex_idx b)" "length (sc ! bt_rex_idx b) = buf_size env"
    by (auto simp: index_in_range)
  from fill_retransmit_ok [OF assms(1,2) buf(2), of seq] show ?thesis
  proof (elim disjE exE conjE)
    assume "fill_retransmit env (sc ! bt_rex_idx b) seq = Some None" and nv: "\<not> unat seq < unat (se_total_blocks env)"
    then have "take_rex env (buf_size env) now seq b st = Some (False, b, st\<lparr>ss_tick := ss_tick st, ss_scratch := sc\<rparr>)"
      using buf(1) by (simp add: take_rex_def Let_def flip: sc_def)
    then show ?thesis using sc nv by (intro exI [of _ "ss_tick st"] exI [of _ sc]) simp
  next
    fix buf' n payload
    assume f: "fill_retransmit env (sc ! bt_rex_idx b) seq = Some (Some (buf', n))" "length buf' = buf_size env"
        "n \<le> buf_size env" "carries env dec True (take n buf') seq payload"
      and blk: "unat seq < unat (se_total_blocks env) \<longrightarrow> payload = block_of data (se_block_size env) (unat seq)"
    obtain buf'' t where a: "attach_tick now buf' st = Some (buf'', st\<lparr>ss_tick := t\<rparr>)" "length buf'' = length buf'"
        "carries env dec True (take n buf'') seq payload"
      using attach_tick_ok [OF f(4), of now st] f(2,3) by auto
    have "take_rex env (buf_size env) now seq b st =
        Some (True, b\<lparr>bt_bs := portable_add (take n buf'') (bt_bs b), bt_rex_bytes := bt_rex_bytes b + length (take n buf''),
              bt_rex_n := bt_rex_n b + 1, bt_rex_idx := bt_rex_idx b + 1\<rparr>,
              st\<lparr>ss_tick := t, ss_scratch := sc[bt_rex_idx b := buf'']\<rparr>)"
      using buf(1) f a(1,2) by (simp add: take_rex_def Let_def subslice_def flip: sc_def)
    moreover have "\<forall>buf \<in> set (sc[bt_rex_idx b := buf'']). length buf = buf_size env"
      using sc(2) a(2) f(2) by (auto dest!: subsetD [OF set_update_subset_insert])
    moreover have "bt_rex_idx b + 1 \<le> length (sc[bt_rex_idx b := buf''])" using sc(1) by simp
    ultimately show ?thesis
      using a(3) blk
      by (intro exI [of _ t] exI [of _ "sc[bt_rex_idx b := buf'']"] conjI disjI2 exI [of _ "take n buf''"] exI [of _ payload])
  qed
qed

lemma take_new_ok:
  assumes "new_item env dec data k item"
  shows "\<exists>t p buf. carries env dec False p (of_nat k) (block_of data (se_block_size env) k) \<and> length buf = buf_size env \<and>
     take_new now item b st =
       Some (b\<lparr>bt_bs := portable_add p (bt_bs b), bt_new_bytes := bt_new_bytes b + length p,
               bt_new_n := bt_new_n b + 1, bt_new_bufs := bt_new_bufs b @ [buf]\<rparr>, st\<lparr>ss_tick := t\<rparr>)"
proof -
  obtain buf n where item: "item = (buf, n)" by (cases item)
  then have i: "length buf = buf_size env" "n \<le> buf_size env"
      "carries env dec False (take n buf) (of_nat k) (block_of data (se_block_size env) k)"
    using assms by (auto simp: new_item_def)
  obtain buf' t where a: "attach_tick now buf st = Some (buf', st\<lparr>ss_tick := t\<rparr>)" "length buf' = length buf"
      "carries env dec False (take n buf') (of_nat k) (block_of data (se_block_size env) k)"
    using attach_tick_ok [OF i(3), of now st] i(1,2) by auto
  then show ?thesis
    using item i by (intro exI [of _ t] exI [of _ "take n buf'"] exI [of _ buf']) (simp add: take_new_def subslice_def)
qed

lemma batch_ok_counts:
  assumes "batch_ok env dec built b st"
  shows "ps_cap (bt_bs b) = 1024" and "length (ps_pkts (bt_bs b)) = built" and "bt_rex_n b + bt_new_n b = built"
    and "bt_rex_bytes b + bt_new_bytes b = sum_list (map length (ps_pkts (bt_bs b)))"
    and "bt_rex_idx b \<le> length (ss_scratch st)" and "\<forall>buf \<in> set (bt_new_bufs b). length buf = buf_size env"
  using assms unfolding batch_ok_def by blast+

lemma batch_ok_skip:
  assumes "batch_ok env dec built b st" and "set (rq_heap (ss_rex st')) \<subseteq> set (rq_heap (ss_rex st))"
    and "bt_rex_idx b \<le> length (ss_scratch st')"
  shows "batch_ok env dec built b st'"
proof -
  have "rq_heap (ss_rex st) = [] \<longrightarrow> rq_heap (ss_rex st') = []" using assms(2) by auto
  then show ?thesis using assms unfolding batch_ok_def by (elim conjE exE) (intro conjI exI, assumption+, blast+)
qed

lemma batch_ok_rex:
  assumes "batch_ok env dec built b st" and "built < 1024" and "rq_heap (ss_rex st) = seq # h"
    and "\<forall>x \<in> set h. seq < x" and "rq_heap (ss_rex st') = h" and "carries env dec True p seq payload"
    and "bt_rex_idx b + 1 \<le> length (ss_scratch st')"
  shows "batch_ok env dec (built + 1)
           (b\<lparr>bt_bs := portable_add p (bt_bs b), bt_rex_bytes := bt_rex_bytes b + length p,
              bt_rex_n := bt_rex_n b + 1, bt_rex_idx := bt_rex_idx b + 1\<rparr>) st'"
proof -
  obtain rs where rs: "ps_pkts (bt_bs b) = rs" "length rs = bt_rex_n b"
      "\<forall>p \<in> set rs. \<exists>seq d. carries env dec True p seq d" "sorted_wrt (<) (map pdu_seq rs)"
      "\<forall>p \<in> set rs. \<forall>q \<in> set (seq # h). pdu_seq p < q"
    using assms(1,3) by (auto simp: batch_ok_def)
  note b = batch_ok_counts [OF assms(1)]
  have add: "portable_add p (bt_bs b) = (bt_bs b)\<lparr>ps_pkts := rs @ [p]\<rparr>"
    using b assms(2) rs(1) by (simp add: portable_add_def)
  have seq: "pdu_seq p = seq" by (rule carries_seq [OF assms(6)])
  have "\<forall>p \<in> set (rs @ [p]). \<exists>seq d. carries env dec True p seq d" using rs(3) assms(6) by auto
  moreover have "sorted_wrt (<) (map pdu_seq (rs @ [p]))"
    using rs(4,5) by (simp add: sorted_wrt_append seq)
  moreover have "\<forall>p \<in> set (rs @ [p]). \<forall>q \<in> set (rq_heap (ss_rex st')). pdu_seq p < q"
    using rs(5) assms(4,5) seq by simp
  ultimately show ?thesis
    unfolding batch_ok_def using b assms(7) add rs(1,2)
    by (intro conjI exI [of _ "rs @ [p]"] exI [of _ "[]"]) simp_all
qed

lemma batch_ok_new:
  assumes "batch_ok env dec built b st" and "built < 1024" and "rq_heap (ss_rex st) = []"
    and "rq_heap (ss_rex st') = []" and "carries env dec False p seq payload" and "length buf = buf_size env"
    and "ss_scratch st' = ss_scratch st"
  shows "batch_ok env dec (built + 1)
           (b\<lparr>bt_bs := portable_add p (bt_bs b), bt_new_bytes := bt_new_bytes b + length p,
              bt_new_n := bt_new_n b + 1, bt_new_bufs := bt_new_bufs b @ [buf]\<rparr>) st'"
proof -
  obtain rs ns where rs: "ps_pkts (bt_bs b) = rs @ ns" "length rs = bt_rex_n b"
      "\<forall>p \<in> set rs. \<exists>seq d. carries env dec True p seq d" "\<forall>p \<in> set ns. \<exists>seq d. carries env dec False p seq d"
      "sorted_wrt (<) (map pdu_seq rs)"
    using assms(1) by (auto simp: batch_ok_def)
  note b = batch_ok_counts [OF assms(1)]
  have add: "portable_add p (bt_bs b) = (bt_bs b)\<lparr>ps_pkts := rs @ (ns @ [p])\<rparr>"
    using b assms(2) rs(1) by (simp add: portable_add_def)
  have "\<forall>p \<in> set (ns @ [p]). \<exists>seq d. carries env dec False p seq d" using rs(4) assms(5) by auto
  then show ?thesis
    unfolding batch_ok_def using b assms(4,6,7) add rs(1,2,3,5)
    by (intro conjI exI [of _ rs] exI [of _ "ns @ [p]"]) simp_all
qed

lemma sender_inv_take:
  assumes "sender_inv q env dec data k st" and "ss_ready st = item # items"
  shows "new_item env dec data k item" and "k < unat (se_total_blocks env)"
    and "sender_inv q env dec data (Suc k) (st\<lparr>ss_ready := items\<rparr>)"
proof -
  have r: "\<forall>i < length (item # items). new_item env dec data (k + i) ((item # items) ! i)"
    using assms by (simp add: sender_inv_def)
  then show "new_item env dec data k item" by force
  show "k < unat (se_total_blocks env)" using assms by (auto simp: sender_inv_def)
  have "new_item env dec data (Suc k + i) (items ! i)" if "i < length items" for i
    using r [rule_format, of "Suc i"] that by simp
  then show "sender_inv q env dec data (Suc k) (st\<lparr>ss_ready := items\<rparr>)"
    using assms by (auto simp: sender_inv_def)
qed

text \<open>The state in the middle of a batch, and that each branch of the loop keeps it. The blocks
  of \<open>Q\<close> are still queued or already in the batch.\<close>

definition pending_sent :: "sender_env \<Rightarrow> dec_fun \<Rightarrow> byte list \<Rightarrow> u64 set \<Rightarrow> batch \<Rightarrow> sender_state \<Rightarrow> bool" where
  "pending_sent env dec data Q b st \<longleftrightarrow>
     (\<forall>seq \<in> Q. unat seq < unat (se_total_blocks env) \<longrightarrow> seq \<in> set (rq_heap (ss_rex st)) \<or>
        (\<exists>p \<in> set (ps_pkts (bt_bs b)). carries env dec True p seq (block_of data (se_block_size env) (unat seq))))"

definition building ::
  "bool \<Rightarrow> sender_env \<Rightarrow> dec_fun \<Rightarrow> byte list \<Rightarrow> nat \<Rightarrow> u64 set \<Rightarrow> nat \<Rightarrow> nat \<Rightarrow> batch \<Rightarrow> sender_state \<Rightarrow> bool" where
  "building q env dec data to_send Q k0 built b st \<longleftrightarrow>
     batch_ok env dec built b st \<and> built \<le> to_send \<and>
     (\<exists>k. sender_inv q env dec data k st \<and> wire_log q env dec data k0 (ps_pkts (bt_bs b)) k) \<and>
     pending_sent env dec data Q b st"

lemma building_rex:
  assumes "sender_for env dec data" and "source_reads (se_read env) data" and "to_send \<le> 1024"
    and "building q env dec data to_send Q k0 built b st" and "built < to_send" and "pop_retransmit st = Some (seq, st1)"
  shows "\<exists>ok b' st'. take_rex env (buf_size env) now seq b st1 = Some (ok, b', st') \<and>
           building q env dec data to_send Q k0 (if ok then built + 1 else built) b' st'"
proof -
  obtain k where bok: "batch_ok env dec built b st" and inv: "sender_inv q env dec data k st"
      and log: "wire_log q env dec data k0 (ps_pkts (bt_bs b)) k"
      and pend: "pending_sent env dec data Q b st"
    using assms(4) by (auto simp: building_def)
  note cnt = batch_ok_counts [OF bok]
  have "rex_ok (ss_rex st)" using inv by (simp add: sender_inv_def)
  then obtain h s where h: "st1 = st\<lparr>ss_rex := \<lparr>rq_heap = h, rq_set = set h\<rparr>, ss_stats := s\<rparr>"
      "rq_heap (ss_rex st) = seq # h" "\<forall>x \<in> set h. seq < x" "rex_ok \<lparr>rq_heap = h, rq_set = set h\<rparr>"
    using assms(6) by (cases rule: pop_retransmit_cases) auto
  have inv1: "sender_inv q env dec data k st1" using inv h(1,4) by (simp add: sender_inv_def)
  have idx: "bt_rex_idx b \<le> length (ss_scratch st1)" using cnt(5) by (simp add: h(1))
  from take_rex_ok [OF assms(1,2) inv1 idx, of seq now] show ?thesis
  proof (elim exE conjE disjE)
    fix t sc
    assume sc: "\<forall>buf \<in> set sc. length buf = buf_size env" "bt_rex_idx b \<le> length sc"
      and nv: "\<not> unat seq < unat (se_total_blocks env)"
      and f: "take_rex env (buf_size env) now seq b st1 = Some (False, b, st1\<lparr>ss_tick := t, ss_scratch := sc\<rparr>)"
    have "batch_ok env dec built b (st1\<lparr>ss_tick := t, ss_scratch := sc\<rparr>)"
      using batch_ok_skip [OF bok, of "st1\<lparr>ss_tick := t, ss_scratch := sc\<rparr>"] h(1,2) sc(2) by auto
    moreover have "sender_inv q env dec data k (st1\<lparr>ss_tick := t, ss_scratch := sc\<rparr>)"
      using inv1 sc(1) by (simp add: sender_inv_def)
    moreover have "pending_sent env dec data Q b (st1\<lparr>ss_tick := t, ss_scratch := sc\<rparr>)"
      using pend nv h(1,2) by (auto simp: pending_sent_def)
    ultimately have "building q env dec data to_send Q k0 built b (st1\<lparr>ss_tick := t, ss_scratch := sc\<rparr>)"
      unfolding building_def using log assms(5) less_imp_le by blast
    then show ?thesis using f by (intro exI [of _ False]) simp
  next
    fix t sc p payload
    assume sc: "\<forall>buf \<in> set sc. length buf = buf_size env" "bt_rex_idx b + 1 \<le> length sc"
      and p: "carries env dec True p seq payload"
        "unat seq < unat (se_total_blocks env) \<longrightarrow> payload = block_of data (se_block_size env) (unat seq)"
      and f: "take_rex env (buf_size env) now seq b st1 =
          Some (True, b\<lparr>bt_bs := portable_add p (bt_bs b), bt_rex_bytes := bt_rex_bytes b + length p,
             bt_rex_n := bt_rex_n b + 1, bt_rex_idx := bt_rex_idx b + 1\<rparr>, st1\<lparr>ss_tick := t, ss_scratch := sc\<rparr>)"
        (is "_ = Some (True, ?b, ?st)")
    have "batch_ok env dec (built + 1) ?b ?st"
      using assms(3,5) sc(2) by (intro batch_ok_rex [OF bok _ h(2,3) _ p(1)]) (simp_all add: h(1))
    moreover have "wire_log q env dec data k0 (ps_pkts (bt_bs ?b)) k"
      using log_Rex [OF log p] cnt assms(3,5) by (simp add: portable_add_def)
    moreover have "sender_inv q env dec data k ?st" using inv1 sc(1) by (simp add: sender_inv_def)
    moreover have "pending_sent env dec data Q ?b ?st"
      using pend p cnt assms(3,5) h(1,2) by (auto simp: pending_sent_def portable_add_def)
    ultimately have "building q env dec data to_send Q k0 (built + 1) ?b ?st"
      unfolding building_def using assms(5) Suc_leI by (metis Suc_eq_plus1)
    then show ?thesis using f by (intro exI [of _ True]) simp
  qed
qed

lemma building_new:
  assumes "to_send \<le> 1024" and "building q env dec data to_send Q k0 built b st" and "built < to_send"
    and "pop_retransmit st = None" and "ss_ready st = item # items"
  shows "\<exists>b' st'. take_new now item b (st\<lparr>ss_ready := items\<rparr>) = Some (b', st') \<and>
           building q env dec data to_send Q k0 (built + 1) b' st'"
proof -
  obtain k where bok: "batch_ok env dec built b st" and inv: "sender_inv q env dec data k st"
      and log: "wire_log q env dec data k0 (ps_pkts (bt_bs b)) k"
      and pend: "pending_sent env dec data Q b st"
    using assms(2) by (auto simp: building_def)
  note cnt = batch_ok_counts [OF bok] and tk = sender_inv_take [OF inv assms(5)]
  have "rex_ok (ss_rex st)" using inv by (simp add: sender_inv_def)
  then have nil: "rq_heap (ss_rex st) = []" using assms(4) by (cases rule: pop_retransmit_cases) auto
  obtain t p buf where tn: "carries env dec False p (of_nat k) (block_of data (se_block_size env) k)"
      "length buf = buf_size env"
      "take_new now item b (st\<lparr>ss_ready := items\<rparr>) =
         Some (b\<lparr>bt_bs := portable_add p (bt_bs b), bt_new_bytes := bt_new_bytes b + length p,
                 bt_new_n := bt_new_n b + 1, bt_new_bufs := bt_new_bufs b @ [buf]\<rparr>, st\<lparr>ss_ready := items, ss_tick := t\<rparr>)"
    (is "_ = Some (?b, ?st)")
    using take_new_ok [OF tk(1), of now b "st\<lparr>ss_ready := items\<rparr>"] by auto
  have "batch_ok env dec (built + 1) ?b ?st"
    using assms(1,3) nil by (intro batch_ok_new [OF bok _ nil _ tn(1,2)]) simp_all
  moreover have "wire_log q env dec data k0 (ps_pkts (bt_bs ?b)) (Suc k)"
    using log_New [OF log tk(2) tn(1)] cnt assms(1,3) by (simp add: portable_add_def)
  moreover have "sender_inv q env dec data (Suc k) ?st" using tk(3) by (simp add: sender_inv_def)
  moreover have "pending_sent env dec data Q ?b ?st"
    using pend nil cnt assms(1,3) by (auto simp: pending_sent_def portable_add_def)
  ultimately have "building q env dec data to_send Q k0 (built + 1) ?b ?st"
    unfolding building_def using assms(3) Suc_leI by (metis Suc_eq_plus1)
  then show ?thesis using tn(3) by blast
qed

lemma building_closed:
  assumes "building q env dec data to_send Q k0 built b st" and "ss_ready st = []" and "ss_closed st"
  shows "building q env dec data to_send Q k0 built b (st\<lparr>ss_new_done := True\<rparr>)"
proof -
  have "batch_ok env dec built b (st\<lparr>ss_new_done := True\<rparr>)"
    using assms(1) batch_ok_skip [of env dec built b st "st\<lparr>ss_new_done := True\<rparr>"] batch_ok_counts(5)
    by (auto simp: building_def)
  moreover have "sender_inv q env dec data k (st\<lparr>ss_new_done := True\<rparr>)" if "sender_inv q env dec data k st" for k
    using that assms(2,3) by (simp add: sender_inv_def)
  ultimately show ?thesis using assms(1) unfolding building_def by (auto simp: pending_sent_def)
qed

lemma build_batch_ok:
  assumes "sender_for env dec data" and "source_reads (se_read env) data" and "to_send \<le> 1024"
    and "building q env dec data to_send Q k0 built b st" and "bl = buf_size env"
  shows "\<exists>b' st' built'. build_batch env bl now to_send built b st = Some (b', st') \<and>
           building q env dec data to_send Q k0 built' b' st'"
  using assms
proof (induction env bl now to_send built b st rule: build_batch.induct)
  case (1 env bl now to_send built b st)
  note env = "1.prems"(1,2,3) and mid = "1.prems"(4)
  consider "\<not> built < to_send \<or> (pop_retransmit st = None \<and> (ss_new_done st \<or> ss_ready st = [] \<and> \<not> ss_closed st))"
    | seq st1 where "built < to_send" "pop_retransmit st = Some (seq, st1)"
    | item items where "built < to_send" "pop_retransmit st = None" "\<not> ss_new_done st" "ss_ready st = item # items"
    | "built < to_send" "pop_retransmit st = None" "\<not> ss_new_done st" "ss_ready st = []" "ss_closed st"
    by (cases "pop_retransmit st"; cases "ss_ready st") auto
  then show ?case
  proof cases
    case 1
    then have "build_batch env bl now to_send built b st = Some (b, st)" by (auto simp: build_batch.simps)
    then show ?thesis using mid by blast
  next
    case 2
    obtain ok b' st' where t: "take_rex env bl now seq b st1 = Some (ok, b', st')"
        "building q env dec data to_send Q k0 (if ok then built + 1 else built) b' st'"
      using building_rex [OF env mid 2, of now] "1.prems"(5) by blast
    have "build_batch env bl now to_send built b st =
        build_batch env bl now to_send (if ok then built + 1 else built) b' st'"
      using 2 t(1) by (subst build_batch.simps) simp
    then show ?thesis using "1.IH"(3) [OF 2 refl t(1) refl refl env t(2) "1.prems"(5)] by metis
  next
    case 3
    obtain b' st' where t: "take_new now item b (st\<lparr>ss_ready := items\<rparr>) = Some (b', st')"
        "building q env dec data to_send Q k0 (built + 1) b' st'"
      using building_new [OF env(3) mid 3(1,2,4), of now] by blast
    have "build_batch env bl now to_send built b st = build_batch env bl now to_send (built + 1) b' st'"
      using 3 t(1) by (subst build_batch.simps) simp
    then show ?thesis using "1.IH"(2) [OF 3 t(1) refl env t(2) "1.prems"(5)] by metis
  next
    case 4
    then have "build_batch env bl now to_send built b st = build_batch env bl now to_send built b (st\<lparr>ss_new_done := True\<rparr>)"
      by (subst build_batch.simps) simp
    then show ?thesis
      using "1.IH"(1) [OF 4 env building_closed [OF mid 4(4,5)] "1.prems"(5)] by metis
  qed
qed

section \<open>The steps keep the invariant\<close>

lemma recompute_batch:
  assumes "recompute bs rate = (r, ipd, bt)"
  shows "1 \<le> bt" and "bt \<le> real MAX_BATCH" and "r = max rate 1"
proof -
  have "1 \<le> fadd (f64_of_nat n) 1" for n
    unfolding fadd_def using f64.rnd_int [of 1] by (intro f64.rnd_ge_rep) simp_all
  then show "1 \<le> bt" "bt \<le> real MAX_BATCH" "r = max rate 1"
    using assms by (auto simp: recompute_def Let_def MAX_BATCH_def split: if_splits)
qed

lemma batch_size_bounds:
  assumes "1 \<le> bt" and "bt \<le> real MAX_BATCH"
  shows "1 \<le> as_u64 bt" and "as_u64 bt \<le> MAX_BATCH"
  using as_u64_mono [OF assms(1)] as_u64_mono [OF assms(2)] as_u64_of_nat [of 1] as_u64_of_nat [of MAX_BATCH]
  by (simp_all add: MAX_BATCH_def)

lemma fin_pdu_eq: "fin_pdu env = Some (PDU_FIN # 0 # 0 # 0 # le_bytes 4 (se_session env) @ le_bytes 8 (se_total_blocks env))"
  by (simp add: fin_pdu_def encode_fin_eq subslice_def)

lemma build_batch_start:
  assumes "sender_for env dec data" and "source_reads (se_read env) data" and "to_send \<le> 1024"
    and "sender_inv q env dec data k st"
  shows "\<exists>b st' built. build_batch env (buf_size env) now to_send 0 batch_empty st = Some (b, st') \<and>
           building q env dec data to_send (rq_set (ss_rex st)) k built b st'"
proof -
  have "ps_pkts (bt_bs batch_empty) = []" by (simp add: batch_empty_def portable_reset_def)
  then have "building q env dec data to_send (rq_set (ss_rex st)) k 0 batch_empty st"
    using assms(4) log_Nil by (auto simp: building_def pending_sent_def batch_ok_empty sender_inv_def rex_ok_def)
  then show ?thesis using build_batch_ok [OF assms(1-3) _ refl] by blast
qed

text \<open>The frame of the batch loop: it touches neither the done flag nor the rate.\<close>

lemma build_batch_frame:
  "build_batch env bl now to_send built b st = Some (b', st') \<Longrightarrow>
   ss_done st' = ss_done st \<and> ss_control st' = ss_control st \<and> ss_ipd_us st' = ss_ipd_us st \<and>
   ss_target st' = ss_target st \<and> rex_len st' \<le> rex_len st"
proof (induction env bl now to_send built b st rule: build_batch.induct)
  case (1 env bl now to_send built b st)
  have pop: "ss_done st1 = ss_done st \<and> ss_control st1 = ss_control st \<and> ss_ipd_us st1 = ss_ipd_us st \<and>
      ss_target st1 = ss_target st \<and> rex_len st1 \<le> rex_len st"
    if "pop_retransmit st = Some (seq, st1)" for seq st1
    using that pop_rex_len [OF that] by (auto simp: pop_retransmit_def store_rex_len_def split: option.splits)
  have rex: "ss_done st2 = ss_done st1 \<and> ss_control st2 = ss_control st1 \<and> ss_ipd_us st2 = ss_ipd_us st1 \<and>
      ss_target st2 = ss_target st1 \<and> rex_len st2 = rex_len st1"
    if "take_rex env bl now seq b st1 = Some (ok, b2, st2)" for seq st1 ok b2 st2
    using that take_rex_frame [OF that] unfolding rex_len_def by (auto simp: take_rex_def Let_def split: option.splits Option.bind_splits dest!: attach_tick_frame)
  note r = "1.prems" [unfolded build_batch.simps [of env bl now to_send built b st]]
  show ?case
  proof (cases "built < to_send")
    case True
    show ?thesis
    proof (cases "pop_retransmit st")
      case (Some x)
      obtain seq st1 where x: "x = (seq, st1)" by (cases x)
      then obtain ok b2 st2 where t: "take_rex env bl now seq b st1 = Some (ok, b2, st2)"
          "build_batch env bl now to_send (if ok then built + 1 else built) b2 st2 = Some (b', st')"
        using r True Some by (auto split: option.splits prod.splits)
      then show ?thesis using "1.IH"(3) [OF True Some x [symmetric] t(1) refl refl t(2)] pop [OF Some [unfolded x]] rex [OF t(1)]
        by (metis le_trans)
    next
      case None
      show ?thesis
      proof (cases "ss_new_done st \<or> (ss_ready st = [] \<and> \<not> ss_closed st)")
        case False
        then show ?thesis
        proof (cases "ss_ready st")
          case Nil
          then show ?thesis using "1.IH"(1) [OF True None _ Nil] False r True None by (auto simp: rex_len_def)
        next
          case (Cons item items)
          then obtain b2 st2 where t: "take_new now item b (st\<lparr>ss_ready := items\<rparr>) = Some (b2, st2)"
              "build_batch env bl now to_send (built + 1) b2 st2 = Some (b', st')"
            using r True None False by (auto split: option.splits prod.splits)
          obtain tt where "st2 = st\<lparr>ss_ready := items, ss_tick := tt\<rparr>" using take_new_frame [OF t(1)] by auto
          then show ?thesis using "1.IH"(2) [OF True None _ Cons t(1) refl t(2)] False by (auto simp: rex_len_def)
        qed
      qed (use r True None in \<open>auto split: list.splits if_splits\<close>)
    qed
  qed (use r in auto)
qed

lemma sender_inv_updates:
  assumes "sender_inv q env dec data k st"
  shows "sender_inv q env dec data k (st\<lparr>ss_stats := s\<rparr>)"
    and "sender_inv q env dec data k (st\<lparr>ss_deadline := d\<rparr>)"
    and "sender_inv q env dec data k (st\<lparr>ss_done := True\<rparr>)"
    and "sender_inv q env dec data k (st\<lparr>ss_tick := t\<rparr>)"
    and "sender_inv q env dec data k (st\<lparr>ss_target := r\<rparr>)"
    and "sender_inv q env dec data k (st\<lparr>ss_control := c\<rparr>)"
    and "1 \<le> bt \<Longrightarrow> bt \<le> real MAX_BATCH \<Longrightarrow>
         sender_inv q env dec data k (st\<lparr>ss_rate := r', ss_ipd_us := ipd, ss_batch := bt\<rparr>)"
    and "\<forall>buf \<in> set bufs. length buf = buf_size env \<Longrightarrow>
         sender_inv q env dec data k (st\<lparr>ss_free := ss_free st @ bufs\<rparr>)"
  using assms by (auto simp: sender_inv_def)

lemma retune_ok:
  assumes "sender_inv q env dec data k st"
  shows "sender_inv q env dec data k (retune env st)" and "ss_done (retune env st) = ss_done st"
    and "ss_rex (retune env st) = ss_rex st"
proof -
  obtain rate ipd bt where rc: "recompute (se_block_size env) (effective_rate (ss_control st) (ss_target st)) = (rate, ipd, bt)"
    by (cases "recompute (se_block_size env) (effective_rate (ss_control st) (ss_target st))") auto
  note bt = recompute_batch [OF rc]
  show "sender_inv q env dec data k (retune env st)"
    using sender_inv_updates(1) [OF assms] sender_inv_updates(7) [OF sender_inv_updates(1) [OF assms] bt(1,2)]
    by (simp add: retune_def Let_def rc)
qed (simp_all add: retune_def Let_def split: prod.split)

lemma settle_ok:
  assumes "sender_inv q env dec data k st" and "batch_ok env dec built b st"
  shows "sender_inv q env dec data k (settle b st)"
  using sender_inv_updates(8) [OF sender_inv_updates(1) [OF assms(1)] batch_ok_counts(6) [OF assms(2)]]
  by (simp add: settle_def)

lemma announce_fin_ok:
  assumes "sender_inv q env dec data k st" and "\<not> ss_done st"
  shows "\<exists>f. announce_fin env st = Some f \<and> length f \<le> 1 \<and> wire_log q env dec data k f k"
proof (cases "ss_new_done st \<and> rex_len st = 0")
  case True
  obtain p where p: "fin_pdu env = Some p" using fin_pdu_eq by blast
  have "q \<longrightarrow> k = unat (se_total_blocks env)" using assms True by (auto simp: sender_inv_def)
  then have "wire_log q env dec data k ([] @ [p]) k" by (intro log_Fin [OF log_Nil p])
  then show ?thesis using True p by (simp add: announce_fin_def)
qed (auto simp: announce_fin_def intro: log_Nil)

text \<open>A turn that is not stopped, paused or done, and its batch.\<close>

lemma pacing_step_active:
  assumes "sender_for env dec data" and "source_reads (se_read env) data" and "sender_inv q env dec data k st"
    and "\<not> ss_done st" and "\<not> should_stop stop (ss_control st)" and "\<not> control_paused (ss_control st)"
  shows "\<exists>b st2 built f st' k'.
           build_batch env (buf_size env) (of_nat t1) (as_u64 (ss_batch (retune env st))) 0 batch_empty (retune env st) = Some (b, st2) \<and>
           building q env dec data (as_u64 (ss_batch (retune env st))) (rq_set (ss_rex st)) k built b st2 \<and>
           pacing_step env (buf_size env) stop t1 t2 st = Some (PaceGoOn, ps_pkts (bt_bs b) @ f, st') \<and>
           sender_inv q env dec data k' st' \<and> wire_log q env dec data k (ps_pkts (bt_bs b) @ f) k' \<and>
           \<not> ss_done st' \<and> ss_rex st' = ss_rex st2 \<and> length (ps_pkts (bt_bs b) @ f) \<le> MAX_BATCH + 1 \<and>
           length f \<le> 1"
proof -
  note rt = retune_ok [OF assms(3)]
  have ts: "as_u64 (ss_batch (retune env st)) \<le> MAX_BATCH"
    using rt(1) batch_size_bounds by (auto simp: sender_inv_def)
  obtain b st2 built where bb: "build_batch env (buf_size env) (of_nat t1) (as_u64 (ss_batch (retune env st))) 0 batch_empty (retune env st) = Some (b, st2)"
      "building q env dec data (as_u64 (ss_batch (retune env st))) (rq_set (ss_rex st)) k built b st2"
    using build_batch_start [OF assms(1,2) _ rt(1), of "as_u64 (ss_batch (retune env st))" "of_nat t1"] ts rt(3)
    by (auto simp: MAX_BATCH_def)
  obtain k' where k': "batch_ok env dec built b st2" "built \<le> as_u64 (ss_batch (retune env st))"
      "sender_inv q env dec data k' st2" "wire_log q env dec data k (ps_pkts (bt_bs b)) k'"
    using bb(2) by (auto simp: building_def)
  have inv3: "sender_inv q env dec data k' (settle b st2)" by (rule settle_ok [OF k'(3,1)])
  have done3: "\<not> ss_done (settle b st2)" using build_batch_frame [OF bb(1)] assms(4) rt(2) by (simp add: settle_def)
  obtain f where f: "announce_fin env (settle b st2) = Some f" "length f \<le> 1" "wire_log q env dec data k' f k'"
    using announce_fin_ok [OF inv3 done3] by blast
  let ?st' = "(settle b st2)\<lparr>ss_deadline := next_deadline t2 (ss_ipd_us (settle b st2)) (ss_deadline (settle b st2))\<rparr>"
  have "pacing_step env (buf_size env) stop t1 t2 st = Some (PaceGoOn, ps_pkts (bt_bs b) @ f, ?st')"
    using assms(4-6) bb(1) f(1) by (simp add: pacing_step_def Let_def)
  moreover have "length (ps_pkts (bt_bs b) @ f) \<le> MAX_BATCH + 1"
    using batch_ok_counts(2) [OF k'(1)] k'(2) ts f(2) by simp
  moreover have "\<not> ss_done ?st'" "ss_rex ?st' = ss_rex st2" using done3 by (simp_all add: settle_def)
  ultimately show ?thesis
    using bb f(2) wire_log_append [OF f(3) k'(4)] sender_inv_updates(2) [OF inv3] by blast
qed

lemma pacing_step_ok:
  assumes "sender_for env dec data" and "source_reads (se_read env) data" and "sender_inv q env dec data k st"
  shows "\<exists>res wire st' k'. pacing_step env (buf_size env) stop t1 t2 st = Some (res, wire, st') \<and>
           sender_inv q env dec data k' st' \<and> wire_log q env dec data k wire k' \<and>
           (res = PaceOk \<longleftrightarrow> ss_done st) \<and> ss_done st' = ss_done st"
proof (cases "ss_done st \<or> should_stop stop (ss_control st) \<or> control_paused (ss_control st)")
  case True
  then show ?thesis
    using assms(3) sender_inv_updates(2) [OF assms(3), of "f64_of_nat t1"] log_Nil
    by (cases "ss_done st"; cases "should_stop stop (ss_control st)") (auto simp: pacing_step_def)
next
  case False
  then show ?thesis
    using pacing_step_active [OF assms, of stop t1 t2] by (metis pace_result.distinct(3))
qed

lemma prefetch_step_ok:
  assumes "sender_for env dec data" and "source_reads (se_read env) data" and "sender_inv q env dec data k st"
    and "q \<longrightarrow> \<not> should_stop stop (ss_control st)"
  shows "\<exists>st'. prefetch_step env stop st = Some st' \<and> sender_inv q env dec data k st' \<and> ss_done st' = ss_done st \<and>
           ss_control st' = ss_control st"
proof (cases "ss_closed st \<or> ss_next st \<ge> se_total_blocks env \<or> should_stop stop (ss_control st) \<or> ss_done st \<or> ss_free st = []")
  case True
  have le: "unat (ss_next st) \<le> unat (se_total_blocks env)" using assms(3) by (simp add: sender_inv_def)
  then have "ss_next st \<ge> se_total_blocks env \<Longrightarrow> ss_next st = se_total_blocks env"
    by (metis antisym word_le_nat_alt)
  then show ?thesis using True assms(3,4) by (auto simp: prefetch_step_def sender_inv_def)
next
  case False
  then obtain buf bufs where free: "ss_free st = buf # bufs" by (cases "ss_free st") auto
  let ?n = "unat (ss_next st)"
  have n: "?n < unat (se_total_blocks env)" using False by (simp add: word_less_nat_alt not_le)
  have "length buf = buf_size env" using assms(3) free by (simp add: sender_inv_def)
  then obtain buf' m where pb: "prefetch_block env buf (of_nat ?n) = Some (Some (buf', m))" "length buf' = buf_size env"
      "m \<le> buf_size env" "carries env dec False (take m buf') (of_nat ?n) (block_of data (se_block_size env) ?n)"
    using prefetch_block_ok [OF assms(1,2) _ n] by blast
  let ?st = "st\<lparr>ss_free := bufs, ss_ready := ss_ready st @ [(buf', m)], ss_next := ss_next st + 1\<rparr>"
  have "prefetch_step env stop st = Some ?st" using False free pb(1) by (simp add: prefetch_step_def)
  moreover have nx: "unat (ss_next st + 1) = Suc ?n"
  proof -
    have "unat (se_total_blocks env) < 2 ^ 64" using unsigned_less [of "se_total_blocks env"] by simp
    then show ?thesis using n unat_of_nat_small [of "Suc ?n"] by (simp add: add.commute)
  qed
  moreover have "new_item env dec data ?n (buf', m)" using pb(2-4) by (simp add: new_item_def)
  then have "sender_inv q env dec data k ?st"
    using assms(3) free n nx False unfolding sender_inv_def by (auto simp: nth_append less_Suc_eq)
  ultimately show ?thesis by simp
qed

text \<open>The feedback that ends a transfer.\<close>

fun done_feedback :: "sender_env \<Rightarrow> sender_event \<Rightarrow> bool" where
  "done_feedback env (EvFeedback stop now pkt addr) \<longleftrightarrow>
     addr = se_peer env \<and> (\<exists>fh nacks. decode_feedback pkt = Some (Some (fh, nacks)) \<and>
       fh_session fh = se_session env \<and> fh_done fh)"
| "done_feedback env ev \<longleftrightarrow> False"

lemma push_retransmits_frame:
  "\<exists>r s. push_retransmits ns st = st\<lparr>ss_rex := r, ss_stats := s\<rparr>"
  by (auto simp: push_retransmits_def store_rex_len_def)

lemma adopt_target_frame: "\<exists>r s. adopt_target env fh st = st\<lparr>ss_target := r, ss_stats := s\<rparr>"
proof (cases "fh_target_rate fh > 0")
  case False
  then show ?thesis by (intro exI [of _ "ss_target st"] exI [of _ "ss_stats st"]) (simp add: adopt_target_def)
qed (auto simp: adopt_target_def Let_def)

lemma feedback_fields [simp]:
  "ss_done (push_retransmits ns st) = ss_done st" "ss_control (push_retransmits ns st) = ss_control st"
  "ss_done (adopt_target env fh st) = ss_done st" "ss_control (adopt_target env fh st) = ss_control st"
  by (simp_all add: push_retransmits_def store_rex_len_def adopt_target_def Let_def)

lemma sender_inv_push:
  assumes "sender_inv q env dec data k st"
  shows "sender_inv q env dec data k (push_retransmits ns st)"
proof -
  obtain r s where e: "push_retransmits ns st = st\<lparr>ss_rex := r, ss_stats := s\<rparr>"
    using push_retransmits_frame by blast
  have "rex_ok (ss_rex (push_retransmits ns st))" using assms push_retransmits_ok by (auto simp: sender_inv_def)
  then show ?thesis using assms by (simp add: e sender_inv_def)
qed

lemma feedback_step_ok:
  assumes "sender_inv q env dec data k st"
  shows "\<exists>st'. feedback_step env stop now pkt addr st = Some st' \<and> sender_inv q env dec data k st' \<and>
           ss_control st' = ss_control st \<and>
           (ss_done st' \<longrightarrow> ss_done st \<or> done_feedback env (EvFeedback stop now pkt addr))"
proof (cases "ss_done st \<or> should_stop stop (ss_control st) \<or> addr \<noteq> se_peer env \<or>
    pdu_type pkt \<noteq> Some PDU_FEEDBACK \<or> decode_feedback pkt = Some None")
  case True
  obtain t d where "pdu_type pkt = Some t" "decode_feedback pkt = Some d" using decode_total by blast
  then show ?thesis using True assms by (auto simp: feedback_step_def)
next
  case False
  then obtain fh nacks where d: "decode_feedback pkt = Some (Some (fh, nacks))"
    using decode_feedback_total [of pkt] by (cases "decode_feedback pkt"; cases "the (decode_feedback pkt)") auto
  show ?thesis
  proof (cases "fh_session fh = se_session env")
    case True
    define st1 where "st1 = st\<lparr>ss_tick := \<lparr>tk_pending = True, tk_val = fh_tick fh, tk_is_net = fh_tick_is_network fh, tk_t2 = now\<rparr>\<rparr>"
    define st2 where "st2 = (if nacks \<noteq> [] then push_retransmits nacks
        (st1\<lparr>ss_stats := (ss_stats st1)\<lparr>st_nacks_recv := fetch_add (length nacks) (st_nacks_recv (ss_stats st1))\<rparr>\<rparr>) else st1)"
    define st3 where "st3 = adopt_target env fh st2"
    define st4 where "st4 = st3\<lparr>ss_stats := (ss_stats st3)\<lparr>st_hi_contig := unat (fh_hi_contig fh)\<rparr>\<rparr>"
    have "sender_inv q env dec data k st1" using sender_inv_updates(4) [OF assms] by (simp add: st1_def)
    then have "sender_inv q env dec data k st2"
      using sender_inv_push sender_inv_updates(1) by (simp add: st2_def)
    then have "sender_inv q env dec data k st4"
      using adopt_target_frame [of env fh st2] by (auto simp: st4_def st3_def sender_inv_def)
    moreover have "ss_done st4 = ss_done st" "ss_control st4 = ss_control st"
      by (simp_all add: st4_def st3_def st2_def st1_def)
    moreover have "feedback_step env stop now pkt addr st = Some (if fh_done fh then st4\<lparr>ss_done := True\<rparr> else st4)"
      using False d True by (simp add: feedback_step_def Let_def flip: st1_def st2_def st3_def st4_def)
    ultimately show ?thesis
      using sender_inv_updates(3) d True False by auto
  qed (use False d assms in \<open>auto simp: feedback_step_def\<close>)
qed

text \<open>A run that is never stopped.\<close>

fun quiet :: "sender_event \<Rightarrow> bool" where
  "quiet (EvPrefetch stop) \<longleftrightarrow> \<not> stop"
| "quiet (EvPace stop t1 t2) \<longleftrightarrow> \<not> stop"
| "quiet (EvFeedback stop now pkt addr) \<longleftrightarrow> \<not> stop"
| "quiet (EvControl c) \<longleftrightarrow> \<not> should_stop False c"

lemma pacing_step_control:
  "pacing_step env bl stop t1 t2 st = Some (res, wire, st') \<Longrightarrow> ss_control st' = ss_control st"
  by (auto simp: pacing_step_def Let_def settle_def retune_def split: if_splits Option.bind_splits prod.splits
      dest!: build_batch_frame)

lemma run_sender_ok:
  assumes "sender_for env dec data" and "source_reads (se_read env) data" and "sender_inv q env dec data k st"
    and "q \<longrightarrow> list_all quiet es \<and> \<not> should_stop False (ss_control st)"
  shows "\<exists>res wire st' k'. run_sender env (buf_size env) es st = Some (res, wire, st') \<and>
           sender_inv q env dec data k' st' \<and> wire_log q env dec data k wire k' \<and>
           (res = PaceOk \<longrightarrow> ss_done st \<or> list_ex (done_feedback env) es)"
  using assms(3,4)
proof (induction es arbitrary: st k)
  case Nil
  then show ?case using log_Nil by fastforce
next
  case (Cons e es)
  have quiet_es: "q \<longrightarrow> list_all quiet es \<and> \<not> should_stop False (ss_control st')" if "ss_control st' = ss_control st" for st'
    using Cons.prems(2) that by simp
  show ?case
  proof (cases e)
    case (EvPrefetch stop)
    have "q \<longrightarrow> \<not> should_stop stop (ss_control st)" using Cons.prems(2) EvPrefetch by auto
    then obtain st' where p: "prefetch_step env stop st = Some st'" "sender_inv q env dec data k st'"
        "ss_done st' = ss_done st" "ss_control st' = ss_control st"
      using prefetch_step_ok [OF assms(1,2) Cons.prems(1)] by blast
    then show ?thesis using Cons.IH [OF p(2) quiet_es [OF p(4)]] EvPrefetch by auto
  next
    case (EvFeedback stop now pkt addr)
    obtain st' where p: "feedback_step env stop now pkt addr st = Some st'" "sender_inv q env dec data k st'"
        "ss_control st' = ss_control st" "ss_done st' \<longrightarrow> ss_done st \<or> done_feedback env e"
      using feedback_step_ok [OF Cons.prems(1), of stop now pkt addr] EvFeedback by auto
    then show ?thesis using Cons.IH [OF p(2) quiet_es [OF p(3)]] EvFeedback by (auto simp del: done_feedback.simps)
  next
    case (EvControl c)
    have "sender_inv q env dec data k (st\<lparr>ss_control := c\<rparr>)" by (rule sender_inv_updates(6) [OF Cons.prems(1)])
    then show ?thesis using Cons.IH [of k "st\<lparr>ss_control := c\<rparr>"] Cons.prems(2) EvControl by auto
  next
    case (EvPace stop t1 t2)
    obtain res wire st' k' where p: "pacing_step env (buf_size env) stop t1 t2 st = Some (res, wire, st')"
        "sender_inv q env dec data k' st'" "wire_log q env dec data k wire k'" "res = PaceOk \<longleftrightarrow> ss_done st"
        "ss_done st' = ss_done st"
      using pacing_step_ok [OF assms(1,2) Cons.prems(1)] by blast
    show ?thesis
    proof (cases "res = PaceGoOn")
      case False
      then have "run_sender env (buf_size env) (e # es) st = Some (res, wire, st')"
        using p(1) EvPace by (cases res) simp_all
      then show ?thesis using p by blast
    next
      case True
      obtain res' wire' st'' k'' where r: "run_sender env (buf_size env) es st' = Some (res', wire', st'')"
          "sender_inv q env dec data k'' st''" "wire_log q env dec data k' wire' k''"
          "res' = PaceOk \<longrightarrow> ss_done st' \<or> list_ex (done_feedback env) es"
        using Cons.IH [OF p(2) quiet_es [OF pacing_step_control [OF p(1)]]] by blast
      then have "run_sender env (buf_size env) (e # es) st = Some (res', wire @ wire', st'')"
        using p(1) EvPace True by simp
      then show ?thesis using r(2-4) p(5) wire_log_append [OF r(3) p(3)] EvPace by auto
    qed
  qed
qed

lemma pace_turns_go_on:
  assumes "sender_for env dec data" and "source_reads (se_read env) data" and "sender_inv q env dec data k st"
    and "\<not> ss_done st" and "\<not> should_stop False (ss_control st)"
  shows "\<exists>wire st'. run_sender env (buf_size env) (map (\<lambda>(t1, t2). EvPace False t1 t2) turns) st = Some (PaceGoOn, wire, st')"
  using assms(3-5)
proof (induction turns arbitrary: st k)
  case (Cons t turns)
  obtain t1 t2 where t: "t = (t1, t2)" by (cases t)
  obtain res wire st' k' where p: "pacing_step env (buf_size env) False t1 t2 st = Some (res, wire, st')"
      "sender_inv q env dec data k' st'" "res = PaceOk \<longleftrightarrow> ss_done st" "ss_done st' = ss_done st"
    using pacing_step_ok [OF assms(1,2) Cons.prems(1)] by blast
  have "res = PaceGoOn"
    using p(1,3) Cons.prems(2,3) by (auto simp: pacing_step_def Let_def split: if_splits Option.bind_splits prod.splits)
  moreover obtain wire' st'' where "run_sender env (buf_size env) (map (\<lambda>(t1, t2). EvPace False t1 t2) turns) st' = Some (PaceGoOn, wire', st'')"
    using Cons.IH [OF p(2)] p(4) Cons.prems(2,3) pacing_step_control [OF p(1)] by auto
  ultimately show ?case using p(1) t by simp
qed simp

lemma build_batch_pops:
  assumes "build_batch env bl now to_send built b st = Some (b', st')" and "built < to_send" and "0 < rex_len st"
  shows "rex_len st' < rex_len st"
proof -
  obtain seq st1 where pop: "pop_retransmit st = Some (seq, st1)"
    using assms(3) by (cases "rq_heap (ss_rex st)") (auto simp: pop_retransmit_def rex_len_def)
  obtain ok b2 st2 where t: "take_rex env bl now seq b st1 = Some (ok, b2, st2)"
      "build_batch env bl now to_send (if ok then built + 1 else built) b2 st2 = Some (b', st')"
    using assms(1,2) pop by (subst (asm) build_batch.simps) (auto split: option.splits prod.splits)
  then show ?thesis
    using pop_rex_len [OF pop] build_batch_frame [OF t(2)] take_rex_frame [OF t(1)] by (simp add: rex_len_def)
qed

lemma pace_turns_drain:
  assumes "sender_for env dec data" and "source_reads (se_read env) data" and "sender_inv q env dec data k st"
    and "\<not> ss_done st" and "\<not> should_stop False (ss_control st)" and "\<not> control_paused (ss_control st)"
    and "seq \<in> rq_set (ss_rex st)" and "unat seq < unat (se_total_blocks env)" and "rex_len st \<le> length turns"
  shows "\<exists>wire st'. run_sender env (buf_size env) (map (\<lambda>(t1, t2). EvPace False t1 t2) turns) st = Some (PaceGoOn, wire, st') \<and>
           (\<exists>p \<in> set wire. carries env dec True p seq (block_of data (se_block_size env) (unat seq)))"
  using assms(3-9)
proof (induction turns arbitrary: st k)
  case Nil
  then show ?case by (auto simp: rex_len_def sender_inv_def rex_ok_def)
next
  case (Cons t turns)
  obtain t1 t2 where t: "t = (t1, t2)" by (cases t)
  have pos: "0 < rex_len st" using Cons.prems(1,5) by (auto simp: rex_len_def sender_inv_def rex_ok_def)
  obtain b st2 built f st' k' where
    bb: "build_batch env (buf_size env) (of_nat t1) (as_u64 (ss_batch (retune env st))) 0 batch_empty (retune env st) = Some (b, st2)"
      "building q env dec data (as_u64 (ss_batch (retune env st))) (rq_set (ss_rex st)) k built b st2"
    and ps: "pacing_step env (buf_size env) False t1 t2 st = Some (PaceGoOn, ps_pkts (bt_bs b) @ f, st')"
      "sender_inv q env dec data k' st'" "\<not> ss_done st'" "ss_rex st' = ss_rex st2"
    using pacing_step_active [OF assms(1,2) Cons.prems(1-4), of t1 t2] by blast
  have "1 \<le> as_u64 (ss_batch (retune env st))"
    using retune_ok(1) [OF Cons.prems(1)] batch_size_bounds(1) by (auto simp: sender_inv_def)
  then have less: "rex_len st' < rex_len st"
    using build_batch_pops [OF bb(1)] pos ps(4) retune_ok(3) [OF Cons.prems(1)] by (simp add: rex_len_def)
  have ctl: "ss_control st' = ss_control st" by (rule pacing_step_control [OF ps(1)])
  have inq: "seq \<in> rq_set (ss_rex st') \<or>
      (\<exists>p \<in> set (ps_pkts (bt_bs b)). carries env dec True p seq (block_of data (se_block_size env) (unat seq)))"
    using bb(2) Cons.prems(5,6) ps(2,4) by (auto simp: building_def pending_sent_def sender_inv_def rex_ok_def)
  show ?case
  proof (cases "seq \<in> rq_set (ss_rex st')")
    case True
    then show ?thesis
      using Cons.IH [OF ps(2,3)] Cons.prems(3,4,6,7) ctl less ps(1) t by fastforce
  next
    case False
    obtain wire'' st'' where r: "run_sender env (buf_size env) (map (\<lambda>(t1, t2). EvPace False t1 t2) turns) st' = Some (PaceGoOn, wire'', st'')"
      using pace_turns_go_on [OF assms(1,2) ps(2,3)] Cons.prems(3) ctl by metis
    then show ?thesis using False inq ps(1) t by fastforce
  qed
qed

end
