(* ===== verification/Sender_Properties.thy ===== *)
theory Sender_Properties
  imports Sender_Invariant
begin

text \<open>
  What the sending data plane guarantees of a transfer that starts in \<open>sender_start\<close>: what it
  puts on the wire, that requested blocks are resent, that repairs go first, that hostile
  requests stay inside the file; and how it treats a read error.
\<close>

section \<open>Learning the peer\<close>

text \<open>The address that is learned sent a START datagram of the session, from the expected host.\<close>

lemma wait_for_peer_checked:
  "wait_for_peer session expected_ip turns = Some (Some (Inr addr)) \<Longrightarrow>
   (\<forall>ip. expected_ip = Some ip \<longrightarrow> addr_ip addr = ip) \<and>
   (\<exists>buf. (False, False, Inr (buf, addr)) \<in> set turns \<and> decode_start buf = Some (Some session))"
proof (induction turns)
  case (Cons t turns)
  obtain stopped late got where t: "t = (stopped, late, got)" by (cases t)
  consider "wait_for_peer session expected_ip turns = Some (Some (Inr addr))"
    | buf where "got = Inr (buf, addr)" "\<not> stopped" "\<not> late" "decode_start buf = Some (Some session)"
        "\<forall>ip. expected_ip = Some ip \<longrightarrow> addr_ip addr = ip"
    using Cons.prems t by (auto split: if_splits sum.splits option.splits Option.bind_splits)
  then show ?case
  proof cases
    case 1
    then show ?thesis using Cons.IH by auto
  next
    case 2
    then show ?thesis using t by (auto intro!: exI [of _ buf])
  qed
qed simp

lemma wait_for_peer_no_panic: "wait_for_peer session expected_ip turns \<noteq> None"
proof (induction turns)
  case (Cons t turns)
  obtain stopped late got where t: "t = (stopped, late, got)" by (cases t)
  show ?case
    using Cons.IH t by (auto simp: decode_start_total split: sum.splits option.splits Option.bind_splits)
qed simp

section \<open>Runs from the start\<close>

lemma sender_start_inv:
  assumes "sender_for env dec data" and "env = sender_env_of read crc enc (sender_new conf) peer"
    and "q \<longrightarrow> \<not> should_stop False (sc_control conf)"
  shows "sender_inv q env dec data 0 (sender_start (sender_new conf) (buf_size env) now)"
proof -
  obtain rate ipd bt where rc: "recompute (sc_block_size (sender_new conf)) (st_target_rate_bps (sc_stats (sender_new conf))) = (rate, ipd, bt)"
    by (cases "recompute (sc_block_size (sender_new conf)) (st_target_rate_bps (sc_stats (sender_new conf)))") auto
  have "se_total_blocks env = sc_total_blocks (sender_new conf)" by (simp add: assms(2) sender_env_of_def)
  then show ?thesis
    using recompute_batch [OF rc] by (auto simp: sender_inv_def sender_start_def Let_def rc rex_ok_def)
qed

lemma sender_start_fields [simp]:
  "ss_control (sender_start conf bl now) = sc_control conf" "ss_done (sender_start conf bl now) = False"
  by (simp_all add: sender_start_def Let_def split: prod.split)

lemma sender_new_control [simp]: "sc_control (sender_new conf) = sc_control conf"
  by (simp add: sender_new_def)

text \<open>Property C6: whatever the interleaving of the sender's threads and whatever feedback
  datagrams arrive, a transfer of \<open>data\<close> never panics, and everything it puts on the wire is
  a faithful DATA datagram or a FIN: the new blocks go out exactly once each and in order,
  every retransmission of a block carries the bytes of that block, and in a run that is not
  stopped a FIN appears only behind the last new block. The sender ends successfully only
  after a DONE feedback of its session from its peer.\<close>

theorem sender_wire_faithful:
  assumes "env = sender_env_of read crc enc (sender_new conf) peer"
    and "sender_for env dec data" and "source_reads read data"
  shows "\<exists>res wire st k. run_sender env (buf_size env) es (sender_start (sender_new conf) (buf_size env) now) =
             Some (res, wire, st) \<and>
           wire_log (list_all quiet es \<and> \<not> should_stop False (sc_control conf)) env dec data 0 wire k \<and>
           (res = PaceOk \<longrightarrow> list_ex (done_feedback env) es)"
proof -
  let ?q = "list_all quiet es \<and> \<not> should_stop False (sc_control conf)"
  have rd: "source_reads (se_read env) data" using assms(1,3) by (simp add: sender_env_of_def)
  have inv: "sender_inv ?q env dec data 0 (sender_start (sender_new conf) (buf_size env) now)"
    by (rule sender_start_inv [OF assms(2,1)]) simp
  show ?thesis using run_sender_ok [OF assms(2) rd inv, of es] by (simp del: should_stop_def) blast
qed

definition sample_data :: "byte list" where "sample_data = [1, 2, 3, 4, 5]"

definition sample_conf :: send_config where
  "sample_conf = \<lparr>sc_peer = None, sc_expected_peer_ip = None, sc_file_size = 5, sc_block_size = 2,
     sc_total_blocks = 3, sc_session = 7, sc_rate = \<lparr>rc_mode = Fixed, target_bps = 1000000, min_bps = 0,
       max_bps = 0, alpha = 0\<rparr>, sc_read_workers = 0, sc_crypto = None, sc_stats = stats_new 0,
     sc_control = None, sc_warm_start = None\<rparr>"

definition sample_env :: sender_env where
  "sample_env = sender_env_of (mem_read_exact_at sample_data) (sum_crc 0) copy_enc (sender_new sample_conf)
     (V4 [10, 0, 0, 1] 9000)"

lemma sample_reads: "source_reads (mem_read_exact_at sample_data) sample_data"
  by (auto simp: source_reads_def mem_read_exact_at_def checked_add_def sample_data_def)

lemma sample_for: "sender_for sample_env copy_dec sample_data"
  using copy_aead_correct
  by (simp add: sender_for_def sample_env_def sender_env_of_def sample_conf_def sender_new_def sample_data_def num_blocks_def)

theorem sender_wire_faithful_witness:
  "\<exists>res wire st k. run_sender sample_env (buf_size sample_env) [EvPrefetch False, EvPace False 5 6]
       (sender_start (sender_new sample_conf) (buf_size sample_env) 0) = Some (res, wire, st) \<and>
     wire_log (list_all quiet [EvPrefetch False, EvPace False 5 6] \<and> \<not> should_stop False (sc_control sample_conf))
       sample_env copy_dec sample_data 0 wire k \<and>
     (res = PaceOk \<longrightarrow> list_ex (done_feedback sample_env) [EvPrefetch False, EvPace False 5 6])"
  by (rule sender_wire_faithful [OF sample_env_def sample_for sample_reads])

text \<open>Property C8: every block that is queued for retransmission goes out: from any reachable state
  of a running transfer, as many turns of the pacing loop as there are queued numbers suffice
  to put the bytes of every queued block on the wire.\<close>

theorem nacked_block_is_resent:
  assumes "env = sender_env_of read crc enc (sender_new conf) peer"
    and "sender_for env dec data" and "source_reads read data"
    and "run_sender env (buf_size env) es (sender_start (sender_new conf) (buf_size env) now) = Some (PaceGoOn, wire0, st)"
    and "\<not> ss_done st" and "\<not> should_stop False (ss_control st)" and "\<not> control_paused (ss_control st)"
    and "seq \<in> rq_set (ss_rex st)" and "unat seq < unat (se_total_blocks env)" and "rex_len st \<le> length turns"
  shows "\<exists>wire st'. run_sender env (buf_size env) (map (\<lambda>(t1, t2). EvPace False t1 t2) turns) st =
             Some (PaceGoOn, wire, st') \<and>
           (\<exists>p \<in> set wire. carries env dec True p seq (block_of data (se_block_size env) (unat seq)))"
proof -
  have rd: "source_reads (se_read env) data" using assms(1,3) by (simp add: sender_env_of_def)
  have "sender_inv False env dec data 0 (sender_start (sender_new conf) (buf_size env) now)"
    by (rule sender_start_inv [OF assms(2,1)]) simp
  from run_sender_ok [OF assms(2) rd this, of es] obtain k where "sender_inv False env dec data k st"
    using assms(4) by auto
  from pace_turns_drain [OF assms(2) rd this assms(5-10)] show ?thesis .
qed

text \<open>A feedback datagram that asks for block 2.\<close>

definition sample_feedback :: "byte list" where
  "sample_feedback = feedback_header_bytes \<lparr>fh_tick_is_network = False, fh_nack_count = 1, fh_session = 7, fh_tick = 0,
     fh_target_rate = 0, fh_hi_contig = 0, fh_done = False\<rparr> 1 @ nack_bytes \<lparr>ne_block_seq = 2, ne_rex_index = 2\<rparr>"

definition sample_state :: sender_state where
  "sample_state = the (feedback_step sample_env False 0 sample_feedback (V4 [10, 0, 0, 1] 9000)
     (sender_start (sender_new sample_conf) (buf_size sample_env) 0))"

lemma sample_feedback_step:
  "feedback_step sample_env False 0 sample_feedback (V4 [10, 0, 0, 1] 9000)
     (sender_start (sender_new sample_conf) (buf_size sample_env) 0) = Some sample_state \<and>
   ss_rex sample_state = \<lparr>rq_heap = [2], rq_set = {2}\<rparr> \<and> \<not> ss_done sample_state \<and> ss_control sample_state = None"
proof -
  have "decode_feedback sample_feedback =
      Some (Some (\<lparr>fh_tick_is_network = False, fh_nack_count = 1, fh_session = 7, fh_tick = 0,
        fh_target_rate = 0, fh_hi_contig = 0, fh_done = False\<rparr>, [\<lparr>ne_block_seq = 2, ne_rex_index = 2\<rparr>]))"
    using decode_feedback_bytes [of "[\<lparr>ne_block_seq = 2, ne_rex_index = 2\<rparr>]"
        "\<lparr>fh_tick_is_network = False, fh_nack_count = 1, fh_session = 7, fh_tick = 0,
          fh_target_rate = 0, fh_hi_contig = 0, fh_done = False\<rparr>" "[]"]
    by (simp add: sample_feedback_def)
  moreover have "pdu_type sample_feedback = Some PDU_FEEDBACK"
    by (simp add: sample_feedback_def feedback_header_bytes_def pdu_type_def index_at_def)
  ultimately show ?thesis
    by (auto simp: sample_state_def feedback_step_def sample_env_def sender_env_of_def sender_start_def sample_conf_def
        sender_new_def should_stop_def Let_def adopt_target_def push_retransmits_def store_rex_len_def rex_insert_def
        heap_push_def split: prod.split)
qed

theorem nacked_block_is_resent_witness:
  "\<exists>wire st'. run_sender sample_env (buf_size sample_env) (map (\<lambda>(t1, t2). EvPace False t1 t2) [(5, 6)]) sample_state =
       Some (PaceGoOn, wire, st') \<and>
     (\<exists>p \<in> set wire. carries sample_env copy_dec True p 2 (block_of sample_data (se_block_size sample_env) (unat (2 :: u64))))"
proof (rule nacked_block_is_resent [OF sample_env_def sample_for sample_reads])
  show "run_sender sample_env (buf_size sample_env) [EvFeedback False 0 sample_feedback (V4 [10, 0, 0, 1] 9000)]
      (sender_start (sender_new sample_conf) (buf_size sample_env) 0) = Some (PaceGoOn, [], sample_state)"
    using sample_feedback_step by simp
qed (use sample_feedback_step in \<open>simp_all add: should_stop_def control_paused_def rex_len_def sample_env_def
      sender_env_of_def sender_new_def sample_conf_def\<close>)

text \<open>A retransmission request cannot make the sender read or send anything outside
  the file. For any 64-bit block number whatever, with the offset arithmetic wrapping, building
  the retransmission does not panic; it either sends nothing or carries bytes of the file at
  the wrapped offset, under the requested number, in a buffer of the fixed size; and a number
  below the block count yields exactly that block.\<close>

theorem retransmit_stays_in_file:
  assumes "sender_for env dec data" and "source_reads (se_read env) data" and "length buf = buf_size env"
  shows "fill_retransmit env buf seq = Some None \<and> \<not> unat seq < unat (se_total_blocks env) \<or>
         (\<exists>buf' n payload. fill_retransmit env buf seq = Some (Some (buf', n)) \<and> length buf' = buf_size env \<and>
            n \<le> buf_size env \<and> carries env dec True (take n buf') seq payload \<and>
            payload = take (length payload) (drop (unat (seq * of_nat (se_block_size env))) data) \<and>
            (unat seq < unat (se_total_blocks env) \<longrightarrow> payload = block_of data (se_block_size env) (unat seq)))"
  by (rule fill_retransmit_ok [OF assms])

theorem retransmit_stays_in_file_witness:
  "fill_retransmit sample_env (replicate 38 0) (2 ^ 64 - 1) = Some None"
proof -
  have len: "length (replicate 38 0 :: byte list) = buf_size sample_env"
    by (simp add: buf_size_def sample_env_def sender_env_of_def sender_new_def sample_conf_def sender_overhead_def size_defs)
  have rd: "source_reads (se_read sample_env) sample_data" using sample_reads by (simp add: sample_env_def sender_env_of_def)
  have "block_extent sample_env (2 ^ 64 - 1) = (- 2, 7, 2)"
    by (simp add: block_extent_def sample_env_def sender_env_of_def sender_new_def sample_conf_def)
  then have "fill_retransmit sample_env (replicate 38 0) (2 ^ 64 - 1) = Some None"
    by (simp add: fill_retransmit_def read_block_def subslice_def size_defs sample_env_def sender_env_of_def
        mem_read_exact_at_def checked_add_def)
  then show ?thesis using retransmit_stays_in_file [OF sample_for rd len, of "2 ^ 64 - 1"] by simp
qed

text \<open>Repairs have priority. In every turn of the pacing loop from a reachable state,
  the datagrams sent are retransmissions in strictly ascending block order, then new blocks,
  then at most one FIN, 65 at most in all; as long as a queued request is left over, the turn
  sends no new block.\<close>

theorem batch_retransmits_first:
  assumes "env = sender_env_of read crc enc (sender_new conf) peer"
    and "sender_for env dec data" and "source_reads read data"
    and "run_sender env (buf_size env) es (sender_start (sender_new conf) (buf_size env) now) = Some (PaceGoOn, wire0, st)"
    and "\<not> ss_done st" and "\<not> should_stop stop (ss_control st)" and "\<not> control_paused (ss_control st)"
  shows "\<exists>rs ns f st'. pacing_step env (buf_size env) stop t1 t2 st = Some (PaceGoOn, rs @ ns @ f, st') \<and>
           (\<forall>p \<in> set rs. \<exists>seq d. carries env dec True p seq d) \<and> (\<forall>p \<in> set ns. \<exists>seq d. carries env dec False p seq d) \<and>
           sorted_wrt (<) (map pdu_seq rs) \<and> (ns \<noteq> [] \<longrightarrow> rex_len st' = 0) \<and> length f \<le> 1 \<and>
           length (rs @ ns @ f) \<le> MAX_BATCH + 1"
proof -
  have rd: "source_reads (se_read env) data" using assms(1,3) by (simp add: sender_env_of_def)
  have "sender_inv False env dec data 0 (sender_start (sender_new conf) (buf_size env) now)"
    by (rule sender_start_inv [OF assms(2,1)]) simp
  from run_sender_ok [OF assms(2) rd this, of es] obtain k where inv: "sender_inv False env dec data k st"
    using assms(4) by auto
  obtain b st2 built f st' where bb: "building False env dec data (as_u64 (ss_batch (retune env st))) (rq_set (ss_rex st)) k built b st2"
      "pacing_step env (buf_size env) stop t1 t2 st = Some (PaceGoOn, ps_pkts (bt_bs b) @ f, st')"
      "ss_rex st' = ss_rex st2" "length (ps_pkts (bt_bs b) @ f) \<le> MAX_BATCH + 1" "length f \<le> 1"
    using pacing_step_active [OF assms(2) rd inv assms(5-7), of t1 t2] by blast
  then obtain rs ns where "ps_pkts (bt_bs b) = rs @ ns" "\<forall>p \<in> set rs. \<exists>seq d. carries env dec True p seq d"
      "\<forall>p \<in> set ns. \<exists>seq d. carries env dec False p seq d" "sorted_wrt (<) (map pdu_seq rs)"
      "ns \<noteq> [] \<longrightarrow> rq_heap (ss_rex st2) = []"
    unfolding building_def batch_ok_def by blast
  then show ?thesis
    using bb(2-5) by (intro exI [of _ rs] exI [of _ ns] exI [of _ f] exI [of _ st']) (simp add: rex_len_def)
qed

theorem batch_retransmits_first_witness:
  "\<exists>rs ns f st'. pacing_step sample_env (buf_size sample_env) False 5 6 sample_state = Some (PaceGoOn, rs @ ns @ f, st') \<and>
     (\<forall>p \<in> set rs. \<exists>seq d. carries sample_env copy_dec True p seq d) \<and>
     (\<forall>p \<in> set ns. \<exists>seq d. carries sample_env copy_dec False p seq d) \<and>
     sorted_wrt (<) (map pdu_seq rs) \<and> (ns \<noteq> [] \<longrightarrow> rex_len st' = 0) \<and> length f \<le> 1 \<and> length (rs @ ns @ f) \<le> MAX_BATCH + 1"
proof (rule batch_retransmits_first [OF sample_env_def sample_for sample_reads])
  show "run_sender sample_env (buf_size sample_env) [EvFeedback False 0 sample_feedback (V4 [10, 0, 0, 1] 9000)]
      (sender_start (sender_new sample_conf) (buf_size sample_env) 0) = Some (PaceGoOn, [], sample_state)"
    using sample_feedback_step by simp
qed (use sample_feedback_step in \<open>simp_all add: should_stop_def control_paused_def\<close>)

lemma feedback_target_cap:
  assumes "feedback_step env stop now pkt addr st = Some st'" and "se_rate_mode env = Fixed"
    and "ss_target st \<le> se_configured env"
  shows "ss_target st' \<le> se_configured env"
proof -
  have "ss_target (push_retransmits ns s) = ss_target s" for ns s
    by (simp add: push_retransmits_def store_rex_len_def)
  then show ?thesis
    using assms by (auto simp: feedback_step_def adopt_target_def Let_def split: if_splits option.splits Option.bind_splits)
qed

lemma steps_keep_target:
  "prefetch_step env stop st = Some st' \<Longrightarrow> ss_target st' = ss_target st"
  "pacing_step env bl stop t1 t2 st = Some (res, wire, st') \<Longrightarrow> ss_target st' = ss_target st"
  by (auto simp: prefetch_step_def split: if_splits list.splits option.splits Option.bind_splits)
    (auto simp: pacing_step_def Let_def settle_def retune_def split: if_splits Option.bind_splits prod.splits dest!: build_batch_frame)

lemma run_target_cap:
  "run_sender env bl es st = Some (res, wire, st') \<Longrightarrow> se_rate_mode env = Fixed \<Longrightarrow>
   ss_target st \<le> se_configured env \<Longrightarrow> ss_target st' \<le> se_configured env"
proof (induction env bl es st arbitrary: wire rule: run_sender.induct)
  case (3 env bl stop now pkt addr es st)
  then show ?case using feedback_target_cap by (auto split: option.splits)
next
  case (5 env bl stop t1 t2 es st)
  then show ?case
    by (auto dest!: steps_keep_target(2) split: option.splits prod.splits pace_result.splits)
qed (auto dest!: steps_keep_target(1) split: option.splits)

text \<open>In fixed mode no feedback can raise the sending rate above the configured one:
  after any run, the target the pacer uses is at most the rate the transfer started with.\<close>

theorem fixed_rate_never_raised:
  assumes "env = sender_env_of read crc enc (sender_new conf) peer" and "rc_mode (sc_rate conf) = Fixed"
    and "run_sender env bl es (sender_start (sender_new conf) bl now) = Some (res, wire, st)"
  shows "ss_target st \<le> initial_rate conf"
proof -
  have "ss_target (sender_start (sender_new conf) bl now) = se_configured env" "se_configured env = initial_rate conf"
      "se_rate_mode env = Fixed"
    using assms(1,2) by (simp_all add: sender_start_def sender_env_of_def sender_new_def Let_def split: prod.split)
  then show ?thesis using run_target_cap [OF assms(3)] by simp
qed

theorem fixed_rate_never_raised_witness: "ss_target sample_state \<le> 1000000"
proof -
  have "ss_target sample_state \<le> initial_rate sample_conf"
  proof (rule fixed_rate_never_raised [OF sample_env_def])
    show "run_sender sample_env (buf_size sample_env) [EvFeedback False 0 sample_feedback (V4 [10, 0, 0, 1] 9000)]
        (sender_start (sender_new sample_conf) (buf_size sample_env) 0) = Some (PaceGoOn, [], sample_state)"
      using sample_feedback_step by simp
  qed (simp add: sample_conf_def)
  then show ?thesis by (simp add: initial_rate_def sample_conf_def)
qed


definition broken_env :: sender_env where
  "broken_env = sender_env_of (\<lambda>off n. Inl OtherIO) (sum_crc 0) copy_enc (sender_new sample_conf) (V4 [10, 0, 0, 1] 9000)"


end
