(* ===== verification/Data_Receiver.thy ===== *)
theory Data_Receiver
  imports Data_Pdu Loss_Tracker Block_IO Net_Batch
begin

text \<open>
  \<open>src/src/receiver.rs\<close>: the receiving data plane. \<open>recv_env\<close> is the immutable part of \<open>Shared\<close>,
  \<open>recv_state\<close> the part that its threads change. The operations are those of the threads:
  \<open>handle_packet\<close> (an ingest worker, one datagram), \<open>flush_step\<close> (the flusher, one turn),
  \<open>feedback_iter\<close> (the feedback thread, one tick), \<open>writeback_step\<close>.

  \<open>handle_packet\<close> is cut where another thread can see the difference: \<open>accept_packet\<close> ends with
  the atomic bit in \<open>bm\<close>, \<open>store_block\<close> stages or writes the payload, \<open>publish\<close> sets the bit in
  \<open>ready_bm\<close>. \<open>recv_step\<close> interleaves these pieces of any number of workers with the flusher
  and the feedback thread.

  The sink is a value of any type with its \<open>write_all_at\<close> (\<open>re_write\<close>); CRC-32C and the AEAD
  decryption are \<open>re_crc\<close> and \<open>re_dec\<close>; the pool of staging buffers is their number, since a
  buffer is cleared before it is filled. Clock readings are arguments.
\<close>

section \<open>Configuration and state\<close>

record recv_config =
  rv_file_size :: int
  rv_block_size :: nat
  rv_total_blocks :: nat
  rv_session :: u32
  rv_expected_peer_ip :: "ip_addr option"
  rv_read_workers :: nat
  rv_rate :: rate_config
  rv_crypto :: "aead_box option"
  rv_feedback_interval_us :: nat
  rv_net_tick_interval_us :: nat
  rv_max_nacks_per_pdu :: nat
  rv_stats :: stats
  rv_control :: "transfer_control option"
  rv_warm_start :: "rate_warm_start option"
  rv_start_peer :: "socket_addr option"

record 'k recv_env =
  re_write :: "'k \<Rightarrow> nat \<Rightarrow> byte list \<Rightarrow> 'k io"
  re_crc :: "byte list \<Rightarrow> u32"
  re_dec :: dec_fun
  re_file_size :: int
  re_block_size :: nat
  re_total_blocks :: nat
  re_session :: u32
  re_expected_peer_ip :: "ip_addr option"
  re_crypto :: "aead_box option"
  re_feedback_interval_us :: nat
  re_net_tick_interval_us :: nat
  re_max_nacks_per_pdu :: nat

record 'k recv_state =
  rs_bm :: recv_bitmap
  rs_ready_bm :: recv_bitmap
  rs_max_seen :: nat
  rs_seen_any :: bool
  rs_all_sent :: bool
  rs_flushed :: nat
  rs_done :: bool
  rs_peer :: "socket_addr option"
  rs_path :: rtt_estimator
  rs_net :: rtt_estimator
  rs_rate :: rate_controller
  rs_stage :: "nat \<rightharpoonup> byte list"
  rs_free :: nat
  rs_sink :: 'k
  rs_stats :: stats
  rs_control :: "transfer_control option"

text \<open>\<open>new_receiver\<close>: the defaults, the depth of the staging pool (about 96 MiB), the warm start.
  It panics on a zero block size (division) and where \<open>set_rate\<close> does.\<close>

definition with_recv_defaults :: "nat \<Rightarrow> recv_config \<Rightarrow> recv_config" where
  "with_recv_defaults num_cpu c =
     c\<lparr>rv_read_workers := (if rv_read_workers c = 0 then num_cpu else rv_read_workers c),
       rv_feedback_interval_us := (if rv_feedback_interval_us c = 0 then 5000 else rv_feedback_interval_us c),
       rv_net_tick_interval_us := (if rv_net_tick_interval_us c = 0 then 10000 else rv_net_tick_interval_us c),
       rv_max_nacks_per_pdu := (if rv_max_nacks_per_pdu c = 0 then 90 else rv_max_nacks_per_pdu c)\<rparr>"

definition stage_depth :: "nat \<Rightarrow> nat \<Rightarrow> nat may_panic" where
  "stage_depth block_size total_blocks =
     (if block_size = 0 then None
      else let depth = 96 * 2 ^ 20 div block_size;
               depth = (if total_blocks > 0 \<and> depth > total_blocks then total_blocks else depth)
           in Some (if depth < 1 then 1 else depth))"

definition warm_stats :: "rate_warm_start \<Rightarrow> rate_config \<Rightarrow> stats \<Rightarrow> stats" where
  "warm_stats warm rate s =
     (let s = (if warm_rate_bps warm > 0 then
                 s\<lparr>st_target_rate_bps := (if max_bps rate = 0 then warm_rate_bps warm
                                          else min (warm_rate_bps warm) (max_bps rate))\<rparr> else s)
      in s\<lparr>st_srtt_net_us := warm_srtt_net_us warm, st_base_rtt_us := warm_base_rtt_us warm\<rparr>)"

definition warm_up ::
  "rate_warm_start option \<Rightarrow> rate_config \<Rightarrow> stats \<Rightarrow> (rate_controller \<times> rtt_estimator \<times> stats) may_panic" where
  "warm_up warm_start conf s =
     (let rate = rate_controller_new conf
      in case warm_start of
           None \<Rightarrow> Some (rate, rtt_new, s)
         | Some warm \<Rightarrow> do {
             rate \<leftarrow> set_rate (warm_rate_bps warm) rate;
             Some (rate, rtt_seed (warm_srtt_net_us warm) (warm_base_rtt_us warm) rtt_new, warm_stats warm conf s)
           })"

definition new_receiver ::
  "nat \<Rightarrow> ('k \<Rightarrow> nat \<Rightarrow> byte list \<Rightarrow> 'k io) \<Rightarrow> (byte list \<Rightarrow> u32) \<Rightarrow> dec_fun \<Rightarrow> 'k \<Rightarrow> recv_config \<Rightarrow>
   ('k recv_env \<times> 'k recv_state) may_panic"
where
  "new_receiver num_cpu write crc dec sink c0 = do {
     let c = with_recv_defaults num_cpu c0;
     depth \<leftarrow> stage_depth (rv_block_size c) (rv_total_blocks c);
     let s = (rv_stats c)\<lparr>st_total_bytes := unat (of_int (rv_file_size c) :: u64),
               st_total_blocks := rv_total_blocks c, st_block_size := rv_block_size c,
               st_target_rate_bps := target_bps (rv_rate c)\<rparr>;
     (rate, net, s) \<leftarrow> warm_up (rv_warm_start c) (rv_rate c) s;
     Some (\<lparr>re_write = write, re_crc = crc, re_dec = dec, re_file_size = rv_file_size c,
             re_block_size = rv_block_size c, re_total_blocks = rv_total_blocks c, re_session = rv_session c,
             re_expected_peer_ip = rv_expected_peer_ip c, re_crypto = rv_crypto c,
             re_feedback_interval_us = rv_feedback_interval_us c,
             re_net_tick_interval_us = rv_net_tick_interval_us c,
             re_max_nacks_per_pdu = rv_max_nacks_per_pdu c\<rparr>,
           \<lparr>rs_bm = recv_bitmap_new (rv_total_blocks c), rs_ready_bm = recv_bitmap_new (rv_total_blocks c),
             rs_max_seen = 0, rs_seen_any = False, rs_all_sent = False, rs_flushed = 0, rs_done = False,
             rs_peer = None, rs_path = rtt_new, rs_net = net, rs_rate = rate, rs_stage = Map.empty,
             rs_free = depth, rs_sink = sink, rs_stats = s, rs_control = rv_control c\<rparr>)
   }"

section \<open>Ingest\<close>

definition wrong_host :: "ip_addr option \<Rightarrow> socket_addr \<Rightarrow> bool" where
  "wrong_host expected a \<longleftrightarrow> (case expected of Some ip \<Rightarrow> addr_ip a \<noteq> ip | None \<Rightarrow> False)"

definition learn_peer :: "'k recv_env \<Rightarrow> socket_addr option \<Rightarrow> 'k recv_state \<Rightarrow> bool \<times> 'k recv_state" where
  "learn_peer env addr st =
     (case addr of
        None \<Rightarrow> (rs_peer st \<noteq> None, st)
      | Some a \<Rightarrow>
          if wrong_host (re_expected_peer_ip env) a then (False, st)
          else case rs_peer st of
                 Some existing \<Rightarrow> (existing = a, st)
               | None \<Rightarrow> (True, st\<lparr>rs_peer := Some a\<rparr>))"

text \<open>An echoed tick is a sample when it lies between 0 and 60 seconds in the past.\<close>

definition apply_tick :: "nat \<Rightarrow> data_header \<Rightarrow> 'k recv_state \<Rightarrow> 'k recv_state may_panic" where
  "apply_tick now h st =
     (let sample = fsub (f64_of_nat now) (f64_of_nat (unat (dh_echo_tick h)))
      in if \<not> (0 \<le> sample \<and> sample \<le> 60000000) then Some st
         else if dh_flags h AND FLAG_TICK_N \<noteq> 0 then do {
           (rto, net) \<leftarrow> rtt_sample sample (rs_net st);
           Some (st\<lparr>rs_net := net, rs_stats := (rs_stats st)
             \<lparr>st_srtt_net_us := as_u64 (srtt net), st_base_rtt_us := as_u64 (min_rtt net)\<rparr>\<rparr>)
         }
         else do {
           (rto, path) \<leftarrow> rtt_sample sample (rs_path st);
           Some (st\<lparr>rs_path := path, rs_stats := (rs_stats st)
             \<lparr>st_srtt_path_us := as_u64 (srtt path), st_rto_us := as_u64 rto\<rparr>\<rparr>)
         })"

text \<open>The payload of a DATA datagram: \<open>None\<close> for one that is too short, \<open>Some None\<close> for one that
  fails its integrity check.\<close>

definition open_payload :: "'k recv_env \<Rightarrow> data_header \<Rightarrow> byte list \<Rightarrow> byte list option option may_panic" where
  "open_payload env h pkt =
     (let plen = unat (dh_payload_len h)
      in case re_crypto env of
           Some c \<Rightarrow> do {
             body \<leftarrow> subslice pkt DATA_HEADER_SIZE (length pkt);
             r \<leftarrow> open_data (re_dec env) c body plen (dh_block_seq h);
             (case r of
                None \<Rightarrow> Some (Some None)
              | Some (body, n) \<Rightarrow> do { p \<leftarrow> subslice body 0 n; Some (Some (Some p)) })
           }
         | None \<Rightarrow>
             if DATA_HEADER_SIZE + plen > length pkt then Some None
             else do {
               p \<leftarrow> subslice pkt DATA_HEADER_SIZE (DATA_HEADER_SIZE + plen);
               Some (Some (if re_crc env p = dh_payload_crc h then Some p else None))
             })"

definition bump_corrupt :: "'k recv_state \<Rightarrow> 'k recv_state" where
  "bump_corrupt st = st\<lparr>rs_stats := (rs_stats st)\<lparr>st_corrupt_recv := fetch_add 1 (st_corrupt_recv (rs_stats st))\<rparr>\<rparr>"

text \<open>A good payload: the tick, the highest number seen, and the atomic claim of the block. The
  result is the block to store when it is the first arrival.\<close>

definition claim_block ::
  "nat \<Rightarrow> data_header \<Rightarrow> byte list \<Rightarrow> 'k recv_state \<Rightarrow> ((nat \<times> byte list) option \<times> 'k recv_state) may_panic" where
  "claim_block now h payload st = do {
     st \<leftarrow> (if dh_flags h AND FLAG_HAS_TICK \<noteq> 0 then apply_tick now h st else Some st);
     let seq = unat (dh_block_seq h);
     let st = st\<lparr>rs_seen_any := True, rs_max_seen := max (rs_max_seen st) seq\<rparr>;
     (fresh, bm) \<leftarrow> set_and_test (rs_bm st) seq;
     let st = st\<lparr>rs_bm := bm\<rparr>;
     let s = rs_stats st;
     if \<not> fresh then Some (None, st\<lparr>rs_stats := s\<lparr>st_dup_recv := fetch_add 1 (st_dup_recv s)\<rparr>\<rparr>)
     else Some (Some (seq, payload),
                st\<lparr>rs_stats := s\<lparr>st_payload_recv := fetch_add (length payload) (st_payload_recv s),
                                 st_blocks_written := fetch_add 1 (st_blocks_written s)\<rparr>\<rparr>)
   }"

definition accept_data ::
  "'k recv_env \<Rightarrow> nat \<Rightarrow> byte list \<Rightarrow> socket_addr option \<Rightarrow> 'k recv_state \<Rightarrow>
   ((nat \<times> byte list) option \<times> 'k recv_state) may_panic"
where
  "accept_data env now pkt addr st = do {
     d \<leftarrow> decode_data_header pkt;
     (case d of
        None \<Rightarrow> Some (None, st)
      | Some h \<Rightarrow>
          if dh_session h \<noteq> re_session env then Some (None, st)
          else if unat (dh_block_seq h) \<ge> re_total_blocks env then Some (None, st)
          else if unat (dh_payload_len h) > re_block_size env then Some (None, st)
          else if (case addr of Some a \<Rightarrow> wrong_host (re_expected_peer_ip env) a | None \<Rightarrow> False) then Some (None, st)
          else do {
            r \<leftarrow> open_payload env h pkt;
            (case r of
               None \<Rightarrow> Some (None, st)
             | Some None \<Rightarrow> Some (None, bump_corrupt st)
             | Some (Some payload) \<Rightarrow>
                 (case learn_peer env addr st of
                    (False, st) \<Rightarrow> Some (None, st)
                  | (True, st) \<Rightarrow> claim_block now h payload st))
          })
   }"

definition accept_packet ::
  "'k recv_env \<Rightarrow> nat \<Rightarrow> byte list \<Rightarrow> socket_addr option \<Rightarrow> 'k recv_state \<Rightarrow>
   ((nat \<times> byte list) option \<times> 'k recv_state) may_panic"
where
  "accept_packet env now pkt addr st = do {
     t \<leftarrow> pdu_type pkt;
     if t = PDU_FIN then do {
       d \<leftarrow> decode_fin pkt;
       (case d of
          None \<Rightarrow> Some (None, st)
        | Some (session, total_blocks) \<Rightarrow>
            if session \<noteq> re_session env \<or> unat total_blocks \<noteq> re_total_blocks env then Some (None, st)
            else case learn_peer env addr st of
                   (False, st) \<Rightarrow> Some (None, st)
                 | (True, st) \<Rightarrow> Some (None, st\<lparr>rs_all_sent := True\<rparr>))
     }
     else if t = PDU_DATA then accept_data env now pkt addr st
     else Some (None, st)
   }"

text \<open>Stage in a pooled buffer, or write directly when the pool is exhausted; \<open>False\<close> when the
  direct write fails and the block is given up.\<close>

definition store_block :: "'k recv_env \<Rightarrow> nat \<Rightarrow> byte list \<Rightarrow> 'k recv_state \<Rightarrow> bool \<times> 'k recv_state" where
  "store_block env seq payload st =
     (if rs_free st > 0 then
        (True, st\<lparr>rs_free := rs_free st - 1, rs_stage := (rs_stage st)(seq \<mapsto> payload)\<rparr>)
      else case re_write env (rs_sink st) (seq * re_block_size env) payload of
             Inl e \<Rightarrow> (False, st)
           | Inr sink \<Rightarrow> (True, st\<lparr>rs_sink := sink\<rparr>))"

definition publish :: "nat \<Rightarrow> 'k recv_state \<Rightarrow> 'k recv_state may_panic" where
  "publish seq st = do {
     (fresh, ready) \<leftarrow> set_and_test (rs_ready_bm st) seq;
     Some (st\<lparr>rs_ready_bm := ready\<rparr>)
   }"

definition handle_packet ::
  "'k recv_env \<Rightarrow> nat \<Rightarrow> byte list \<Rightarrow> socket_addr option \<Rightarrow> 'k recv_state \<Rightarrow> 'k recv_state may_panic" where
  "handle_packet env now pkt addr st = do {
     (blk, st) \<leftarrow> accept_packet env now pkt addr st;
     (case blk of
        None \<Rightarrow> Some st
      | Some (seq, payload) \<Rightarrow>
          (case store_block env seq payload st of
             (False, st) \<Rightarrow> Some st
           | (True, st) \<Rightarrow> publish seq st))
   }"

text \<open>The loop over the datagrams of one receive: empty ones are skipped, the others counted.\<close>

definition count_packet :: "byte list \<Rightarrow> 'k recv_state \<Rightarrow> 'k recv_state" where
  "count_packet pkt st =
     (let s = rs_stats st
      in st\<lparr>rs_stats := s\<lparr>st_packets_recv := fetch_add 1 (st_packets_recv s),
                           st_bytes_recv := fetch_add (length pkt) (st_bytes_recv s)\<rparr>\<rparr>)"

fun ingest_batch ::
  "'k recv_env \<Rightarrow> (nat \<times> byte list \<times> socket_addr option) list \<Rightarrow> 'k recv_state \<Rightarrow> 'k recv_state may_panic" where
  "ingest_batch env [] st = Some st"
| "ingest_batch env ((now, pkt, addr) # ps) st =
     (if pkt = [] then ingest_batch env ps st
      else do { st \<leftarrow> handle_packet env now pkt addr (count_packet pkt st); ingest_batch env ps st })"

section \<open>The flusher\<close>

text \<open>One block at the frontier: a staged block is written and its buffer returned; an error of
  the write is logged and the frontier advances all the same.\<close>

definition flush_block :: "'k recv_env \<Rightarrow> 'k recv_state \<Rightarrow> 'k recv_state" where
  "flush_block env st =
     (let seq = rs_flushed st;
          st' = (case rs_stage st seq of
                   None \<Rightarrow> st
                 | Some buf \<Rightarrow>
                     (let st = st\<lparr>rs_stage := (rs_stage st)(seq := None)\<rparr>
                      in case re_write env (rs_sink st) (seq * re_block_size env) buf of
                           Inl e \<Rightarrow> st\<lparr>rs_free := rs_free st + 1\<rparr>
                         | Inr sink \<Rightarrow> st\<lparr>rs_sink := sink, rs_free := rs_free st + 1\<rparr>))
      in st'\<lparr>rs_flushed := seq + 1\<rparr>)"

text \<open>One turn: advance by one block when the frontier is ready.\<close>

definition flush_step :: "'k recv_env \<Rightarrow> 'k recv_state \<Rightarrow> 'k recv_state may_panic" where
  "flush_step env st =
     (if rs_flushed st < re_total_blocks env then do {
        ready \<leftarrow> is_set (rs_ready_bm st) (rs_flushed st);
        Some (if ready then flush_block env st else st)
      } else Some st)"

section \<open>Writeback\<close>

text \<open>One turn of the writeback loop: the range it asks the kernel to write, and the new prefix.
  The products are 64-bit signed and wrap.\<close>

definition writeback_step :: "'k recv_env \<Rightarrow> 'k recv_state \<Rightarrow> i64 \<Rightarrow> (i64 \<times> i64) option \<times> i64" where
  "writeback_step env st prefix =
     (let bs = of_nat (re_block_size env) :: i64;
          hi0 = (of_nat (rs_max_seen st) + 1) * bs;
          hi_w = (if sint hi0 > re_file_size env then of_int (re_file_size env) else hi0);
          out = (if sint hi_w > sint prefix then Some (prefix, hi_w - prefix) else None);
          c = of_nat (st_hi_contig (rs_stats st)) * bs
      in (out, if sint c > sint prefix then c else prefix))"

section \<open>Feedback\<close>

record feedback_local =
  fl_scanner :: loss_scanner
  fl_last_net_tick :: u64
  fl_done_sends :: nat

definition feedback_start :: "'k recv_env \<Rightarrow> feedback_local" where
  "feedback_start env = \<lparr>fl_scanner = loss_scanner_new (re_total_blocks env), fl_last_net_tick = 0, fl_done_sends = 0\<rparr>"

definition nack_capacity :: "'k recv_env \<Rightarrow> nat \<Rightarrow> nat" where
  "nack_capacity env target =
     (let block_bits = fmul (f64_of_nat (re_block_size env + DATA_HEADER_SIZE)) 8
      in if target > 0 \<and> block_bits > 0 then
           (let per0 = as_u64 (fmul (fdiv (f64_of_nat target) block_bits)
                                    (fdiv (f64_of_nat (re_feedback_interval_us env)) 1000000));
                per = (if per0 < 1 then 1 else per0)
            in if per < re_max_nacks_per_pdu env then per else re_max_nacks_per_pdu env)
         else re_max_nacks_per_pdu env)"

text \<open>The first part of a tick, up to the look at the peer: rates, contiguous mark, holes,
  completion.\<close>

definition feedback_scan ::
  "'k recv_env \<Rightarrow> nat \<Rightarrow> feedback_local \<Rightarrow> 'k recv_state \<Rightarrow>
   (real \<times> nat \<times> nat \<times> bool \<times> feedback_local \<times> 'k recv_state) may_panic"
where
  "feedback_scan env now fl st = do {
     path_rto \<leftarrow> rtt_rto (rs_path st);
     (target0, rate) \<leftarrow> rate_update (srtt (rs_net st)) (min_rtt (rs_net st)) (rs_rate st);
     let target = effective_rate (rs_control st) target0;
     let st = st\<lparr>rs_rate := rate, rs_stats := (rs_stats st)\<lparr>st_target_rate_bps := target\<rparr>\<rparr>;
     (hi, sc) \<leftarrow> advance (rs_bm st) (fl_scanner fl);
     let ms = (if rs_all_sent st \<and> re_total_blocks env > 0 then re_total_blocks env - 1 else rs_max_seen st);
     sc \<leftarrow> (if rs_seen_any st \<or> rs_all_sent st then scan_holes (rs_bm st) ms (f64_of_nat now) path_rto sc else Some sc);
     let finished = (rs_all_sent st \<and> rs_flushed st = re_total_blocks env);
     let st = st\<lparr>rs_stats := (rs_stats st)\<lparr>st_hi_contig := hi, st_rex_queue_len := int (pending_count sc)\<rparr>\<rparr>;
     Some (path_rto, target, hi, finished, fl\<lparr>fl_scanner := sc\<rparr>, st)
   }"

text \<open>The second part: collect the due requests, build the datagram, count the completions. The
  tick's clock readings are \<open>now\<close>, \<open>now2\<close> and \<open>now3\<close>; \<open>sent_ok\<close> is the answer of \<open>send_to\<close>.\<close>

definition feedback_pdu ::
  "'k recv_env \<Rightarrow> u64 \<Rightarrow> bool \<Rightarrow> nat \<Rightarrow> nat \<Rightarrow> bool \<Rightarrow> nat list \<Rightarrow> byte list may_panic" where
  "feedback_pdu env now3 is_net target hi finished due = do {
     let nacks = map (\<lambda>s. \<lparr>ne_block_seq = of_nat s, ne_rex_index = of_nat s\<rparr>) due;
     let fh = \<lparr>fh_tick_is_network = is_net, fh_nack_count = 0, fh_session = re_session env, fh_tick = now3,
               fh_target_rate = of_nat target, fh_hi_contig = of_nat hi, fh_done = finished\<rparr>;
     (buf, n) \<leftarrow> encode_feedback (replicate (FEEDBACK_HEADER_SIZE + re_max_nacks_per_pdu env * NACK_ENTRY_SIZE) 0) fh nacks;
     subslice buf 0 n
   }"

definition feedback_iter ::
  "'k recv_env \<Rightarrow> nat \<Rightarrow> u64 \<Rightarrow> u64 \<Rightarrow> bool \<Rightarrow> feedback_local \<Rightarrow> 'k recv_state \<Rightarrow>
   ((byte list \<times> socket_addr) option \<times> feedback_local \<times> 'k recv_state) may_panic"
where
  "feedback_iter env now now2 now3 sent_ok fl st = do {
     (path_rto, target, hi, finished, fl, st) \<leftarrow> feedback_scan env now fl st;
     (case rs_peer st of
        None \<Rightarrow> Some (None, fl, st)
      | Some peer \<Rightarrow> do {
          (due, sc) \<leftarrow> collect_due (rs_bm st) (f64_of_nat now) path_rto (nack_capacity env target) (fl_scanner fl);
          let is_net = (now2 - fl_last_net_tick fl \<ge> of_nat (re_net_tick_interval_us env));
          let fl = fl\<lparr>fl_scanner := sc, fl_last_net_tick := (if is_net then now2 else fl_last_net_tick fl)\<rparr>;
          pdu \<leftarrow> feedback_pdu env now3 is_net target hi finished due;
          let s = rs_stats st;
          let st = (if sent_ok \<and> due \<noteq> [] then
                      st\<lparr>rs_stats := s\<lparr>st_nacks_sent := fetch_add (length due) (st_nacks_sent s)\<rparr>\<rparr> else st);
          let fl = (if finished then fl\<lparr>fl_done_sends := fl_done_sends fl + 1\<rparr> else fl);
          let st = (if finished \<and> fl_done_sends fl \<ge> 8 then st\<lparr>rs_done := True\<rparr> else st);
          Some (Some (pdu, peer), fl, st)
        })
   }"

section \<open>The threads together\<close>

text \<open>Where an ingest worker is between two visible actions.\<close>

datatype worker = Idle | Claimed nat "byte list" | Stored nat

record 'k system =
  sy_st :: "'k recv_state"
  sy_workers :: "worker list"
  sy_fl :: feedback_local

text \<open>One action: a worker takes a datagram (\<open>Rx\<close>), stores its block (\<open>Store\<close>), publishes it
  (\<open>Publish\<close>); the flusher takes a turn; the feedback thread ticks.\<close>

datatype action =
    Rx nat nat "byte list" "socket_addr option"
  | Store nat
  | Publish nat
  | Flush
  | Tick nat u64 u64 bool

inductive recv_step :: "'k recv_env \<Rightarrow> action \<Rightarrow> 'k system \<Rightarrow> 'k system \<Rightarrow> bool" for env where
  step_Rx: "w < length (sy_workers s) \<Longrightarrow> sy_workers s ! w = Idle \<Longrightarrow>
    accept_packet env now pkt addr (sy_st s) = Some (blk, st') \<Longrightarrow>
    recv_step env (Rx w now pkt addr) s
      (s\<lparr>sy_st := st', sy_workers := (sy_workers s)[w := (case blk of None \<Rightarrow> Idle | Some (seq, p) \<Rightarrow> Claimed seq p)]\<rparr>)"
| step_Store: "w < length (sy_workers s) \<Longrightarrow> sy_workers s ! w = Claimed seq payload \<Longrightarrow>
    store_block env seq payload (sy_st s) = (ok, st') \<Longrightarrow>
    recv_step env (Store w) s (s\<lparr>sy_st := st', sy_workers := (sy_workers s)[w := if ok then Stored seq else Idle]\<rparr>)"
| step_Publish: "w < length (sy_workers s) \<Longrightarrow> sy_workers s ! w = Stored seq \<Longrightarrow>
    publish seq (sy_st s) = Some st' \<Longrightarrow>
    recv_step env (Publish w) s (s\<lparr>sy_st := st', sy_workers := (sy_workers s)[w := Idle]\<rparr>)"
| step_Flush: "flush_step env (sy_st s) = Some st' \<Longrightarrow> recv_step env Flush s (s\<lparr>sy_st := st'\<rparr>)"
| step_Tick: "\<not> rs_done (sy_st s) \<Longrightarrow> feedback_iter env now now2 now3 sent_ok (sy_fl s) (sy_st s) = Some (out, fl', st') \<Longrightarrow>
    recv_step env (Tick now now2 now3 sent_ok) s (s\<lparr>sy_st := st', sy_fl := fl'\<rparr>)"

inductive_cases recv_step_RxE: "recv_step env (Rx w now pkt addr) s s'"
inductive_cases recv_step_StoreE: "recv_step env (Store w) s s'"
inductive_cases recv_step_PublishE: "recv_step env (Publish w) s s'"
inductive_cases recv_step_FlushE: "recv_step env Flush s s'"
inductive_cases recv_step_TickE: "recv_step env (Tick now now2 now3 sent_ok) s s'"

inductive recv_run :: "'k recv_env \<Rightarrow> action list \<Rightarrow> 'k system \<Rightarrow> 'k system \<Rightarrow> bool" for env where
  run_Nil: "recv_run env [] s s"
| run_Cons: "recv_step env a s s' \<Longrightarrow> recv_run env as s' s'' \<Longrightarrow> recv_run env (a # as) s s''"

definition system_start :: "'k recv_env \<Rightarrow> 'k recv_state \<Rightarrow> nat \<Rightarrow> 'k system" where
  "system_start env st workers = \<lparr>sy_st = st, sy_workers = replicate workers Idle, sy_fl = feedback_start env\<rparr>"

text \<open>The bootstrap of a client that pulls: five START datagrams, then one every 200 ms until a
  datagram has arrived, at most 25 times.\<close>

definition start_pdu :: "'k recv_env \<Rightarrow> byte list may_panic" where
  "start_pdu env = do {
     (sb, n) \<leftarrow> encode_start (replicate 8 0) (re_session env);
     subslice sb 0 n
   }"

definition bootstrap :: "'k recv_env \<Rightarrow> socket_addr option \<Rightarrow> (byte list \<times> socket_addr) list may_panic" where
  "bootstrap env start_peer =
     (case start_peer of
        None \<Rightarrow> Some []
      | Some peer \<Rightarrow> do { pdu \<leftarrow> start_pdu env; Some (replicate 5 (pdu, peer)) })"

definition nudge :: "'k recv_env \<Rightarrow> socket_addr \<Rightarrow> bool \<Rightarrow> 'k recv_state \<Rightarrow> (byte list \<times> socket_addr) option may_panic" where
  "nudge env peer stop st =
     (if should_stop stop (rs_control st) \<or> st_packets_recv (rs_stats st) > 0 then Some None
      else do { pdu \<leftarrow> start_pdu env; Some (Some (pdu, peer)) })"

text \<open>What \<open>run\<close> returns once the threads have been joined.\<close>

definition recv_result :: "'k recv_env \<Rightarrow> 'k recv_state \<Rightarrow> unit io" where
  "recv_result env st =
     (if st_hi_contig (rs_stats st) \<noteq> re_total_blocks env then Inl OtherIO else Inr ())"

end
