(* ===== verification/Receiver_Invariant.thy ===== *)
theory Receiver_Invariant
  imports Data_Receiver
begin

text \<open>
  The control invariant of the receiving data plane (\<open>ctl_inv\<close>): what holds in every state that
  any interleaving of workers, flusher and feedback thread can reach, for arbitrary datagrams
  and arbitrary outcomes of the sink's writes. It gives that no operation panics.
\<close>

section \<open>What is relied on\<close>

text \<open>Decryption in place returns as many bytes as it was given.\<close>

definition dec_lengths :: "dec_fun \<Rightarrow> bool" where
  "dec_lengths dec \<longleftrightarrow> (\<forall>box nonce ct tag pt. dec box nonce ct tag = Some pt \<longrightarrow> length pt = length ct)"

definition env_ok :: "'k recv_env \<Rightarrow> bool" where
  "env_ok env \<longleftrightarrow> re_total_blocks env < 2 ^ 64 \<and> re_max_nacks_per_pdu env < 2 ^ 16 \<and> dec_lengths (re_dec env)"

definition rate_safe :: "rate_controller \<Rightarrow> bool" where
  "rate_safe rc \<longleftrightarrow> rc_mode (cfg rc) = Fixed \<or> rate_ok rc"

lemma rate_update_safe:
  assumes "rate_safe rc"
  shows "\<exists>r rc'. rate_update srtt_net base rc = Some (r, rc') \<and> rate_safe rc'"
proof (cases "rc_mode (cfg rc)")
  case Fixed
  then show ?thesis by (simp add: rate_update_def rate_safe_def Let_def)
next
  case Adaptive
  then have "rate_ok rc" using assms by (simp add: rate_safe_def)
  from rate_update_ok [OF Adaptive this, of srtt_net base] show ?thesis using Adaptive by (auto simp: rate_safe_def)
qed

section \<open>Accepting a datagram\<close>

lemma open_data_eq:
  assumes "plen + AEAD_TAG_LEN \<le> length body" and "dec_lengths dec"
  shows "open_data dec box body plen seq =
           Some (map_option (\<lambda>pt. (pt @ drop plen body, plen))
                   (dec box (block_nonce seq) (take plen body) (take AEAD_TAG_LEN (drop plen body))))"
proof -
  have sub: "subslice body 0 plen = Some (take plen body)"
      "subslice body plen (plen + AEAD_TAG_LEN) = Some (take AEAD_TAG_LEN (drop plen body))"
    using assms(1) by (simp_all add: subslice_def)
  show ?thesis
  proof (cases "dec box (block_nonce seq) (take plen body) (take AEAD_TAG_LEN (drop plen body))")
    case None
    then show ?thesis using sub assms(1) by (simp add: open_data_def Let_def)
  next
    case (Some pt)
    then have "length pt = plen" using assms by (auto simp: dec_lengths_def)
    then show ?thesis using sub assms(1) Some by (simp add: open_data_def Let_def write_at_def)
  qed
qed

text \<open>The payload of an encrypted and of a plain datagram.\<close>

lemma open_payload_crypto:
  assumes "dec_lengths (re_dec env)" and "36 \<le> length pkt" and "re_crypto env = Some c"
  shows "open_payload env h pkt = Some (Some
           (let plen = unat (dh_payload_len h); body = drop 36 pkt
            in if plen + AEAD_TAG_LEN \<le> length body
               then re_dec env c (block_nonce (dh_block_seq h)) (take plen body) (take AEAD_TAG_LEN (drop plen body))
               else None))"
proof -
  let ?plen = "unat (dh_payload_len h)" and ?body = "drop 36 pkt"
  have sub: "subslice pkt DATA_HEADER_SIZE (length pkt) = Some ?body"
    using assms(2) by (simp add: subslice_def size_defs)
  show ?thesis
  proof (cases "?plen + AEAD_TAG_LEN \<le> length ?body")
    case False
    then show ?thesis using assms(3) sub by (simp add: open_payload_def Let_def open_data_def)
  next
    case True
    show ?thesis
    proof (cases "re_dec env c (block_nonce (dh_block_seq h)) (take ?plen ?body) (take AEAD_TAG_LEN (drop ?plen ?body))")
      case None
      then show ?thesis using assms(3) sub True open_data_eq [OF True assms(1)] by (simp add: open_payload_def Let_def)
    next
      case (Some pt)
      then have "length pt = ?plen" using assms(1) True by (auto simp: dec_lengths_def)
      then have "subslice (pt @ drop ?plen ?body) 0 ?plen = Some pt" by (simp add: subslice_def)
      then show ?thesis
        using assms(3) sub True open_data_eq [OF True assms(1)] Some by (simp add: open_payload_def Let_def)
    qed
  qed
qed

lemma open_payload_plain:
  assumes "re_crypto env = None"
  shows "open_payload env h pkt = Some
           (let plen = unat (dh_payload_len h); p = take plen (drop 36 pkt)
            in if 36 + plen > length pkt then None else Some (if re_crc env p = dh_payload_crc h then Some p else None))"
  using assms by (simp add: open_payload_def Let_def subslice_def size_defs)

lemma open_payload_total:
  assumes "dec_lengths (re_dec env)" and "36 \<le> length pkt"
  shows "\<exists>r. open_payload env h pkt = Some r"
  using open_payload_crypto [OF assms] open_payload_plain by (cases "re_crypto env") blast+

lemma open_payload_length:
  assumes "dec_lengths (re_dec env)" and "36 \<le> length pkt" and "open_payload env h pkt = Some (Some (Some p))"
  shows "length p = unat (dh_payload_len h)"
proof (cases "re_crypto env")
  case None
  then show ?thesis using assms(3) open_payload_plain [OF None] by (auto simp: Let_def split: if_splits)
next
  case (Some c)
  then show ?thesis
    using assms open_payload_crypto [OF assms(1,2) Some] by (auto simp: Let_def dec_lengths_def split: if_splits)
qed

lemma learn_peer_frame: "learn_peer env addr st = (ok, st') \<Longrightarrow> \<exists>p. st' = st\<lparr>rs_peer := p\<rparr>"
  by (auto simp: learn_peer_def split: option.splits if_splits) (metis recv_state.surjective recv_state.update_convs(8))+

text \<open>The operations of an ingest worker before it stores anything leave the staging area, the
  sink, the ready bits and the flusher's frontier alone.\<close>

definition quiet_update :: "'k recv_state \<Rightarrow> 'k recv_state \<Rightarrow> bool" where
  "quiet_update st st' \<longleftrightarrow>
     rs_ready_bm st' = rs_ready_bm st \<and> rs_flushed st' = rs_flushed st \<and> rs_stage st' = rs_stage st \<and>
     rs_free st' = rs_free st \<and> rs_sink st' = rs_sink st \<and> rs_done st' = rs_done st \<and>
     rs_rate st' = rs_rate st \<and> bm_cap (rs_bm st') = bm_cap (rs_bm st) \<and> (rs_all_sent st \<longrightarrow> rs_all_sent st') \<and>
     (rtt_ok (rs_path st) \<and> rtt_ok (rs_net st) \<longrightarrow> rtt_ok (rs_path st') \<and> rtt_ok (rs_net st'))"

lemma quiet_update_refl: "quiet_update st st"
  by (simp add: quiet_update_def)

lemma quiet_update_trans: "quiet_update st st' \<Longrightarrow> quiet_update st' st'' \<Longrightarrow> quiet_update st st''"
  by (auto simp: quiet_update_def)

lemma apply_tick_ok:
  assumes "rtt_ok (rs_path st)" and "rtt_ok (rs_net st)"
  shows "\<exists>st'. apply_tick now h st = Some st' \<and> quiet_update st st' \<and> rs_bm st' = rs_bm st"
proof -
  define x where "x = fsub (f64_of_nat now) (f64_of_nat (unat (dh_echo_tick h)))"
  have x: "f64_round x = x" by (simp add: x_def fsub_def f64.rnd_idem)
  show ?thesis
    using rtt_sample_ok [OF assms(1) x] rtt_sample_ok [OF assms(2) x] assms
    by (auto simp: apply_tick_def quiet_update_def Let_def simp flip: x_def)
qed

text \<open>What an accepted block is: the first arrival of a block of the transfer, with the payload that
  passed the integrity check.\<close>

definition fresh_block :: "'k recv_env \<Rightarrow> byte list \<Rightarrow> 'k recv_state \<Rightarrow> nat \<Rightarrow> byte list \<Rightarrow> bool" where
  "fresh_block env pkt st seq payload \<longleftrightarrow>
     seq < re_total_blocks env \<and> seq \<notin> bm_seqs (rs_bm st) \<and> length payload \<le> re_block_size env \<and>
     (\<exists>h. decode_data_header pkt = Some (Some h) \<and> dh_session h = re_session env \<and>
          unat (dh_block_seq h) = seq \<and> open_payload env h pkt = Some (Some (Some payload)))"

definition accepted ::
  "'k recv_env \<Rightarrow> byte list \<Rightarrow> 'k recv_state \<Rightarrow> (nat \<times> byte list) option \<Rightarrow> 'k recv_state \<Rightarrow> bool" where
  "accepted env pkt st blk st' \<longleftrightarrow> quiet_update st st' \<and>
     (case blk of
        None \<Rightarrow> bm_seqs (rs_bm st') = bm_seqs (rs_bm st)
      | Some (seq, payload) \<Rightarrow>
          fresh_block env pkt st seq payload \<and> bm_seqs (rs_bm st') = insert seq (bm_seqs (rs_bm st)))"

lemma claim_block_ok:
  assumes "rtt_ok (rs_path st)" and "rtt_ok (rs_net st)" and "unat (dh_block_seq h) < bm_cap (rs_bm st)"
  shows "\<exists>blk st'. claim_block now h payload st = Some (blk, st') \<and> quiet_update st st' \<and>
           (if unat (dh_block_seq h) \<in> bm_seqs (rs_bm st)
            then blk = None \<and> bm_seqs (rs_bm st') = bm_seqs (rs_bm st)
            else blk = Some (unat (dh_block_seq h), payload) \<and>
                 bm_seqs (rs_bm st') = insert (unat (dh_block_seq h)) (bm_seqs (rs_bm st)))"
proof -
  obtain st1 where st1: "(if dh_flags h AND FLAG_HAS_TICK \<noteq> 0 then apply_tick now h st else Some st) = Some st1"
      "quiet_update st st1" "rs_bm st1 = rs_bm st"
    using apply_tick_ok [OF assms(1,2), of now h] quiet_update_refl [of st]
    by (cases "dh_flags h AND FLAG_HAS_TICK \<noteq> 0") auto
  obtain bm' where bm': "set_and_test (rs_bm st) (unat (dh_block_seq h)) = Some (unat (dh_block_seq h) \<notin> bm_seqs (rs_bm st), bm')"
      "bm_seqs bm' = insert (unat (dh_block_seq h)) (bm_seqs (rs_bm st))" "bm_cap bm' = bm_cap (rs_bm st)"
    using bitmap.mark_ok [OF assms(3)] by blast
  show ?thesis
    unfolding claim_block_def st1(1)
    using st1(2,3) bm' by (auto simp: Let_def quiet_update_def insert_absorb)
qed

lemma accept_data_ok:
  assumes "env_ok env" and "rtt_ok (rs_path st)" and "rtt_ok (rs_net st)"
    and "re_total_blocks env \<le> bm_cap (rs_bm st)"
  shows "\<exists>blk st'. accept_data env now pkt addr st = Some (blk, st') \<and> accepted env pkt st blk st'"
proof -
  have drop: "accepted env pkt st None st" by (simp add: accepted_def quiet_update_refl)
  obtain d where d: "decode_data_header pkt = Some d" using decode_data_header_total by blast
  show ?thesis
  proof (cases d)
    case None
    then show ?thesis using d drop by (auto simp: accept_data_def)
  next
    case (Some h)
    have len: "36 \<le> length pkt" using d Some decode_data_header_reject [of pkt] by fastforce
    obtain r where r: "open_payload env h pkt = Some r"
      using open_payload_total [OF _ len] assms(1) by (auto simp: env_ok_def)
    have corrupt: "accepted env pkt st None (bump_corrupt st)"
      by (simp add: accepted_def bump_corrupt_def quiet_update_def)
    obtain ok st1 where lp: "learn_peer env addr st = (ok, st1)" by (cases "learn_peer env addr st")
    obtain p where st1: "st1 = st\<lparr>rs_peer := p\<rparr>" using learn_peer_frame [OF lp] by blast
    have q1: "quiet_update st st1" "accepted env pkt st None st1" by (simp_all add: st1 quiet_update_def accepted_def)
    have claim: "\<exists>blk st'. claim_block now h payload st1 = Some (blk, st') \<and> accepted env pkt st blk st'"
      if "unat (dh_block_seq h) < re_total_blocks env" "dh_session h = re_session env"
        "unat (dh_payload_len h) \<le> re_block_size env" "r = Some (Some payload)" for payload
    proof -
      have "length payload \<le> re_block_size env"
        using open_payload_length [OF _ len, of env h payload] assms(1) r that by (simp add: env_ok_def)
      then have "fresh_block env pkt st (unat (dh_block_seq h)) payload" if "unat (dh_block_seq h) \<notin> bm_seqs (rs_bm st)"
        using that d Some r \<open>r = Some (Some payload)\<close> \<open>unat (dh_block_seq h) < _\<close> \<open>dh_session h = _\<close>
        by (simp add: fresh_block_def)
      moreover have "unat (dh_block_seq h) < bm_cap (rs_bm st1)" using that(1) assms(4) by (simp add: st1)
      ultimately show ?thesis
        using claim_block_ok [of st1 h now payload] assms(2,3) q1(1) quiet_update_trans
        by (fastforce simp: accepted_def st1 split: if_splits)
    qed
    show ?thesis
      using d Some r lp drop corrupt q1(2) claim
      by (auto simp: accept_data_def not_le split: option.split bool.split)
  qed
qed

lemma accept_packet_ok:
  assumes "env_ok env" and "rtt_ok (rs_path st)" and "rtt_ok (rs_net st)"
    and "re_total_blocks env \<le> bm_cap (rs_bm st)"
  shows "\<exists>blk st'. accept_packet env now pkt addr st = Some (blk, st') \<and> accepted env pkt st blk st'"
proof -
  obtain t d where t: "pdu_type pkt = Some t" and d: "decode_fin pkt = Some d" using decode_total by blast
  obtain ok st1 where lp: "learn_peer env addr st = (ok, st1)" by (cases "learn_peer env addr st")
  obtain p where st1: "st1 = st\<lparr>rs_peer := p\<rparr>" using learn_peer_frame [OF lp] by blast
  have drop: "accepted env pkt st None st" by (simp add: accepted_def quiet_update_refl)
  have fin: "accepted env pkt st None st1" "accepted env pkt st None (st1\<lparr>rs_all_sent := True\<rparr>)"
    by (simp_all add: st1 quiet_update_def accepted_def)
  show ?thesis
    using t d lp drop fin accept_data_ok [OF assms, of now pkt addr]
    by (auto simp: accept_packet_def split: option.split bool.split prod.split)
qed

section \<open>The control invariant\<close>

fun held :: "worker \<Rightarrow> nat option" where
  "held Idle = None"
| "held (Claimed seq p) = Some seq"
| "held (Stored seq) = Some seq"

text \<open>Every block a worker holds is claimed and not yet published, and by that worker alone.\<close>

definition claims_ok :: "nat set \<Rightarrow> nat set \<Rightarrow> worker list \<Rightarrow> bool" where
  "claims_ok bm ready ws \<longleftrightarrow>
     (\<forall>w < length ws. \<forall>seq. held (ws ! w) = Some seq \<longrightarrow> seq \<in> bm \<and> seq \<notin> ready) \<and>
     (\<forall>w < length ws. \<forall>w' < length ws. \<forall>seq. held (ws ! w) = Some seq \<longrightarrow> held (ws ! w') = Some seq \<longrightarrow> w = w')"

lemma update_nth: "j < length xs \<Longrightarrow> xs[i := x] ! j = (if j = i then x else xs ! j)"
  by (simp add: nth_list_update)

lemma claims_ok_idle: "claims_ok bm ready (replicate n Idle)"
  by (simp add: claims_ok_def)

lemma claims_ok_release:
  "claims_ok bm ready ws \<Longrightarrow> claims_ok bm ready (ws[w := Idle])"
  by (auto simp: claims_ok_def update_nth)

lemma claims_ok_claim:
  "claims_ok bm ready ws \<Longrightarrow> seq \<notin> bm \<Longrightarrow> ready \<subseteq> bm \<Longrightarrow> claims_ok (insert seq bm) ready (ws[w := Claimed seq p])"
  by (fastforce simp: claims_ok_def update_nth split: if_splits)

lemma claims_ok_keep:
  "claims_ok bm ready ws \<Longrightarrow> held x = held (ws ! w) \<Longrightarrow> claims_ok bm ready (ws[w := x])"
  by (auto simp: claims_ok_def update_nth)

lemma claims_ok_publish:
  assumes "claims_ok bm ready ws" and "w < length ws" and "held (ws ! w) = Some seq"
  shows "claims_ok bm (insert seq ready) (ws[w := Idle])"
  using assms unfolding claims_ok_def by (auto simp: update_nth)

definition ctl_inv :: "'k recv_env \<Rightarrow> 'k system \<Rightarrow> bool" where
  "ctl_inv env s \<longleftrightarrow>
     re_total_blocks env \<le> bm_cap (rs_bm (sy_st s)) \<and> re_total_blocks env \<le> bm_cap (rs_ready_bm (sy_st s)) \<and>
     bm_seqs (rs_bm (sy_st s)) \<subseteq> {..<re_total_blocks env} \<and>
     bm_seqs (rs_ready_bm (sy_st s)) \<subseteq> bm_seqs (rs_bm (sy_st s)) \<and>
     rs_flushed (sy_st s) \<le> re_total_blocks env \<and> {..<rs_flushed (sy_st s)} \<subseteq> bm_seqs (rs_ready_bm (sy_st s)) \<and>
     claims_ok (bm_seqs (rs_bm (sy_st s))) (bm_seqs (rs_ready_bm (sy_st s))) (sy_workers s) \<and>
     rtt_ok (rs_path (sy_st s)) \<and> rtt_ok (rs_net (sy_st s)) \<and> rate_safe (rs_rate (sy_st s)) \<and>
     scanner_inv (rs_bm (sy_st s)) (fl_scanner (sy_fl s)) \<and> ls_total (fl_scanner (sy_fl s)) = re_total_blocks env \<and>
     (rs_done (sy_st s) \<longrightarrow> rs_all_sent (sy_st s) \<and> rs_flushed (sy_st s) = re_total_blocks env)"

lemma ctl_inv_accept:
  assumes "ctl_inv env s" and "accepted env pkt (sy_st s) blk st'"
  shows "ctl_inv env (s\<lparr>sy_st := st', sy_workers := (sy_workers s)[w := (case blk of None \<Rightarrow> Idle | Some (seq, p) \<Rightarrow> Claimed seq p)]\<rparr>)"
proof -
  let ?st = "sy_st s"
  have q: "quiet_update ?st st'" using assms(2) by (simp add: accepted_def)
  have bm: "bm_seqs (rs_bm ?st) \<subseteq> bm_seqs (rs_bm st')" "bm_seqs (rs_bm st') \<subseteq> {..<re_total_blocks env}"
    using assms by (auto simp: accepted_def ctl_inv_def fresh_block_def split: option.splits)
  have cap: "bm_cap (rs_bm st') = bm_cap (rs_bm ?st)" using q by (simp add: quiet_update_def)
  have "claims_ok (bm_seqs (rs_bm st')) (bm_seqs (rs_ready_bm st'))
      ((sy_workers s)[w := (case blk of None \<Rightarrow> Idle | Some (seq, p) \<Rightarrow> Claimed seq p)])"
    using assms q claims_ok_release claims_ok_claim
    by (auto simp: accepted_def ctl_inv_def fresh_block_def quiet_update_def split: option.splits)
  moreover have "scanner_inv (rs_bm st') (fl_scanner (sy_fl s))"
    using scanner_inv_mono [OF _ bm(1) cap] assms(1) by (simp add: ctl_inv_def)
  ultimately show ?thesis
    using assms(1) q bm cap unfolding ctl_inv_def quiet_update_def by auto
qed

lemma ctl_inv_store:
  assumes "ctl_inv env s" and "sy_workers s ! w = Claimed seq payload"
    and "store_block env seq payload (sy_st s) = (ok, st')"
  shows "ctl_inv env (s\<lparr>sy_st := st', sy_workers := (sy_workers s)[w := if ok then Stored seq else Idle]\<rparr>)"
proof -
  have f: "rs_bm st' = rs_bm (sy_st s)" "rs_ready_bm st' = rs_ready_bm (sy_st s)" "rs_flushed st' = rs_flushed (sy_st s)"
      "rs_done st' = rs_done (sy_st s)" "rs_all_sent st' = rs_all_sent (sy_st s)" "rs_rate st' = rs_rate (sy_st s)"
      "rs_path st' = rs_path (sy_st s)" "rs_net st' = rs_net (sy_st s)"
    using assms(3) by (auto simp: store_block_def split: if_splits sum.splits)
  have "claims_ok (bm_seqs (rs_bm (sy_st s))) (bm_seqs (rs_ready_bm (sy_st s))) ((sy_workers s)[w := if ok then Stored seq else Idle])"
    using assms(1,2) claims_ok_keep [of _ _ "sy_workers s" "Stored seq" w] claims_ok_release
    by (auto simp: ctl_inv_def)
  then show ?thesis using assms(1) by (simp add: ctl_inv_def f)
qed

lemma publish_ok:
  assumes "seq < bm_cap (rs_ready_bm st)"
  shows "\<exists>ready. publish seq st = Some (st\<lparr>rs_ready_bm := ready\<rparr>) \<and>
           bm_seqs ready = insert seq (bm_seqs (rs_ready_bm st)) \<and> bm_cap ready = bm_cap (rs_ready_bm st)"
proof -
  obtain ready where "set_and_test (rs_ready_bm st) seq = Some (seq \<notin> bm_seqs (rs_ready_bm st), ready)"
      "bm_seqs ready = insert seq (bm_seqs (rs_ready_bm st))" "bm_cap ready = bm_cap (rs_ready_bm st)"
    using bitmap.mark_ok [OF assms] by blast
  then show ?thesis by (intro exI [of _ ready]) (simp add: publish_def)
qed

lemma ctl_inv_publish:
  assumes "ctl_inv env s" and "w < length (sy_workers s)" and "sy_workers s ! w = Stored seq"
  shows "\<exists>ready. publish seq (sy_st s) = Some ((sy_st s)\<lparr>rs_ready_bm := ready\<rparr>) \<and>
           bm_seqs ready = insert seq (bm_seqs (rs_ready_bm (sy_st s))) \<and>
           ctl_inv env (s\<lparr>sy_st := (sy_st s)\<lparr>rs_ready_bm := ready\<rparr>, sy_workers := (sy_workers s)[w := Idle]\<rparr>)"
proof -
  have seq: "seq \<in> bm_seqs (rs_bm (sy_st s))" using assms by (auto simp: ctl_inv_def claims_ok_def)
  then have "seq < bm_cap (rs_ready_bm (sy_st s))" using assms(1) unfolding ctl_inv_def by auto
  then obtain ready where r: "publish seq (sy_st s) = Some ((sy_st s)\<lparr>rs_ready_bm := ready\<rparr>)"
      "bm_seqs ready = insert seq (bm_seqs (rs_ready_bm (sy_st s)))" "bm_cap ready = bm_cap (rs_ready_bm (sy_st s))"
    using publish_ok by blast
  have "claims_ok (bm_seqs (rs_bm (sy_st s))) (insert seq (bm_seqs (rs_ready_bm (sy_st s)))) ((sy_workers s)[w := Idle])"
    using assms claims_ok_publish [of _ _ "sy_workers s" w seq] by (auto simp: ctl_inv_def)
  then have "ctl_inv env (s\<lparr>sy_st := (sy_st s)\<lparr>rs_ready_bm := ready\<rparr>, sy_workers := (sy_workers s)[w := Idle]\<rparr>)"
    using assms(1) r(2,3) seq unfolding ctl_inv_def by auto
  then show ?thesis using r by blast
qed

lemma flush_block_frame:
  "\<exists>stage free sink. flush_block env st = st\<lparr>rs_stage := stage, rs_free := free, rs_sink := sink, rs_flushed := rs_flushed st + 1\<rparr>"
  by (rule exI [of _ "rs_stage (flush_block env st)"], rule exI [of _ "rs_free (flush_block env st)"],
      rule exI [of _ "rs_sink (flush_block env st)"])
    (auto simp: flush_block_def Let_def split: option.splits sum.splits)

lemma flush_step_cases:
  assumes "ctl_inv env s"
  obtains "flush_step env (sy_st s) = Some (sy_st s)"
      "rs_flushed (sy_st s) = re_total_blocks env \<or> rs_flushed (sy_st s) \<notin> bm_seqs (rs_ready_bm (sy_st s))"
  | "flush_step env (sy_st s) = Some (flush_block env (sy_st s))" "rs_flushed (sy_st s) < re_total_blocks env"
      "rs_flushed (sy_st s) \<in> bm_seqs (rs_ready_bm (sy_st s))"
proof (cases "rs_flushed (sy_st s) < re_total_blocks env")
  case True
  then have "is_set (rs_ready_bm (sy_st s)) (rs_flushed (sy_st s)) = Some (rs_flushed (sy_st s) \<in> bm_seqs (rs_ready_bm (sy_st s)))"
    using assms by (intro is_set_eq) (auto simp: ctl_inv_def)
  then show ?thesis using that True by (cases "rs_flushed (sy_st s) \<in> bm_seqs (rs_ready_bm (sy_st s))") (auto simp: flush_step_def)
next
  case False
  then show ?thesis using that(1) assms by (auto simp: flush_step_def ctl_inv_def)
qed

lemma ctl_inv_flush:
  assumes "ctl_inv env s" and "rs_flushed (sy_st s) < re_total_blocks env"
    and "rs_flushed (sy_st s) \<in> bm_seqs (rs_ready_bm (sy_st s))"
  shows "ctl_inv env (s\<lparr>sy_st := flush_block env (sy_st s)\<rparr>)"
proof -
  obtain stage free sink where f: "flush_block env (sy_st s) = (sy_st s)\<lparr>rs_stage := stage, rs_free := free, rs_sink := sink,
      rs_flushed := rs_flushed (sy_st s) + 1\<rparr>"
    using flush_block_frame [of env "sy_st s"] by (elim exE)
  show ?thesis using assms unfolding ctl_inv_def f by (auto simp: less_Suc_eq)
qed

subsection \<open>The feedback tick\<close>

lemma nack_capacity_le: "nack_capacity env target \<le> re_max_nacks_per_pdu env"
  by (simp add: nack_capacity_def Let_def)

definition nack_of :: "nat \<Rightarrow> nack_entry" where
  "nack_of s = \<lparr>ne_block_seq = of_nat s, ne_rex_index = of_nat s\<rparr>"

lemma feedback_pdu_ok:
  assumes "length due \<le> re_max_nacks_per_pdu env" and "re_max_nacks_per_pdu env < 2 ^ 16"
  shows "\<exists>pdu h. feedback_pdu env now3 is_net target hi finished due = Some pdu \<and>
           length pdu = FEEDBACK_HEADER_SIZE + length due * NACK_ENTRY_SIZE \<and>
           decode_feedback pdu = Some (Some (h, map nack_of due)) \<and>
           fh_done h = finished \<and> fh_hi_contig h = of_nat hi \<and> fh_session h = re_session env \<and>
           fh_target_rate h = of_nat target"
proof -
  let ?ns = "map nack_of due"
  let ?h = "\<lparr>fh_tick_is_network = is_net, fh_nack_count = 0, fh_session = re_session env, fh_tick = now3,
               fh_target_rate = of_nat target, fh_hi_contig = of_nat hi, fh_done = finished\<rparr>"
  let ?b = "feedback_header_bytes ?h (length ?ns) @ concat (map nack_bytes ?ns)"
  have nk: "(\<lambda>s. \<lparr>ne_block_seq = of_nat s, ne_rex_index = of_nat s\<rparr>) = nack_of" by (rule ext) (simp add: nack_of_def)
  have len: "length ?b = 36 + 16 * length due"
    by (simp add: length_concat comp_def sum_list_triv)
  have "feedback_pdu env now3 is_net target hi finished due = Some ?b"
    using assms(1) len unfolding feedback_pdu_def nk
    by (simp add: Let_def size_defs encode_feedback_eq mult.commute subslice_def)
  moreover have "decode_feedback (?b @ []) = Some (Some (?h\<lparr>fh_nack_count := of_nat (length ?ns)\<rparr>, ?ns))"
    using assms decode_feedback_bytes [of ?ns ?h "[]"] by simp
  ultimately show ?thesis
    using len by (intro exI [of _ ?b] exI [of _ "?h\<lparr>fh_nack_count := of_nat (length ?ns)\<rparr>"])
      (simp add: size_defs mult.commute)
qed

text \<open>What a tick sends.\<close>

definition feedback_sound :: "'k recv_env \<Rightarrow> 'k recv_state \<Rightarrow> byte list \<Rightarrow> bool" where
  "feedback_sound env st pdu \<longleftrightarrow>
     length pdu \<le> FEEDBACK_HEADER_SIZE + re_max_nacks_per_pdu env * NACK_ENTRY_SIZE \<and>
     (\<exists>h ns. decode_feedback pdu = Some (Some (h, ns)) \<and> fh_session h = re_session env \<and>
        fh_done h = (rs_all_sent st \<and> rs_flushed st = re_total_blocks env) \<and>
        {..<unat (fh_hi_contig h)} \<subseteq> bm_seqs (rs_bm st) \<and>
        (\<forall>n \<in> set ns. unat (ne_block_seq n) < re_total_blocks env \<and> unat (ne_block_seq n) \<notin> bm_seqs (rs_bm st)))"

text \<open>The length of the received prefix.\<close>

definition contiguous :: "recv_bitmap \<Rightarrow> nat \<Rightarrow> nat \<Rightarrow> bool" where
  "contiguous bm tot hi \<longleftrightarrow> hi \<le> tot \<and> {..<hi} \<subseteq> bm_seqs bm \<and> (hi < tot \<longrightarrow> hi \<notin> bm_seqs bm)"

text \<open>What a tick leaves alone.\<close>

definition tick_frame :: "'k recv_env \<Rightarrow> feedback_local \<Rightarrow> 'k recv_state \<Rightarrow> feedback_local \<Rightarrow> 'k recv_state \<Rightarrow> bool" where
  "tick_frame env fl st fl' st' \<longleftrightarrow>
     (\<exists>rate s dn. st' = st\<lparr>rs_rate := rate, rs_stats := s, rs_done := dn\<rparr> \<and> rate_safe rate \<and>
        contiguous (rs_bm st) (re_total_blocks env) (st_hi_contig s) \<and>
        (dn \<longrightarrow> rs_done st \<or> rs_all_sent st \<and> rs_flushed st = re_total_blocks env)) \<and>
     scanner_inv (rs_bm st) (fl_scanner fl') \<and> ls_total (fl_scanner fl') = re_total_blocks env"

lemma scan_holes_total:
  assumes "scanner_inv bm ls"
  shows "\<exists>ls'. scan_holes bm m now rto ls = Some ls' \<and> scanner_inv bm ls' \<and> ls_total ls' = ls_total ls \<and>
           hi_contig ls' = hi_contig ls"
proof (cases "0 < ls_total ls")
  case True
  from scan_holes_ok [OF assms True refl, of m now rto] show ?thesis by (auto simp: scanned_def)
next
  case False
  then show ?thesis using assms by (simp add: scan_holes_def)
qed

lemma feedback_scan_ok:
  assumes "ctl_inv env s"
  shows "\<exists>rto target hi fl' rate stt. feedback_scan env now (sy_fl s) (sy_st s) =
           Some (rto, target, hi, rs_all_sent (sy_st s) \<and> rs_flushed (sy_st s) = re_total_blocks env, fl',
                 (sy_st s)\<lparr>rs_rate := rate, rs_stats := stt\<rparr>) \<and>
           rate_safe rate \<and> scanner_inv (rs_bm (sy_st s)) (fl_scanner fl') \<and>
           ls_total (fl_scanner fl') = re_total_blocks env \<and>
           contiguous (rs_bm (sy_st s)) (re_total_blocks env) hi \<and> st_hi_contig stt = hi"
proof -
  let ?st = "sy_st s"
  have i: "rtt_ok (rs_path ?st)" "rate_safe (rs_rate ?st)" "scanner_inv (rs_bm ?st) (fl_scanner (sy_fl s))"
      "ls_total (fl_scanner (sy_fl s)) = re_total_blocks env"
    using assms by (simp_all add: ctl_inv_def)
  obtain rto where rto: "rtt_rto (rs_path ?st) = Some rto" using rtt_rto_ok [OF i(1)] by blast
  obtain t rate where rate: "rate_update (srtt (rs_net ?st)) (min_rtt (rs_net ?st)) (rs_rate ?st) = Some (t, rate)" "rate_safe rate"
    using rate_update_safe [OF i(2)] by blast
  obtain sc where sc: "advance_loop (rs_bm ?st) (fl_scanner (sy_fl s)) = Some sc" "scanner_inv (rs_bm ?st) sc"
      "ls_total sc = re_total_blocks env" "hi_contig sc < re_total_blocks env \<longrightarrow> hi_contig sc \<notin> bm_seqs (rs_bm ?st)"
    using advance_loop_inv [OF i(3)] i(4) by auto
  let ?m = "if rs_all_sent ?st \<and> re_total_blocks env > 0 then re_total_blocks env - 1 else rs_max_seen ?st"
  obtain sc' where sc': "(if rs_seen_any ?st \<or> rs_all_sent ?st then scan_holes (rs_bm ?st) ?m (f64_of_nat now) rto sc else Some sc) = Some sc'"
      "scanner_inv (rs_bm ?st) sc'" "ls_total sc' = re_total_blocks env"
    using scan_holes_total [OF sc(2), of ?m "f64_of_nat now" rto] sc by (cases "rs_seen_any ?st \<or> rs_all_sent ?st") auto
  have hi: "contiguous (rs_bm ?st) (re_total_blocks env) (hi_contig sc)"
    using sc(2,3,4) by (simp add: scanner_inv_def contiguous_def)
  let ?stt = "(rs_stats ?st)\<lparr>st_target_rate_bps := effective_rate (rs_control ?st) t, st_hi_contig := hi_contig sc,
                st_rex_queue_len := int (pending_count sc')\<rparr>"
  have "feedback_scan env now (sy_fl s) ?st = Some (rto, effective_rate (rs_control ?st) t, hi_contig sc,
          rs_all_sent ?st \<and> rs_flushed ?st = re_total_blocks env, (sy_fl s)\<lparr>fl_scanner := sc'\<rparr>,
          ?st\<lparr>rs_rate := rate, rs_stats := ?stt\<rparr>)"
    using rto rate(1) sc(1) sc'(1) unfolding feedback_scan_def Let_def advance_def
    by (simp split del: if_split cong: if_cong)
  then show ?thesis using rate(2) sc'(2,3) hi
    by (intro exI [of _ rto] exI [of _ "effective_rate (rs_control ?st) t"] exI [of _ "hi_contig sc"]
        exI [of _ "(sy_fl s)\<lparr>fl_scanner := sc'\<rparr>"] exI [of _ rate] exI [of _ ?stt]) simp
qed

lemma of_nat_u64 [simp]: "n < 2 ^ 64 \<Longrightarrow> unat (of_nat n :: u64) = n"
  by (simp add: unat_of_nat)

lemma due_in_range:
  assumes "collected bm now re_due ls due ls'" and "scanner_inv bm ls"
  shows "\<forall>d \<in> set due. d < ls_total ls \<and> d \<notin> bm_seqs bm"
proof -
  have "pending ls' \<subseteq> pending ls" "set due \<subseteq> pending ls' - bm_seqs bm" using assms(1) by (simp_all add: collected_def)
  moreover have "pending ls \<subseteq> set (heap_seqs ls)" "set (heap_seqs ls) \<subseteq> {..<ls_total ls}"
    using assms(2) by (simp_all add: scanner_inv_def queue_ok_def)
  ultimately show ?thesis by blast
qed

lemma feedback_sound_intro:
  assumes "decode_feedback pdu = Some (Some (h, map nack_of due))" and "fh_session h = re_session env"
    and "fh_done h = (rs_all_sent st \<and> rs_flushed st = re_total_blocks env)"
    and "fh_hi_contig h = of_nat hi" and "{..<hi} \<subseteq> bm_seqs (rs_bm st)" and "hi < 2 ^ 64"
    and "\<forall>d \<in> set due. d < re_total_blocks env \<and> d \<notin> bm_seqs (rs_bm st)" and "re_total_blocks env < 2 ^ 64"
    and "length pdu = FEEDBACK_HEADER_SIZE + length due * NACK_ENTRY_SIZE" and "length due \<le> re_max_nacks_per_pdu env"
  shows "feedback_sound env st pdu"
proof -
  have "unat (ne_block_seq n) < re_total_blocks env \<and> unat (ne_block_seq n) \<notin> bm_seqs (rs_bm st)"
    if "n \<in> set (map nack_of due)" for n
  proof -
    from that obtain d where d: "d \<in> set due" "n = nack_of d" by auto
    then have "d < 2 ^ 64" using assms(7,8) by force
    then show ?thesis using d assms(7) by (simp add: nack_of_def)
  qed
  then show ?thesis
    using assms(1-6,9,10) unfolding feedback_sound_def
    by (intro conjI exI [of _ h] exI [of _ "map nack_of due"]) (simp_all add: size_defs)
qed

lemma feedback_iter_ok:
  assumes "ctl_inv env s" and "env_ok env"
  shows "\<exists>out fl' st'. feedback_iter env now now2 now3 sent_ok (sy_fl s) (sy_st s) = Some (out, fl', st') \<and>
           tick_frame env (sy_fl s) (sy_st s) fl' st' \<and>
           (case out of None \<Rightarrow> rs_peer (sy_st s) = None
            | Some (pdu, a) \<Rightarrow> rs_peer (sy_st s) = Some a \<and> feedback_sound env (sy_st s) pdu)"
proof -
  let ?st = "sy_st s" and ?fin = "rs_all_sent (sy_st s) \<and> rs_flushed (sy_st s) = re_total_blocks env"
  obtain rto target hi fl1 rate stt where sc: "feedback_scan env now (sy_fl s) ?st =
        Some (rto, target, hi, ?fin, fl1, ?st\<lparr>rs_rate := rate, rs_stats := stt\<rparr>)"
      "rate_safe rate" "scanner_inv (rs_bm ?st) (fl_scanner fl1)" "ls_total (fl_scanner fl1) = re_total_blocks env"
      "contiguous (rs_bm ?st) (re_total_blocks env) hi" "st_hi_contig stt = hi"
    using feedback_scan_ok [OF assms(1), of now] by (elim exE conjE)
  have tot: "re_total_blocks env < 2 ^ 64" "re_max_nacks_per_pdu env < 2 ^ 16" using assms(2) by (simp_all add: env_ok_def)
  show ?thesis
  proof (cases "rs_peer ?st")
    case None
    let ?st' = "?st\<lparr>rs_rate := rate, rs_stats := stt\<rparr>"
    have "tick_frame env (sy_fl s) ?st fl1 ?st'"
      using sc unfolding tick_frame_def by (intro conjI exI [of _ rate] exI [of _ stt] exI [of _ "rs_done ?st"]) simp_all
    then show ?thesis using None sc(1)
      by (intro exI [of _ None] exI [of _ fl1] exI [of _ ?st']) (simp add: feedback_iter_def)
  next
    case (Some peer)
    obtain due sc' where due: "collect_due (rs_bm ?st) (f64_of_nat now) rto (nack_capacity env target) (fl_scanner fl1) = Some (due, sc')"
        "collected (rs_bm ?st) (f64_of_nat now) (due_time (f64_of_nat now) rto) (fl_scanner fl1) due sc'"
        "scanner_inv (rs_bm ?st) sc'" "length due \<le> nack_capacity env target"
      using collect_due_ok [OF sc(3), of "f64_of_nat now" rto "nack_capacity env target"] by (elim exE conjE)
    let ?net = "now2 - fl_last_net_tick fl1 \<ge> of_nat (re_net_tick_interval_us env)"
    have len: "length due \<le> re_max_nacks_per_pdu env" using due(4) nack_capacity_le [of env target] by simp
    obtain pdu h where pdu: "feedback_pdu env now3 ?net target hi ?fin due = Some pdu"
        "length pdu = FEEDBACK_HEADER_SIZE + length due * NACK_ENTRY_SIZE"
        "decode_feedback pdu = Some (Some (h, map nack_of due))"
        "fh_done h = ?fin" "fh_hi_contig h = of_nat hi" "fh_session h = re_session env"
      using feedback_pdu_ok [OF len tot(2), of now3 ?net target hi ?fin] by (elim exE conjE)
    have sound: "feedback_sound env ?st pdu"
      using pdu(3,6,4,5) _ _ _ tot(1) pdu(2) len
      by (rule feedback_sound_intro) (use sc(4,5) tot(1) due_in_range [OF due(2) sc(3)] in \<open>simp_all add: contiguous_def\<close>)
    let ?fl = "fl1\<lparr>fl_scanner := sc', fl_last_net_tick := (if ?net then now2 else fl_last_net_tick fl1)\<rparr>"
    let ?fl' = "if ?fin then ?fl\<lparr>fl_done_sends := fl_done_sends ?fl + 1\<rparr> else ?fl"
    let ?stt = "if sent_ok \<and> due \<noteq> [] then stt\<lparr>st_nacks_sent := fetch_add (length due) (st_nacks_sent stt)\<rparr> else stt"
    let ?dn = "if ?fin \<and> fl_done_sends ?fl' \<ge> 8 then True else rs_done ?st"
    let ?st1 = "?st\<lparr>rs_rate := rate, rs_stats := ?stt\<rparr>"
    let ?st' = "if ?fin \<and> fl_done_sends ?fl' \<ge> 8 then ?st1\<lparr>rs_done := True\<rparr> else ?st1"
    have "ls_total sc' = re_total_blocks env" using due(2) sc(4) by (simp add: collected_def)
    then have "tick_frame env (sy_fl s) ?st ?fl' ?st'"
      using sc(2,5,6) due(3) unfolding tick_frame_def
      by (intro conjI exI [of _ rate] exI [of _ ?stt] exI [of _ ?dn]) auto
    moreover have "feedback_iter env now now2 now3 sent_ok (sy_fl s) ?st = Some (Some (pdu, peer), ?fl', ?st')"
      by (simp only: feedback_iter_def sc(1) bind.bind_lunit prod.case)
        (simp add: Some due(1) pdu(1) Let_def)
    ultimately show ?thesis using Some sound by (intro exI [of _ "Some (pdu, peer)"] exI [of _ ?fl'] exI [of _ ?st']) simp
  qed
qed

subsection \<open>Every action\<close>

lemma ctl_inv_tick:
  assumes "ctl_inv env s" and "tick_frame env (sy_fl s) (sy_st s) fl' st'"
  shows "ctl_inv env (s\<lparr>sy_st := st', sy_fl := fl'\<rparr>)"
proof -
  obtain rate stt dn where st': "st' = (sy_st s)\<lparr>rs_rate := rate, rs_stats := stt, rs_done := dn\<rparr>" "rate_safe rate"
      "dn \<longrightarrow> rs_done (sy_st s) \<or> rs_all_sent (sy_st s) \<and> rs_flushed (sy_st s) = re_total_blocks env"
    and fl: "scanner_inv (rs_bm (sy_st s)) (fl_scanner fl')" "ls_total (fl_scanner fl') = re_total_blocks env"
    using assms(2) unfolding tick_frame_def by (elim exE conjE)
  show ?thesis using assms(1) st'(2,3) fl unfolding ctl_inv_def st'(1) by (simp, blast)
qed

lemma ctl_inv_accept_packet:
  assumes "ctl_inv env s" and "env_ok env"
  shows "\<exists>blk st'. accept_packet env now pkt addr (sy_st s) = Some (blk, st') \<and> accepted env pkt (sy_st s) blk st'"
  using accept_packet_ok [OF assms(2), of "sy_st s"] assms(1) by (simp add: ctl_inv_def)

lemma ctl_inv_step:
  assumes "recv_step env a s s'" and "ctl_inv env s" and "env_ok env"
  shows "ctl_inv env s'"
  using assms(1)
proof (cases rule: recv_step.cases)
  case (step_Rx w now pkt addr blk st')
  then show ?thesis 
    using ctl_inv_accept_packet [OF assms(2,3), of now pkt addr] ctl_inv_accept [OF assms(2), of pkt blk st' w] by auto
next
  case (step_Store w seq payload ok st')
  then show ?thesis using ctl_inv_store [OF assms(2)] by simp
next
  case (step_Publish w seq st')
  then show ?thesis using ctl_inv_publish [OF assms(2), of w seq] by auto
next
  case (step_Flush st')
  then show ?thesis using ctl_inv_flush [OF assms(2)] assms(2) by (cases rule: flush_step_cases [OF assms(2)]) auto
next
  case (step_Tick now now2 now3 sent_ok out fl' st')
  then show ?thesis using feedback_iter_ok [OF assms(2,3), of now now2 now3 sent_ok] ctl_inv_tick [OF assms(2)] by auto
qed

lemma ctl_inv_run: "recv_run env as s s' \<Longrightarrow> ctl_inv env s \<Longrightarrow> env_ok env \<Longrightarrow> ctl_inv env s'"
  by (induction rule: recv_run.induct) (use ctl_inv_step in blast)+

fun enabled :: "action \<Rightarrow> 'k system \<Rightarrow> bool" where
  "enabled (Rx w now pkt addr) s = (w < length (sy_workers s) \<and> sy_workers s ! w = Idle)"
| "enabled (Store w) s = (w < length (sy_workers s) \<and> (\<exists>seq p. sy_workers s ! w = Claimed seq p))"
| "enabled (Publish w) s = (w < length (sy_workers s) \<and> (\<exists>seq. sy_workers s ! w = Stored seq))"
| "enabled Flush s = True"
| "enabled (Tick now now2 now3 sent_ok) s = (\<not> rs_done (sy_st s))"

lemma enabled_steps:
  assumes "ctl_inv env s" and "env_ok env" and "enabled a s"
  shows "\<exists>s'. recv_step env a s s'"
proof (cases a)
  case (Rx w now pkt addr)
  then show ?thesis
    using assms(3) ctl_inv_accept_packet [OF assms(1,2), of now pkt addr] step_Rx [of w s env now pkt addr] by auto
next
  case (Store w)
  then show ?thesis using assms(3) step_Store [of w s] by (metis enabled.simps(2) surj_pair)
next
  case (Publish w)
  then show ?thesis 
    using assms(3) ctl_inv_publish [OF assms(1), of w] step_Publish [of w s] by (metis enabled.simps(3))
next
  case Flush
  then show ?thesis by (cases rule: flush_step_cases [OF assms(1)]) (use step_Flush in blast)+
next
  case (Tick now now2 now3 sent_ok)
  then show ?thesis
    using assms(3) feedback_iter_ok [OF assms(1,2), of now now2 now3 sent_ok] step_Tick [of s env now now2 now3 sent_ok] by auto
qed

end
