(* ===== verification/Receiver_Data.thy ===== *)
theory Receiver_Data
  imports Receiver_Invariant
begin

text \<open>
  The data the receiver writes. \<open>data_ok\<close> relates the sink, the staging map and what the workers
  hold to the file being received, for any sink that keeps the contract \<open>block_sink\<close>; it is kept
  by every action when the datagrams that open carry the file's blocks. With the control
  invariant it gives that a flushed transfer is the file, byte for byte. The second half is about
  progress: the flusher reaches the last block, and the case in which it never does.
\<close>

section \<open>The data invariant\<close>

text \<open>A datagram is genuine when whatever it opens to is the file's block of that number.\<close>

definition genuine :: "'k recv_env \<Rightarrow> byte list \<Rightarrow> byte list \<Rightarrow> bool" where
  "genuine env data pkt \<longleftrightarrow>
     (\<forall>h p. decode_data_header pkt = Some (Some h) \<longrightarrow> dh_session h = re_session env \<longrightarrow>
        unat (dh_block_seq h) < re_total_blocks env \<longrightarrow> open_payload env h pkt = Some (Some (Some p)) \<longrightarrow>
        p = block_of data (re_block_size env) (unat (dh_block_seq h)))"

fun genuine_action :: "'k recv_env \<Rightarrow> byte list \<Rightarrow> action \<Rightarrow> bool" where
  "genuine_action env data (Rx w now pkt addr) = genuine env data pkt"
| "genuine_action env data a = True"

definition describes :: "'k recv_env \<Rightarrow> byte list \<Rightarrow> bool" where
  "describes env data \<longleftrightarrow> 0 < re_block_size env \<and> length data < 2 ^ 64 \<and>
     num_blocks (int (length data)) (re_block_size env) = Some (re_total_blocks env)"

lemma describes_in_file:
  "describes env data \<Longrightarrow> seq < re_total_blocks env \<longleftrightarrow> seq * re_block_size env < length data"
  using num_blocks_less_iff [of "int (length data)" "re_block_size env" "re_total_blocks env" seq]
  by (auto simp: describes_def simp flip: of_nat_mult)

definition written :: "byte list \<Rightarrow> byte list \<Rightarrow> nat \<Rightarrow> nat \<Rightarrow> bool" where
  "written file data bs seq \<longleftrightarrow> (\<forall>i < length data. i div bs = seq \<longrightarrow> file ! i = data ! i)"

definition stored :: "'k system \<Rightarrow> nat set" where
  "stored s = bm_seqs (rs_ready_bm (sy_st s)) \<union> {seq. Stored seq \<in> set (sy_workers s)}"

definition data_ok :: "('k \<Rightarrow> byte list) \<Rightarrow> ('k \<Rightarrow> bool) \<Rightarrow> 'k recv_env \<Rightarrow> byte list \<Rightarrow> 'k system \<Rightarrow> bool" where
  "data_ok bytes sized env data s \<longleftrightarrow>
     sized (rs_sink (sy_st s)) \<and> length (bytes (rs_sink (sy_st s))) = length data \<and>
     (\<forall>seq p. Claimed seq p \<in> set (sy_workers s) \<longrightarrow> p = block_of data (re_block_size env) seq) \<and>
     (\<forall>seq b. rs_stage (sy_st s) seq = Some b \<longrightarrow>
        b = block_of data (re_block_size env) seq \<and> rs_flushed (sy_st s) \<le> seq) \<and>
     (\<forall>seq \<in> stored s. rs_stage (sy_st s) seq = None \<longrightarrow>
        written (bytes (rs_sink (sy_st s))) data (re_block_size env) seq)"

lemma data_ok_complete:
  assumes "data_ok bytes sized env data s" and "ctl_inv env s" and "describes env data"
    and "rs_flushed (sy_st s) = re_total_blocks env"
  shows "bytes (rs_sink (sy_st s)) = data"
proof (rule nth_equalityI)
  show len: "length (bytes (rs_sink (sy_st s))) = length data" using assms(1) by (simp add: data_ok_def)
  fix i assume "i < length (bytes (rs_sink (sy_st s)))"
  then have i: "i < length data" using len by simp
  let ?q = "i div re_block_size env"
  have "?q * re_block_size env \<le> i" by simp
  then have q: "?q < re_total_blocks env" using describes_in_file [OF assms(3), of ?q] i by linarith
  then have "rs_stage (sy_st s) ?q = None" using assms(1,4) unfolding data_ok_def by (metis leD option.exhaust)
  moreover have "?q \<in> stored s" using q assms(2,4) unfolding ctl_inv_def stored_def by auto
  ultimately show "bytes (rs_sink (sy_st s)) ! i = data ! i"
    using assms(1) i unfolding data_ok_def written_def by blast
qed

lemma Claimed_update:
  "Claimed seq p \<in> set (ws[w := x]) \<Longrightarrow> Claimed seq p = x \<or> Claimed seq p \<in> set ws"
  using set_update_subset_insert [of ws w x] by auto

lemma Stored_update:
  "Stored seq \<in> set (ws[w := x]) \<Longrightarrow> Stored seq = x \<or> Stored seq \<in> set ws"
  using set_update_subset_insert [of ws w x] by auto

lemma data_ok_accept:
  assumes "data_ok bytes sized env data s" and "accepted env pkt (sy_st s) blk st'" and "genuine env data pkt"
  shows "data_ok bytes sized env data
    (s\<lparr>sy_st := st', sy_workers := (sy_workers s)[w := (case blk of None \<Rightarrow> Idle | Some (seq, p) \<Rightarrow> Claimed seq p)]\<rparr>)"
proof -
  let ?x = "case blk of None \<Rightarrow> Idle | Some (seq, p) \<Rightarrow> Claimed seq p"
  let ?s' = "s\<lparr>sy_st := st', sy_workers := (sy_workers s)[w := ?x]\<rparr>"
  have q: "rs_ready_bm st' = rs_ready_bm (sy_st s)" "rs_flushed st' = rs_flushed (sy_st s)"
      "rs_stage st' = rs_stage (sy_st s)" "rs_sink st' = rs_sink (sy_st s)"
    using assms(2) by (simp_all add: accepted_def quiet_update_def)
  have "p = block_of data (re_block_size env) seq" if "Claimed seq p = ?x" for seq p
    using that assms(2,3) by (auto simp: accepted_def fresh_block_def genuine_def split: option.splits)
  then have c: "\<forall>seq p. Claimed seq p \<in> set ((sy_workers s)[w := ?x]) \<longrightarrow> p = block_of data (re_block_size env) seq"
    using assms(1) Claimed_update unfolding data_ok_def by metis
  have "Stored seq \<noteq> ?x" for seq by (simp split: option.splits)
  then have "Stored seq \<in> set (sy_workers s)" if "Stored seq \<in> set ((sy_workers s)[w := ?x])" for seq
    using Stored_update [OF that] by simp
  then have "stored ?s' \<subseteq> stored s" by (auto simp: stored_def q)
  then show ?thesis using assms(1) c unfolding data_ok_def by (simp add: q subset_iff)
qed

lemma data_ok_publish:
  assumes "data_ok bytes sized env data s" and "sy_workers s ! w = Stored seq" and "w < length (sy_workers s)"
    and "bm_seqs ready = insert seq (bm_seqs (rs_ready_bm (sy_st s)))"
  shows "data_ok bytes sized env data (s\<lparr>sy_st := (sy_st s)\<lparr>rs_ready_bm := ready\<rparr>, sy_workers := (sy_workers s)[w := Idle]\<rparr>)"
proof -
  have "Stored seq \<in> set (sy_workers s)" using assms(2,3) nth_mem by metis
  moreover have "Stored q \<in> set (sy_workers s)" if "Stored q \<in> set ((sy_workers s)[w := Idle])" for q
    using Stored_update [OF that] by simp
  ultimately have "stored (s\<lparr>sy_st := (sy_st s)\<lparr>rs_ready_bm := ready\<rparr>, sy_workers := (sy_workers s)[w := Idle]\<rparr>) \<subseteq> stored s"
    using assms(4) by (auto simp: stored_def)
  moreover have "\<forall>q p. Claimed q p \<in> set ((sy_workers s)[w := Idle]) \<longrightarrow> p = block_of data (re_block_size env) q"
    using assms(1) Claimed_update unfolding data_ok_def by (metis worker.distinct(1))
  ultimately show ?thesis using assms(1) unfolding data_ok_def by (simp add: subset_iff)
qed

lemma data_ok_tick:
  assumes "data_ok bytes sized env data s" and "tick_frame env (sy_fl s) (sy_st s) fl' st'"
  shows "data_ok bytes sized env data (s\<lparr>sy_st := st', sy_fl := fl'\<rparr>)"
proof -
  obtain rate stt dn where "st' = (sy_st s)\<lparr>rs_rate := rate, rs_stats := stt, rs_done := dn\<rparr>"
    using assms(2) unfolding tick_frame_def by (elim exE conjE)
  then show ?thesis using assms(1) unfolding data_ok_def stored_def by simp
qed

lemma held_in_range:
  assumes "ctl_inv env s" and "w < length (sy_workers s)" and "held (sy_workers s ! w) = Some seq"
  shows "seq < re_total_blocks env" and "rs_flushed (sy_st s) \<le> seq"
proof -
  have seq: "seq \<in> bm_seqs (rs_bm (sy_st s))" "seq \<notin> bm_seqs (rs_ready_bm (sy_st s))"
    using assms by (auto simp: ctl_inv_def claims_ok_def)
  moreover have "bm_seqs (rs_bm (sy_st s)) \<subseteq> {..<re_total_blocks env}"
      "{..<rs_flushed (sy_st s)} \<subseteq> bm_seqs (rs_ready_bm (sy_st s))"
    using assms(1) by (simp_all add: ctl_inv_def)
  ultimately show "seq < re_total_blocks env" "rs_flushed (sy_st s) \<le> seq" by (auto simp: not_less [symmetric])
qed

text \<open>The actions that write, for every sink of the contract.\<close>

context block_sink
begin

lemma write_one:
  assumes "0 < bs" and "length data < 2 ^ 64" and "sized k" and "length (bytes k) = length data" and "seq * bs < length data"
  shows "\<exists>k'. write_all_at k (seq * bs) (block_of data bs seq) = Inr k' \<and> sized k' \<and> length (bytes k') = length data \<and>
           written (bytes k') data bs seq \<and> (\<forall>q. written (bytes k) data bs q \<longrightarrow> written (bytes k') data bs q)"
proof -
  obtain k' where k': "write_ranges write_all_at k [(seq * bs, block_of data bs seq)] = Inr k'" "sized k'"
      "length (bytes k') = length data" "\<forall>i < length data. bytes k' ! i = (if i div bs = seq then data ! i else bytes k ! i)"
    using write_blocks_ok [OF assms(1,2,3,4), of "[seq]"] assms(5) by auto
  then have "write_all_at k (seq * bs) (block_of data bs seq) = Inr k'" by (auto split: sum.splits)
  then show ?thesis using k' by (auto simp: written_def)
qed

lemma data_ok_store:
  assumes "data_ok bytes sized env data s" and "ctl_inv env s" and "describes env data" and "re_write env = write_all_at"
    and w: "w < length (sy_workers s)" "sy_workers s ! w = Claimed seq p"
    and "store_block env seq p (sy_st s) = (ok, st')"
  shows "data_ok bytes sized env data (s\<lparr>sy_st := st', sy_workers := (sy_workers s)[w := if ok then Stored seq else Idle]\<rparr>)"
proof -
  let ?st = "sy_st s" and ?bs = "re_block_size env"
  have mem: "Claimed seq p \<in> set (sy_workers s)" using w nth_mem by metis
  then have p: "p = block_of data ?bs seq" using assms(1) by (simp add: data_ok_def)
  have fit: "seq * ?bs < length data" and fl: "rs_flushed ?st \<le> seq"
    using held_in_range [OF assms(2) w(1), of seq] w(2) describes_in_file [OF assms(3)] by simp_all
  obtain k' where k': "write_all_at (rs_sink ?st) (seq * ?bs) p = Inr k'" "sized k'" "length (bytes k') = length data"
      "written (bytes k') data ?bs seq" "\<forall>q. written (bytes (rs_sink ?st)) data ?bs q \<longrightarrow> written (bytes k') data ?bs q"
    using write_one [of ?bs data "rs_sink ?st" seq] fit assms(1,3) p by (auto simp: data_ok_def describes_def)
  have ws: "Claimed q x \<in> set (sy_workers s)" if "Claimed q x \<in> set ((sy_workers s)[w := Stored seq])" for q x
    using Claimed_update [OF that] by simp
  have st: "Stored q \<in> set (sy_workers s) \<or> q = seq" if "Stored q \<in> set ((sy_workers s)[w := Stored seq])" for q
    using Stored_update [OF that] by auto
  let ?s' = "s\<lparr>sy_st := st', sy_workers := (sy_workers s)[w := Stored seq]\<rparr>"
  consider (staged) "ok" "st' = ?st\<lparr>rs_free := rs_free ?st - 1, rs_stage := (rs_stage ?st)(seq \<mapsto> p)\<rparr>"
    | (direct) "ok" "st' = ?st\<lparr>rs_sink := k'\<rparr>"
    using assms(4,7) k'(1) by (cases "rs_free ?st > 0") (simp_all add: store_block_def)
  then have "data_ok bytes sized env data ?s' \<and> ok"
  proof cases
    case staged
    have "written (bytes (rs_sink ?st)) data ?bs q" if "q \<in> stored ?s'" "rs_stage st' q = None" for q
      using that st [of q] assms(1) by (auto simp: staged(2) stored_def data_ok_def split: if_splits)
    then show ?thesis using assms(1) p fl ws staged unfolding data_ok_def by (auto split: if_splits)
  next
    case direct
    have "written (bytes k') data ?bs q" if "q \<in> stored ?s'" "rs_stage st' q = None" for q
      using that st [of q] assms(1) k'(4,5) by (auto simp: direct(2) stored_def data_ok_def)
    then show ?thesis using assms(1) k'(2,3) ws direct unfolding data_ok_def by auto
  qed
  then show ?thesis by simp
qed

lemma data_ok_flush:
  assumes "data_ok bytes sized env data s" and "ctl_inv env s" and "describes env data" and "re_write env = write_all_at"
    and "rs_flushed (sy_st s) < re_total_blocks env"
  shows "data_ok bytes sized env data (s\<lparr>sy_st := flush_block env (sy_st s)\<rparr>)"
proof -
  let ?st = "sy_st s" and ?bs = "re_block_size env" and ?q = "rs_flushed (sy_st s)"
  show ?thesis
  proof (cases "rs_stage ?st ?q")
    case None
    then have "rs_stage ?st seq = Some b \<Longrightarrow> Suc ?q \<le> seq" for seq b
      using assms(1) unfolding data_ok_def by (metis Suc_leI le_neq_implies_less option.distinct(1))
    moreover have "flush_block env ?st = ?st\<lparr>rs_flushed := Suc ?q\<rparr>" using None by (simp add: flush_block_def Let_def)
    ultimately show ?thesis using assms(1) unfolding data_ok_def stored_def by auto
  next
    case (Some b)
    then have b: "b = block_of data ?bs ?q" using assms(1) by (simp add: data_ok_def)
    obtain k' where k': "write_all_at (rs_sink ?st) (?q * ?bs) b = Inr k'" "sized k'" "length (bytes k') = length data"
        "written (bytes k') data ?bs ?q" "\<forall>q. written (bytes (rs_sink ?st)) data ?bs q \<longrightarrow> written (bytes k') data ?bs q"
      using write_one [of ?bs data "rs_sink ?st" ?q] describes_in_file [OF assms(3), of ?q] assms(1,3,5) b
      by (auto simp: data_ok_def describes_def)
    have f: "flush_block env ?st = ?st\<lparr>rs_stage := (rs_stage ?st)(?q := None), rs_sink := k', rs_free := rs_free ?st + 1,
        rs_flushed := Suc ?q\<rparr>"
      using Some k'(1) assms(4) by (simp add: flush_block_def Let_def)
    have "Suc ?q \<le> seq" if "rs_stage ?st seq = Some x" "seq \<noteq> ?q" for seq x
      using assms(1) that unfolding data_ok_def by (metis Suc_leI le_neq_implies_less)
    then show ?thesis using assms(1) k'(2-5) unfolding data_ok_def stored_def f by (auto split: if_splits)
  qed
qed

lemma data_ok_step:
  assumes "recv_step env a s s'" and "data_ok bytes sized env data s" and "ctl_inv env s" and "env_ok env"
    and "describes env data" and "re_write env = write_all_at" and "genuine_action env data a"
  shows "data_ok bytes sized env data s'"
  using assms(1)
proof (cases rule: recv_step.cases)
  case (step_Rx w now pkt addr blk st')
  then show ?thesis
    using ctl_inv_accept_packet [OF assms(3,4), of now pkt addr] data_ok_accept [OF assms(2), of pkt blk st' w] assms(7) by auto
next
  case (step_Store w seq payload ok st')
  then show ?thesis using data_ok_store [OF assms(2,3,5,6)] by simp
next
  case (step_Publish w seq st')
  then show ?thesis using ctl_inv_publish [OF assms(3), of w seq] data_ok_publish [OF assms(2), of w seq] by auto
next
  case (step_Flush st')
  then show ?thesis using data_ok_flush [OF assms(2,3,5,6)] assms(2) by (cases rule: flush_step_cases [OF assms(3)]) auto
next
  case (step_Tick now now2 now3 sent_ok out fl' st')
  then show ?thesis using feedback_iter_ok [OF assms(3,4), of now now2 now3 sent_ok] data_ok_tick [OF assms(2)] by auto
qed

lemma data_ok_run:
  "recv_run env as s s' \<Longrightarrow> data_ok bytes sized env data s \<Longrightarrow> ctl_inv env s \<Longrightarrow> env_ok env \<Longrightarrow>
     describes env data \<Longrightarrow> re_write env = write_all_at \<Longrightarrow> (\<forall>a \<in> set as. genuine_action env data a) \<Longrightarrow>
     data_ok bytes sized env data s'"
proof (induction rule: recv_run.induct)
  case (run_Cons a s s' as s'')
  have "genuine_action env data a" using run_Cons.prems(6) by simp
  then show ?case
    using data_ok_step [OF run_Cons.hyps(1) run_Cons.prems(1-5)] ctl_inv_step [OF run_Cons.hyps(1) run_Cons.prems(2,3)]
      run_Cons.IH run_Cons.prems by simp
qed simp

end

section \<open>The initial state\<close>

definition rate_bounds_ok :: "rate_config \<Rightarrow> bool" where
  "rate_bounds_ok c \<longleftrightarrow> f64_of_nat (min_bps (with_defaults c)) \<le> f64_of_nat (max_bps (with_defaults c))"

lemma rate_new_safe: "rate_bounds_ok c \<Longrightarrow> rate_safe (rate_controller_new c)"
  using start_rate_ok [of "with_defaults c"]
  by (cases "rc_mode c") (simp_all add: rate_bounds_ok_def rate_safe_def rate_controller_new_def Let_def with_defaults_def)

lemma set_rate_safe:
  assumes "rate_bounds_ok c"
  shows "\<exists>rc. set_rate bps (rate_controller_new c) = Some rc \<and> rate_safe rc"
proof (cases "rc_mode c")
  case Adaptive
  then have "rc_mode (with_defaults c) = Adaptive" by (simp add: with_defaults_def)
  then have "rate_ok (rate_controller_new c)"
    using start_rate_ok [of "with_defaults c"] assms by (simp add: rate_bounds_ok_def rate_controller_new_def Let_def)
  from set_rate_ok [OF this] show ?thesis by (auto simp: rate_safe_def)
next
  case Fixed
  let ?lo = "f64_of_nat (min_bps (with_defaults c))" and ?hi = "f64_of_nat (max_bps (with_defaults c))"
  have "f64_clamp (f64_of_nat bps) ?lo ?hi \<noteq> None"
    using assms f64_clamp_None_iff [of "f64_of_nat bps" ?lo ?hi] by (simp add: rate_bounds_ok_def)
  then obtain r where "f64_clamp (f64_of_nat bps) ?lo ?hi = Some r" by blast
  moreover have "rc_mode (with_defaults c) = Fixed" using Fixed by (simp add: with_defaults_def)
  ultimately show ?thesis by (simp add: set_rate_def rate_controller_new_def Let_def rate_safe_def)
qed

lemma warm_up_ok:
  assumes "rate_bounds_ok conf"
  shows "\<exists>rate net s'. warm_up warm conf s = Some (rate, net, s') \<and> rate_safe rate \<and> rtt_ok net"
proof (cases warm)
  case None
  then show ?thesis using rate_new_safe [OF assms] rtt_ok_new by (simp add: warm_up_def)
next
  case (Some x)
  then show ?thesis using set_rate_safe [OF assms, of "warm_rate_bps x"] rtt_ok_seed [OF rtt_ok_new]
    by (auto simp: warm_up_def)
qed

lemma new_receiver_starts:
  assumes "0 < rv_block_size c" and "rate_bounds_ok (rv_rate c)"
  shows "\<exists>env st. new_receiver num_cpu wr crc dec sink c = Some (env, st) \<and> ctl_inv env (system_start env st n) \<and>
           re_write env = wr \<and> re_crc env = crc \<and> re_dec env = dec \<and> re_block_size env = rv_block_size c \<and>
           re_total_blocks env = rv_total_blocks c \<and> re_session env = rv_session c \<and> re_crypto env = rv_crypto c \<and>
           re_max_nacks_per_pdu env = (if rv_max_nacks_per_pdu c = 0 then 90 else rv_max_nacks_per_pdu c) \<and>
           rs_sink st = sink \<and> rs_stage st = Map.empty \<and> rs_flushed st = 0 \<and> bm_seqs (rs_ready_bm st) = {}"
proof -
  let ?d = "with_recv_defaults num_cpu c"
  obtain depth where d: "stage_depth (rv_block_size c) (rv_total_blocks c) = Some depth"
    using assms(1) by (simp add: stage_depth_def Let_def)
  let ?s = "(rv_stats c)\<lparr>st_total_bytes := unat (of_int (rv_file_size c) :: u64), st_total_blocks := rv_total_blocks c,
              st_block_size := rv_block_size c, st_target_rate_bps := target_bps (rv_rate c)\<rparr>"
  obtain rate net s where r: "warm_up (rv_warm_start c) (rv_rate c) ?s = Some (rate, net, s)" "rate_safe rate" "rtt_ok net"
    using warm_up_ok [OF assms(2)] by blast
  have f: "rv_block_size ?d = rv_block_size c" "rv_total_blocks ?d = rv_total_blocks c" "rv_warm_start ?d = rv_warm_start c"
      "rv_rate ?d = rv_rate c" "rv_stats ?d = rv_stats c" "rv_file_size ?d = rv_file_size c" "rv_session ?d = rv_session c"
      "rv_crypto ?d = rv_crypto c"
    by (simp_all add: with_recv_defaults_def)
  show ?thesis
    using d r(1) unfolding new_receiver_def Let_def f
    by (simp add: ctl_inv_def system_start_def feedback_start_def claims_ok_idle scanner_inv_new r(2,3) rtt_ok_new
        recv_bitmap_new_cap with_recv_defaults_def) (simp add: loss_scanner_new_def)
qed

section \<open>Runs of a receiver\<close>

definition config_ok :: "dec_fun \<Rightarrow> recv_config \<Rightarrow> bool" where
  "config_ok dec c \<longleftrightarrow> 0 < rv_block_size c \<and> rate_bounds_ok (rv_rate c) \<and> rv_total_blocks c < 2 ^ 64 \<and>
     rv_max_nacks_per_pdu c < 2 ^ 16 \<and> dec_lengths dec"

text \<open>The state \<open>s\<close> is reached by the actions \<open>as\<close> of \<open>n\<close> workers, the flusher and the feedback thread.\<close>

definition reaches ::
  "('k \<Rightarrow> nat \<Rightarrow> byte list \<Rightarrow> 'k io) \<Rightarrow> (byte list \<Rightarrow> u32) \<Rightarrow> dec_fun \<Rightarrow> 'k \<Rightarrow> recv_config \<Rightarrow> nat \<Rightarrow>
   action list \<Rightarrow> 'k recv_env \<Rightarrow> 'k system \<Rightarrow> bool" where
  "reaches wr crc dec sink c n as env s \<longleftrightarrow>
     (\<exists>st. new_receiver n wr crc dec sink c = Some (env, st) \<and> recv_run env as (system_start env st n) s)"

lemma reaches_inv:
  assumes "config_ok dec c" and "reaches wr crc dec sink c n as env s"
  shows "ctl_inv env s" and "env_ok env" and "re_total_blocks env = rv_total_blocks c"
    and "re_block_size env = rv_block_size c" and "re_write env = wr"
proof -
  obtain st where st: "new_receiver n wr crc dec sink c = Some (env, st)" "recv_run env as (system_start env st n) s"
    using assms(2) by (auto simp: reaches_def)
  have start: "ctl_inv env (system_start env st n)" "re_write env = wr" "re_block_size env = rv_block_size c"
      "re_total_blocks env = rv_total_blocks c" "re_dec env = dec"
      "re_max_nacks_per_pdu env = (if rv_max_nacks_per_pdu c = 0 then 90 else rv_max_nacks_per_pdu c)"
    using new_receiver_starts [of c n wr crc dec sink n] assms(1) st(1) by (auto simp: config_ok_def)
  then show env: "env_ok env" using assms(1) by (simp add: env_ok_def config_ok_def)
  show "ctl_inv env s" by (rule ctl_inv_run [OF st(2) start(1) env])
  show "re_total_blocks env = rv_total_blocks c" "re_block_size env = rv_block_size c" "re_write env = wr"
    using start by simp_all
qed

lemma reaches_data:
  assumes "block_sink allocate wr read_crc bytes sized" and "config_ok dec c"
    and "reaches wr crc dec sink c n as env s" and "sized sink" and "length (bytes sink) = length data"
    and "describes env data" and "\<forall>a \<in> set as. genuine_action env data a"
  shows "data_ok bytes sized env data s"
proof -
  obtain st where st: "new_receiver n wr crc dec sink c = Some (env, st)" "recv_run env as (system_start env st n) s"
    using assms(3) by (auto simp: reaches_def)
  have start: "ctl_inv env (system_start env st n)" "re_write env = wr" "rs_sink st = sink" "rs_stage st = Map.empty"
      "bm_seqs (rs_ready_bm st) = {}"
    using new_receiver_starts [of c n wr crc dec sink n] assms(2) st(1) by (auto simp: config_ok_def)
  have "data_ok bytes sized env data (system_start env st n)"
    using assms(4,5) start by (simp add: data_ok_def system_start_def stored_def)
  from block_sink.data_ok_run [OF assms(1) st(2) this start(1) _ assms(6) start(2) assms(7)]
  show ?thesis using reaches_inv(2) [OF assms(2,3)] by simp
qed


text \<open>Property C5: the received file. When the datagrams that open carry the blocks of \<open>data\<close>, in whatever
  order, number and interleaving they are taken, the sink is \<open>data\<close>, byte for byte, as soon as the
  flusher has passed the last block; and the receiver reports completion only then.\<close>

theorem receiver_reassembles:
  assumes "config_ok dec c" and "reaches file_write_all_at crc dec sink c n as env s"
    and "fsnk_len sink = length (fsnk_file sink)" and "length (fsnk_file sink) = length data"
    and "describes env data" and "\<forall>a \<in> set as. genuine_action env data a"
    and "rs_flushed (sy_st s) = re_total_blocks env \<or> rs_done (sy_st s)"
  shows "fsnk_file (rs_sink (sy_st s)) = data"
proof -
  have inv: "ctl_inv env s" using reaches_inv(1) [OF assms(1,2)] .
  then have "rs_flushed (sy_st s) = re_total_blocks env" using assms(7) by (auto simp: ctl_inv_def)
  moreover have "data_ok fsnk_file (\<lambda>k. fsnk_len k = length (fsnk_file k)) env data s"
    using reaches_data [OF file_snk.block_sink_axioms assms(1,2) assms(3-6)] .
  ultimately show ?thesis using data_ok_complete inv assms(5) by blast
qed

subsection \<open>A sample transfer\<close>

text \<open>A file of one byte, sent in the clear, to one worker.\<close>

definition sample_recv :: recv_config where
  "sample_recv = \<lparr>rv_file_size = 1, rv_block_size = 2, rv_total_blocks = 1, rv_session = 7, rv_expected_peer_ip = None,
     rv_read_workers = 1, rv_rate = \<lparr>rc_mode = Fixed, target_bps = 1000000, min_bps = 0, max_bps = 0, alpha = 0\<rparr>,
     rv_crypto = None, rv_feedback_interval_us = 0, rv_net_tick_interval_us = 0, rv_max_nacks_per_pdu = 0,
     rv_stats = stats_new 0, rv_control = None, rv_warm_start = None, rv_start_peer = None\<rparr>"

definition plain_pkt :: "u32 \<Rightarrow> nat \<Rightarrow> byte list \<Rightarrow> byte list" where
  "plain_pkt session seq p = data_header_bytes \<lparr>dh_flags = 0, dh_payload_len = of_nat (length p), dh_session = session,
     dh_block_seq = of_nat seq, dh_echo_tick = 0, dh_rex_index = -1, dh_payload_crc = sum_crc 0 p\<rparr> @ p"

abbreviation sample_peer :: socket_addr where
  "sample_peer \<equiv> V4 [10, 0, 0, 1] 9000"

abbreviation sample_pkt :: "byte list" where
  "sample_pkt \<equiv> plain_pkt 7 0 [9]"

definition sample_sink :: file_sink where
  "sample_sink = \<lparr>fsnk_file = [0], fsnk_len = 1\<rparr>"

definition sample_actions :: "action list" where
  "sample_actions = [Rx 0 0 sample_pkt (Some sample_peer), Store 0, Publish 0, Flush]"

definition copy_all :: dec_fun where
  "copy_all box nonce ct tag = Some ct"

lemma sample_recv_ok: "config_ok copy_all sample_recv"
proof -
  have "f64_of_nat 64000 \<le> f64_of_nat 10000000000" by (rule f64_of_nat_mono) simp
  then show ?thesis
    by (simp add: config_ok_def sample_recv_def rate_bounds_ok_def with_defaults_def dec_lengths_def copy_all_def)
qed

definition sample_renv :: "(file_sink \<Rightarrow> nat \<Rightarrow> byte list \<Rightarrow> file_sink io) \<Rightarrow> file_sink recv_env" where
  "sample_renv wr = fst (the (new_receiver 1 wr (sum_crc 0) copy_all sample_sink sample_recv))"

definition sample_rst :: "file_sink recv_state" where
  "sample_rst = snd (the (new_receiver 1 file_write_all_at (sum_crc 0) copy_all sample_sink sample_recv))"

lemmas sample_start = new_receiver_def with_recv_defaults_def stage_depth_def warm_up_def sample_recv_def Let_def

lemma sample_new: "new_receiver 1 wr (sum_crc 0) copy_all sample_sink sample_recv = Some (sample_renv wr, sample_rst)"
  by (simp add: sample_renv_def sample_rst_def sample_start)

text \<open>A plain datagram without a timing tick, from the known peer or the first one.\<close>

lemma accept_plain:
  assumes "re_crypto env = None" and "re_crc env = sum_crc 0" and "re_expected_peer_ip env = None"
    and "seq < re_total_blocks env" and "re_total_blocks env < 2 ^ 64" and "length p < 2 ^ 16" and "length p \<le> re_block_size env"
    and "rs_peer st = None \<or> rs_peer st = Some a" and "set_and_test (rs_bm st) seq = Some (True, bm')"
  shows "\<exists>st'. accept_packet env now (plain_pkt (re_session env) seq p) (Some a) st = Some (Some (seq, p), st') \<and>
           rs_flushed st' = rs_flushed st \<and> rs_free st' = rs_free st \<and> rs_stage st' = rs_stage st \<and>
           rs_sink st' = rs_sink st \<and> rs_ready_bm st' = rs_ready_bm st \<and> rs_done st' = rs_done st \<and>
           rs_peer st' = Some a \<and> rs_bm st' = bm'"
proof -
  let ?pkt = "plain_pkt (re_session env) seq p"
  have len: "unat (of_nat (length p) :: u16) = length p" "unat (of_nat seq :: u64) = seq"
    using assms(4-6) by (simp_all add: unat_of_nat)
  have t: "pdu_type ?pkt = Some PDU_DATA"
    by (simp add: plain_pkt_def data_header_bytes_def pdu_type_def index_at_def)
  have d: "decode_data_header ?pkt = Some (Some \<lparr>dh_flags = 0, dh_payload_len = of_nat (length p), dh_session = re_session env,
     dh_block_seq = of_nat seq, dh_echo_tick = 0, dh_rex_index = -1, dh_payload_crc = sum_crc 0 p\<rparr>)"
    by (simp add: plain_pkt_def decode_data_header_bytes)
  have o: "open_payload env \<lparr>dh_flags = 0, dh_payload_len = of_nat (length p), dh_session = re_session env,
     dh_block_seq = of_nat seq, dh_echo_tick = 0, dh_rex_index = -1, dh_payload_crc = sum_crc 0 p\<rparr> ?pkt = Some (Some (Some p))"
    using open_payload_plain [OF assms(1)] len assms(2) by (simp add: plain_pkt_def)
  have l: "learn_peer env (Some a) st = (True, st\<lparr>rs_peer := Some a\<rparr>)"
    using assms(3,8) by (auto simp: learn_peer_def wrong_host_def split: option.splits)
  show ?thesis
    using assms(3,4,7,9) t d o l len
    by (simp add: accept_packet_def accept_data_def PDU_FIN_def PDU_DATA_def wrong_host_def claim_block_def Let_def)
qed

lemma sample_values:
  "re_crypto (sample_renv wr) = None" "re_crc (sample_renv wr) = sum_crc 0" "re_session (sample_renv wr) = 7"
  "re_block_size (sample_renv wr) = 2" "re_total_blocks (sample_renv wr) = 1" "re_expected_peer_ip (sample_renv wr) = None"
  "rs_peer sample_rst = None" "rs_flushed sample_rst = 0" "rs_free sample_rst > 0" "rs_stage sample_rst = Map.empty"
  "rs_sink sample_rst = sample_sink" "rs_bm sample_rst = recv_bitmap_new 1" "rs_ready_bm sample_rst = recv_bitmap_new 1"
  "\<not> rs_done sample_rst"
  by (simp_all add: sample_renv_def sample_rst_def sample_start)

lemma first_of_one: "set_and_test (recv_bitmap_new 1) 0 = Some (True, \<lparr>bm_words = [1], bm_total = 1\<rparr>)"
  by code_simp

lemma sample_run:
  "\<exists>s3 s. reaches file_write_all_at (sum_crc 0) copy_all sample_sink sample_recv 1 (take 3 sample_actions)
       (sample_renv file_write_all_at) s3 \<and> 0 \<in> bm_seqs (rs_ready_bm (sy_st s3)) \<and> rs_flushed (sy_st s3) = 0 \<and>
     reaches file_write_all_at (sum_crc 0) copy_all sample_sink sample_recv 1 sample_actions (sample_renv file_write_all_at) s \<and>
     rs_flushed (sy_st s) = 1 \<and> \<not> rs_done (sy_st s) \<and> rs_peer (sy_st s) = Some sample_peer"
proof -
  let ?env = "sample_renv file_write_all_at" and ?s0 = "system_start (sample_renv file_write_all_at) sample_rst 1"
  let ?one = "\<lparr>bm_words = [1], bm_total = 1\<rparr>"
  obtain st where st: "accept_packet ?env 0 sample_pkt (Some sample_peer) sample_rst = Some (Some (0, [9]), st)"
     "rs_flushed st = 0" "rs_free st > 0" "rs_ready_bm st = recv_bitmap_new 1" "\<not> rs_done st" "rs_peer st = Some sample_peer"
    using accept_plain [of ?env 0 "[9]" sample_rst sample_peer ?one 0] first_of_one by (auto simp: sample_values)
  let ?s1 = "?s0\<lparr>sy_st := st, sy_workers := [Claimed 0 [9]]\<rparr>"
  let ?st2 = "st\<lparr>rs_free := rs_free st - 1, rs_stage := (rs_stage st)(0 \<mapsto> [9])\<rparr>"
  let ?s2 = "?s1\<lparr>sy_st := ?st2, sy_workers := [Stored 0]\<rparr>"
  let ?st3 = "?st2\<lparr>rs_ready_bm := ?one\<rparr>"
  let ?s3 = "?s2\<lparr>sy_st := ?st3, sy_workers := [Idle]\<rparr>"
  let ?s4 = "?s3\<lparr>sy_st := flush_block ?env ?st3\<rparr>"
  have 1: "recv_step ?env (Rx 0 0 sample_pkt (Some sample_peer)) ?s0 ?s1"
    using step_Rx [of 0 ?s0 ?env 0 sample_pkt "Some sample_peer" "Some (0, [9])" st] st(1) by (simp add: system_start_def)
  have 2: "recv_step ?env (Store 0) ?s1 ?s2"
    using step_Store [of 0 ?s1 0 "[9]" ?env True ?st2] st(3) by (simp add: store_block_def)
  have 3: "recv_step ?env (Publish 0) ?s2 ?s3"
    using step_Publish [of 0 ?s2 0 ?st3 ?env] st(4) first_of_one by (simp add: publish_def)
  have one: "is_set ?one 0 = Some True" by code_simp
  then have 4: "recv_step ?env Flush ?s3 ?s4"
    using step_Flush [of ?env ?s3 "flush_block ?env ?st3"] st(2) by (simp add: flush_step_def sample_values)
  have "take 3 sample_actions = [Rx 0 0 sample_pkt (Some sample_peer), Store 0, Publish 0]" by (simp add: sample_actions_def)
  then have "recv_run ?env (take 3 sample_actions) ?s0 ?s3"
    by (simp only:) (intro run_Cons [OF 1] run_Cons [OF 2] run_Cons [OF 3] run_Nil)
  moreover have "recv_run ?env sample_actions ?s0 ?s4"
    unfolding sample_actions_def by (intro run_Cons [OF 1] run_Cons [OF 2] run_Cons [OF 3] run_Cons [OF 4] run_Nil)
  moreover have "rs_flushed (sy_st ?s4) = 1 \<and> \<not> rs_done (sy_st ?s4) \<and> rs_peer (sy_st ?s4) = Some sample_peer"
    using st(2,5,6) by (simp add: flush_block_def Let_def split: sum.splits)
  moreover have "0 \<in> bm_seqs ?one" using one is_set_eq [of 0 ?one] by (simp add: bm_cap_def)
  ultimately show ?thesis
    using sample_new st(2) unfolding reaches_def by (intro exI [of _ ?s3] exI [of _ ?s4]) auto
qed

lemma sample_genuine:
  "describes (sample_renv wr) [9]" "\<forall>a \<in> set sample_actions. genuine_action (sample_renv wr) [9] a"
proof -
  show "describes (sample_renv wr) [9]" by (simp add: describes_def num_blocks_def sample_values)
  have "genuine (sample_renv wr) [9] sample_pkt"
    by (simp add: genuine_def plain_pkt_def decode_data_header_bytes open_payload_plain block_of_def Let_def sample_values
        split: if_splits)
  then show "\<forall>a \<in> set sample_actions. genuine_action (sample_renv wr) [9] a" by (simp add: sample_actions_def)
qed

theorem receiver_reassembles_witness:
  "\<exists>s. reaches file_write_all_at (sum_crc 0) copy_all sample_sink sample_recv 1 sample_actions (sample_renv file_write_all_at) s \<and>
     rs_flushed (sy_st s) = 1 \<and> fsnk_file (rs_sink (sy_st s)) = [9]"
proof -
  obtain s where s: "reaches file_write_all_at (sum_crc 0) copy_all sample_sink sample_recv 1 sample_actions
      (sample_renv file_write_all_at) s" "rs_flushed (sy_st s) = 1"
    using sample_run by blast
  have "fsnk_file (rs_sink (sy_st s)) = [9]"
    by (intro receiver_reassembles [OF sample_recv_ok s(1)] sample_genuine) (simp_all add: sample_sink_def s(2) sample_values)
  then show ?thesis using s by blast
qed


end
