(* ===== verification/Receiver_Progress.thy ===== *)
theory Receiver_Progress
  imports Receiver_Data
begin

text \<open>
  What the receiver tells the sender (\<open>feedback_tells_the_truth\<close>), how it comes to its last block
  (\<open>flusher_reaches_the_last_block\<close>) and the one way in which it never does
  (\<open>failed_write_is_never_repaired\<close>): a direct write that fails.
\<close>

section \<open>Feedback\<close>

text \<open>Property C20: feedback tells the truth. In every reachable state a tick sends one datagram, to the
  peer the receiver has learned, of at most the configured number of requests; it decodes, every
  block it requests is a block of the file that has not arrived, everything below its contiguous
  mark has arrived, and it says done exactly when the sender has announced the end and every block
  has been flushed.\<close>

theorem feedback_tells_the_truth:
  assumes "config_ok dec c" and "reaches wr crc dec sink c n as env s"
    and "feedback_iter env now now2 now3 sent_ok (sy_fl s) (sy_st s) = Some (Some (pdu, a), fl', st')"
  shows "rs_peer (sy_st s) = Some a \<and>
    length pdu \<le> FEEDBACK_HEADER_SIZE + re_max_nacks_per_pdu env * NACK_ENTRY_SIZE \<and>
    (\<exists>h ns. decode_feedback pdu = Some (Some (h, ns)) \<and> fh_session h = re_session env \<and>
       (fh_done h \<longleftrightarrow> rs_all_sent (sy_st s) \<and> rs_flushed (sy_st s) = re_total_blocks env) \<and>
       {..<unat (fh_hi_contig h)} \<subseteq> bm_seqs (rs_bm (sy_st s)) \<and>
       (\<forall>e \<in> set ns. unat (ne_block_seq e) < re_total_blocks env \<and> unat (ne_block_seq e) \<notin> bm_seqs (rs_bm (sy_st s))))"
proof -
  have "rs_peer (sy_st s) = Some a \<and> feedback_sound env (sy_st s) pdu"
    using feedback_iter_ok [OF reaches_inv(1,2) [OF assms(1,2)], of now now2 now3 sent_ok] assms(3) by auto
  then show ?thesis unfolding feedback_sound_def by blast
qed

section \<open>The flusher\<close>

definition all_ready :: "'k recv_env \<Rightarrow> 'k system \<Rightarrow> bool" where
  "all_ready env s \<longleftrightarrow> {..<re_total_blocks env} \<subseteq> bm_seqs (rs_ready_bm (sy_st s))"

lemma flush_advances:
  assumes "ctl_inv env s" and "all_ready env s" and "rs_flushed (sy_st s) < re_total_blocks env"
  shows "\<exists>s'. recv_step env Flush s s' \<and> rs_flushed (sy_st s') = rs_flushed (sy_st s) + 1 \<and> all_ready env s'"
proof (cases rule: flush_step_cases [OF assms(1)])
  case 1
  then show ?thesis using assms(2,3) by (auto simp: all_ready_def)
next
  case 2
  obtain stage free sink where f: "flush_block env (sy_st s) = (sy_st s)\<lparr>rs_stage := stage, rs_free := free, rs_sink := sink,
      rs_flushed := rs_flushed (sy_st s) + 1\<rparr>"
    using flush_block_frame [of env "sy_st s"] by (elim exE)
  have "recv_step env Flush s (s\<lparr>sy_st := flush_block env (sy_st s)\<rparr>)" using step_Flush [OF 2(1)] .
  then show ?thesis using assms(2) by (intro exI [of _ "s\<lparr>sy_st := flush_block env (sy_st s)\<rparr>"]) (simp add: f all_ready_def)
qed

lemma flushes_drain:
  "ctl_inv env s \<Longrightarrow> env_ok env \<Longrightarrow> all_ready env s \<Longrightarrow> k = re_total_blocks env - rs_flushed (sy_st s) \<Longrightarrow>
     \<exists>s'. recv_run env (replicate k Flush) s s' \<and> rs_flushed (sy_st s') = re_total_blocks env"
proof (induction k arbitrary: s)
  case 0
  then have "rs_flushed (sy_st s) = re_total_blocks env" by (simp add: ctl_inv_def)
  then show ?case using run_Nil by fastforce
next
  case (Suc k)
  have "rs_flushed (sy_st s) < re_total_blocks env" using Suc.prems(4) by simp
  then obtain s' where s': "recv_step env Flush s s'" "rs_flushed (sy_st s') = rs_flushed (sy_st s) + 1" "all_ready env s'"
    using flush_advances [OF Suc.prems(1,3)] by blast
  have "k = re_total_blocks env - rs_flushed (sy_st s')" using s'(2) Suc.prems(4) by simp
  from Suc.IH [OF ctl_inv_step [OF s'(1) Suc.prems(1,2)] Suc.prems(2) s'(3) this]
  obtain s'' where "recv_run env (replicate k Flush) s' s''" "rs_flushed (sy_st s'') = re_total_blocks env" by blast
  then show ?case using run_Cons [OF s'(1)] by auto
qed

lemma recv_run_append: "recv_run env as s s' \<Longrightarrow> recv_run env bs s' s'' \<Longrightarrow> recv_run env (as @ bs) s s''"
  by (induction rule: recv_run.induct) (auto intro: run_Cons)

text \<open>Property C21: the flusher reaches the last block. From every reachable state in which all blocks have been
  published, the flusher alone finishes in as many turns as there are blocks left, whatever the
  sink's writes answer; and when the datagrams carried the file's blocks the file is then complete.\<close>

theorem flusher_reaches_the_last_block:
  assumes "config_ok dec c" and "reaches file_write_all_at crc dec sink c n as env s"
    and "all_ready env s" and "fsnk_len sink = length (fsnk_file sink)" and "length (fsnk_file sink) = length data"
    and "describes env data" and "\<forall>a \<in> set as. genuine_action env data a"
  shows "\<exists>s'. recv_run env (replicate (re_total_blocks env - rs_flushed (sy_st s)) Flush) s s' \<and>
           rs_flushed (sy_st s') = re_total_blocks env \<and> fsnk_file (rs_sink (sy_st s')) = data"
proof -
  let ?fs = "replicate (re_total_blocks env - rs_flushed (sy_st s)) Flush"
  obtain s' where s': "recv_run env ?fs s s'" "rs_flushed (sy_st s') = re_total_blocks env"
    using flushes_drain [OF reaches_inv(1,2) [OF assms(1,2)] assms(3) refl] by blast
  have reach: "reaches file_write_all_at crc dec sink c n (as @ ?fs) env s'"
    using assms(2) s'(1) recv_run_append unfolding reaches_def by blast
  have "data_ok fsnk_file (\<lambda>k. fsnk_len k = length (fsnk_file k)) env data s'"
    by (rule reaches_data [OF file_snk.block_sink_axioms assms(1) reach assms(4-6)]) (use assms(7) in auto)
  then have "fsnk_file (rs_sink (sy_st s')) = data"
    using data_ok_complete [OF _ reaches_inv(1) [OF assms(1) reach] assms(6) s'(2)] by blast
  then show ?thesis using s' by blast
qed

section \<open>A direct write that fails\<close>

definition lost :: "nat \<Rightarrow> 'k system \<Rightarrow> bool" where
  "lost seq s \<longleftrightarrow> seq \<in> bm_seqs (rs_bm (sy_st s)) \<and> seq \<notin> bm_seqs (rs_ready_bm (sy_st s)) \<and>
     (\<forall>x \<in> set (sy_workers s). held x \<noteq> Some seq)"

lemma lost_workers:
  "\<forall>x \<in> set ws. held x \<noteq> Some seq \<Longrightarrow> held y \<noteq> Some seq \<Longrightarrow> \<forall>x \<in> set (ws[w := y]). held x \<noteq> Some seq"
  using set_update_subset_insert [of ws w y] by auto

lemma lost_accept:
  assumes "lost seq s" and "accepted env pkt (sy_st s) blk st'"
  shows "lost seq (s\<lparr>sy_st := st', sy_workers := (sy_workers s)[w := (case blk of None \<Rightarrow> Idle | Some (q, p) \<Rightarrow> Claimed q p)]\<rparr>)"
proof -
  let ?x = "case blk of None \<Rightarrow> Idle | Some (q, p) \<Rightarrow> Claimed q p"
  have "held ?x \<noteq> Some seq"
    using assms by (auto simp: accepted_def fresh_block_def lost_def split: option.splits)
  moreover have "rs_ready_bm st' = rs_ready_bm (sy_st s)" "bm_seqs (rs_bm (sy_st s)) \<subseteq> bm_seqs (rs_bm st')"
    using assms(2) by (auto simp: accepted_def quiet_update_def split: option.splits)
  ultimately show ?thesis using assms(1) lost_workers [of "sy_workers s" seq ?x w] unfolding lost_def by auto
qed

lemma lost_step:
  assumes "recv_step env a s s'" and "lost seq s" and "ctl_inv env s" and "env_ok env"
  shows "lost seq s'"
  using assms(1)
proof (cases rule: recv_step.cases)
  case (step_Rx w now pkt addr blk st')
  then show ?thesis using ctl_inv_accept_packet [OF assms(3,4), of now pkt addr] lost_accept [OF assms(2)] by auto
next
  case (step_Store w q payload ok st')
  have "rs_bm st' = rs_bm (sy_st s)" "rs_ready_bm st' = rs_ready_bm (sy_st s)"
    using step_Store(5) by (auto simp: store_block_def split: if_splits sum.splits)
  moreover have "Claimed q payload \<in> set (sy_workers s)" using step_Store(3,4) nth_mem by metis
  then have "q \<noteq> seq" using assms(2) by (auto simp: lost_def)
  ultimately show ?thesis
    using assms(2) lost_workers [of "sy_workers s" seq "if ok then Stored q else Idle" w] unfolding step_Store lost_def by auto
next
  case (step_Publish w q st')
  obtain ready where r: "st' = (sy_st s)\<lparr>rs_ready_bm := ready\<rparr>" "bm_seqs ready = insert q (bm_seqs (rs_ready_bm (sy_st s)))"
    using ctl_inv_publish [OF assms(3) step_Publish(3,4)] step_Publish(5) by auto
  moreover have "Stored q \<in> set (sy_workers s)" using step_Publish(3,4) nth_mem by metis
  then have "q \<noteq> seq" using assms(2) by (auto simp: lost_def)
  ultimately show ?thesis using assms(2) lost_workers [of "sy_workers s" seq Idle w] unfolding step_Publish lost_def by auto
next
  case (step_Flush st')
  have "rs_bm (flush_block env (sy_st s)) = rs_bm (sy_st s)" "rs_ready_bm (flush_block env (sy_st s)) = rs_ready_bm (sy_st s)"
    using flush_block_frame [of env "sy_st s"] by auto
  then show ?thesis using step_Flush assms(2) by (cases rule: flush_step_cases [OF assms(3)]) (auto simp: lost_def)
next
  case (step_Tick now now2 now3 sent_ok out fl' st')
  then have "tick_frame env (sy_fl s) (sy_st s) fl' st'"
    using feedback_iter_ok [OF assms(3,4), of now now2 now3 sent_ok] by auto
  then show ?thesis using assms(2) unfolding step_Tick tick_frame_def lost_def by auto
qed

lemma lost_run:
  "recv_run env as s s' \<Longrightarrow> lost seq s \<Longrightarrow> ctl_inv env s \<Longrightarrow> env_ok env \<Longrightarrow> lost seq s'"
  by (induction rule: recv_run.induct) (use lost_step ctl_inv_step in blast)+

lemma lost_never_done:
  assumes "lost seq s" and "ctl_inv env s"
  shows "seq < re_total_blocks env \<and> rs_flushed (sy_st s) \<le> seq \<and> \<not> rs_done (sy_st s)"
proof -
  have "bm_seqs (rs_bm (sy_st s)) \<subseteq> {..<re_total_blocks env}" "{..<rs_flushed (sy_st s)} \<subseteq> bm_seqs (rs_ready_bm (sy_st s))"
      "rs_done (sy_st s) \<longrightarrow> rs_flushed (sy_st s) = re_total_blocks env"
    using assms(2) by (simp_all add: ctl_inv_def)
  moreover from this have "seq < re_total_blocks env" "rs_flushed (sy_st s) \<le> seq"
    using assms(1) unfolding lost_def by (auto simp: not_less [symmetric])
  ultimately show ?thesis by auto
qed

text \<open>The state after the failed write, and the last tick of a stopped receiver.\<close>

lemma failed_store_lost:
  assumes "ctl_inv env s" and "w < length (sy_workers s)" and "sy_workers s ! w = Claimed seq p"
    and "rs_free (sy_st s) = 0" and "re_write env (rs_sink (sy_st s)) (seq * re_block_size env) p = Inl e"
    and "recv_step env (Store w) s s1"
  shows "lost seq s1"
proof -
  have s1: "s1 = s\<lparr>sy_workers := (sy_workers s)[w := Idle]\<rparr>"
    using assms(6) assms(3-5) by (cases rule: recv_step_StoreE) (auto simp: store_block_def)
  have claims: "claims_ok (bm_seqs (rs_bm (sy_st s))) (bm_seqs (rs_ready_bm (sy_st s))) (sy_workers s)"
    using assms(1) by (simp add: ctl_inv_def)
  have "held ((sy_workers s)[w := Idle] ! v) \<noteq> Some seq" if "v < length (sy_workers s)" for v
    using claims assms(2,3) that by (cases "v = w") (auto simp: claims_ok_def update_nth)
  then have "\<forall>x \<in> set ((sy_workers s)[w := Idle]). held x \<noteq> Some seq" by (auto simp: in_set_conv_nth)
  then show ?thesis using claims assms(2,3) by (auto simp: s1 lost_def claims_ok_def)
qed

lemma tick_reports_prefix:
  assumes "ctl_inv env s" and "env_ok env" and "recv_step env (Tick now now2 now3 sent_ok) s s'"
    and "{..<re_total_blocks env} \<subseteq> bm_seqs (rs_bm (sy_st s))"
  shows "recv_result env (sy_st s') = Inr ()"
proof -
  obtain out fl' st' where t: "feedback_iter env now now2 now3 sent_ok (sy_fl s) (sy_st s) = Some (out, fl', st')"
      "s' = s\<lparr>sy_st := st', sy_fl := fl'\<rparr>"
    using assms(3) by (cases rule: recv_step_TickE) auto
  then have "tick_frame env (sy_fl s) (sy_st s) fl' st'"
    using feedback_iter_ok [OF assms(1,2), of now now2 now3 sent_ok] by auto
  then have "contiguous (rs_bm (sy_st s)) (re_total_blocks env) (st_hi_contig (rs_stats st'))"
    unfolding tick_frame_def by auto
  then have "st_hi_contig (rs_stats st') = re_total_blocks env"
    using assms(4) unfolding contiguous_def by (metis lessThan_iff le_neq_implies_less subsetD)
  then show ?thesis by (simp add: recv_result_def t(2))
qed

text \<open>Property C24: a direct write that fails is never repaired. When the staging pool is exhausted and the sink
  refuses a block, that block is not stored, in no later state is it published or the transfer
  done, the frontier stays at or below it, and no feedback asks for it again. Once the other blocks
  have arrived and a tick has passed, stopping the receiver makes it report success.\<close>

theorem failed_write_is_never_repaired:
  assumes "config_ok dec c" and "reaches wr crc dec sink c n as env s"
    and "w < length (sy_workers s)" and "sy_workers s ! w = Claimed seq p"
    and "rs_free (sy_st s) = 0" and "wr (rs_sink (sy_st s)) (seq * re_block_size env) p = Inl e"
    and "recv_step env (Store w) s s1" and "recv_run env bs s1 s2"
  shows "seq \<notin> bm_seqs (rs_ready_bm (sy_st s2)) \<and> rs_flushed (sy_st s2) \<le> seq \<and> \<not> rs_done (sy_st s2) \<and>
    (\<forall>now now2 now3 sent_ok pdu a fl' st' h ns.
       feedback_iter env now now2 now3 sent_ok (sy_fl s2) (sy_st s2) = Some (Some (pdu, a), fl', st') \<longrightarrow>
       decode_feedback pdu = Some (Some (h, ns)) \<longrightarrow> (\<forall>x \<in> set ns. unat (ne_block_seq x) \<noteq> seq)) \<and>
    (\<forall>now now2 now3 sent_ok s3. {..<re_total_blocks env} \<subseteq> bm_seqs (rs_bm (sy_st s2)) \<longrightarrow>
       recv_step env (Tick now now2 now3 sent_ok) s2 s3 \<longrightarrow> recv_result env (sy_st s3) = Inr ())"
proof -
  note inv = reaches_inv [OF assms(1,2)]
  have inv1: "ctl_inv env s1" using ctl_inv_step [OF assms(7) inv(1,2)] .
  have lost1: "lost seq s1" using failed_store_lost [OF inv(1) assms(3-5) _ assms(7)] assms(6) inv(5) by simp
  have inv2: "ctl_inv env s2" using ctl_inv_run [OF assms(8) inv1 inv(2)] .
  have lost2: "lost seq s2" using lost_run [OF assms(8) lost1 inv1 inv(2)] .
  have "\<forall>x \<in> set ns. unat (ne_block_seq x) \<noteq> seq"
    if "feedback_iter env now now2 now3 sent_ok (sy_fl s2) (sy_st s2) = Some (Some (pdu, a), fl', st')"
      "decode_feedback pdu = Some (Some (h, ns))" for now now2 now3 sent_ok pdu a fl' st' h ns
  proof -
    have "feedback_sound env (sy_st s2) pdu"
      using feedback_iter_ok [OF inv2 inv(2), of now now2 now3 sent_ok] that(1) by auto
    then show ?thesis using that(2) lost2 unfolding feedback_sound_def lost_def by auto
  qed
  then show ?thesis
    using lost2 lost_never_done [OF lost2 inv2] tick_reports_prefix [OF inv2 inv(2)] unfolding lost_def by blast
qed

section \<open>A worker's actions are \<open>handle_packet\<close>\<close>

text \<open>The actions of a worker, taken one after the other, are \<open>handle_packet\<close>: from every
  reachable state with an idle worker \<open>handle_packet\<close> returns a state, and the worker reaches that
  state by receiving the datagram and, when its block is new, storing and publishing it.\<close>

theorem worker_runs_handle_packet:
  assumes "config_ok dec c" and "reaches wr crc dec sink c n as env s"
    and "w < length (sy_workers s)" and "sy_workers s ! w = Idle"
  shows "\<exists>st'. handle_packet env now pkt addr (sy_st s) = Some st' \<and>
           (\<exists>bs \<in> {[Rx w now pkt addr], [Rx w now pkt addr, Store w], [Rx w now pkt addr, Store w, Publish w]}.
              recv_run env bs s (s\<lparr>sy_st := st'\<rparr>))"
proof -
  note inv = reaches_inv(1,2) [OF assms(1,2)]
  obtain blk st1 where a: "accept_packet env now pkt addr (sy_st s) = Some (blk, st1)" "accepted env pkt (sy_st s) blk st1"
    using ctl_inv_accept_packet [OF inv] by blast
  have idle: "(sy_workers s)[w := Idle] = sy_workers s" using assms(4) list_update_id [of "sy_workers s" w] by simp
  let ?s1 = "s\<lparr>sy_st := st1, sy_workers := (sy_workers s)[w := (case blk of None \<Rightarrow> Idle | Some (seq, p) \<Rightarrow> Claimed seq p)]\<rparr>"
  have 1: "recv_step env (Rx w now pkt addr) s ?s1" using step_Rx [OF assms(3,4) a(1)] .
  have inv1: "ctl_inv env ?s1" using ctl_inv_step [OF 1 inv] .
  show ?thesis
  proof (cases blk)
    case None
    then have "handle_packet env now pkt addr (sy_st s) = Some st1" "?s1 = s\<lparr>sy_st := st1\<rparr>"
      using a(1) idle by (simp_all add: handle_packet_def)
    then show ?thesis using run_Cons [OF 1 run_Nil] by (intro exI [of _ st1]) simp
  next
    case (Some b)
    obtain seq p where b: "b = (seq, p)" by (cases b)
    obtain ok st2 where st2: "store_block env seq p st1 = (ok, st2)" by (cases "store_block env seq p st1")
    let ?s2 = "?s1\<lparr>sy_st := st2, sy_workers := (sy_workers ?s1)[w := if ok then Stored seq else Idle]\<rparr>"
    have 2: "recv_step env (Store w) ?s1 ?s2"
      using step_Store [of w ?s1 seq p env ok st2] assms(3) Some b st2 by simp
    show ?thesis
    proof (cases ok)
      case False
      then have "handle_packet env now pkt addr (sy_st s) = Some st2" "?s2 = s\<lparr>sy_st := st2\<rparr>"
        using a(1) idle Some b st2 by (simp_all add: handle_packet_def)
      then show ?thesis using run_Cons [OF 1 run_Cons [OF 2 run_Nil]] by (intro exI [of _ st2]) simp
    next
      case True
      have inv2: "ctl_inv env ?s2" using ctl_inv_step [OF 2 inv1 inv(2)] .
      have w2: "w < length (sy_workers ?s2)" "sy_workers ?s2 ! w = Stored seq" using True assms(3) by simp_all
      obtain st3 where st3: "publish seq (sy_st ?s2) = Some st3" using ctl_inv_publish [OF inv2 w2] by blast
      have 3: "recv_step env (Publish w) ?s2 (?s2\<lparr>sy_st := st3, sy_workers := (sy_workers ?s2)[w := Idle]\<rparr>)"
        using step_Publish [OF w2 st3] .
      have "handle_packet env now pkt addr (sy_st s) = Some st3"
          "?s2\<lparr>sy_st := st3, sy_workers := (sy_workers ?s2)[w := Idle]\<rparr> = s\<lparr>sy_st := st3\<rparr>"
        using a(1) idle Some b st2 st3 True by (simp_all add: handle_packet_def)
      then show ?thesis using run_Cons [OF 1 run_Cons [OF 2 run_Cons [OF 3 run_Nil]]] by (intro exI [of _ st3]) simp
    qed
  qed
qed

section \<open>Witnesses\<close>

theorem worker_runs_handle_packet_witness:
  "\<exists>st. handle_packet (sample_renv file_write_all_at) 0 sample_pkt (Some sample_peer) sample_rst = Some st"
proof -
  have "reaches file_write_all_at (sum_crc 0) copy_all sample_sink sample_recv 1 [] (sample_renv file_write_all_at)
      (system_start (sample_renv file_write_all_at) sample_rst 1)"
    using sample_new run_Nil unfolding reaches_def by blast
  from worker_runs_handle_packet [OF sample_recv_ok this, of 0 0 sample_pkt "Some sample_peer"]
  show ?thesis by (auto simp: system_start_def)
qed

theorem feedback_tells_the_truth_witness:
  "\<exists>s pdu fl' st'. reaches file_write_all_at (sum_crc 0) copy_all sample_sink sample_recv 1 sample_actions
       (sample_renv file_write_all_at) s \<and>
     feedback_iter (sample_renv file_write_all_at) 5 5 5 True (sy_fl s) (sy_st s) = Some (Some (pdu, sample_peer), fl', st') \<and>
     length pdu \<le> FEEDBACK_HEADER_SIZE + re_max_nacks_per_pdu (sample_renv file_write_all_at) * NACK_ENTRY_SIZE"
proof -
  let ?env = "sample_renv file_write_all_at"
  obtain s where s: "reaches file_write_all_at (sum_crc 0) copy_all sample_sink sample_recv 1 sample_actions ?env s"
      "rs_peer (sy_st s) = Some sample_peer"
    using sample_run by blast
  obtain out fl' st' where o: "feedback_iter ?env 5 5 5 True (sy_fl s) (sy_st s) = Some (out, fl', st')"
      "case out of None \<Rightarrow> rs_peer (sy_st s) = None
       | Some (pdu, a) \<Rightarrow> rs_peer (sy_st s) = Some a \<and> feedback_sound ?env (sy_st s) pdu"
    using feedback_iter_ok [OF reaches_inv(1,2) [OF sample_recv_ok s(1)], of 5 5 5 True] by (elim exE conjE)
  then obtain pdu where "out = Some (pdu, sample_peer)" using s(2) by (auto split: option.splits)
  then show ?thesis using feedback_tells_the_truth [OF sample_recv_ok s(1), of 5 5 5 True pdu sample_peer fl' st'] o(1) s(1) by blast
qed

theorem flusher_reaches_the_last_block_witness:
  "\<exists>s s'. reaches file_write_all_at (sum_crc 0) copy_all sample_sink sample_recv 1 (take 3 sample_actions)
       (sample_renv file_write_all_at) s \<and>
     recv_run (sample_renv file_write_all_at) (replicate (re_total_blocks (sample_renv file_write_all_at) - rs_flushed (sy_st s)) Flush)
       s s' \<and> fsnk_file (rs_sink (sy_st s')) = [9]"
proof -
  obtain s where s: "reaches file_write_all_at (sum_crc 0) copy_all sample_sink sample_recv 1 (take 3 sample_actions)
      (sample_renv file_write_all_at) s" "0 \<in> bm_seqs (rs_ready_bm (sy_st s))"
    using sample_run by blast
  have "all_ready (sample_renv file_write_all_at) s" using s(2) by (simp add: all_ready_def sample_values lessThan_Suc)
  moreover have "\<forall>a \<in> set (take 3 sample_actions). genuine_action (sample_renv file_write_all_at) [9] a"
    using sample_genuine(2) in_set_takeD by fast
  ultimately show ?thesis
    using flusher_reaches_the_last_block [OF sample_recv_ok s(1) _ _ _ sample_genuine(1)] s(1) by (fastforce simp: sample_sink_def)
qed

text \<open>Two blocks, so large that the staging pool holds one, and a sink that refuses every write.\<close>

definition refuse :: "file_sink \<Rightarrow> nat \<Rightarrow> byte list \<Rightarrow> file_sink io" where
  "refuse k off b = Inl OtherIO"

definition big_recv :: recv_config where
  "big_recv = sample_recv\<lparr>rv_file_size := 2 ^ 27 + 1, rv_block_size := 2 ^ 27, rv_total_blocks := 2\<rparr>"

definition big_env :: "file_sink recv_env" where
  "big_env = fst (the (new_receiver 1 refuse (sum_crc 0) copy_all sample_sink big_recv))"

definition big_st :: "file_sink recv_state" where
  "big_st = snd (the (new_receiver 1 refuse (sum_crc 0) copy_all sample_sink big_recv))"

lemma big_new: "new_receiver 1 refuse (sum_crc 0) copy_all sample_sink big_recv = Some (big_env, big_st)"
  by (simp add: big_env_def big_st_def big_recv_def sample_start)

lemma big_values:
  "re_crypto big_env = None" "re_crc big_env = sum_crc 0" "re_session big_env = 7" "re_block_size big_env = 2 ^ 27"
  "re_total_blocks big_env = 2" "re_expected_peer_ip big_env = None" "re_write big_env = refuse"
  "rs_peer big_st = None" "rs_free big_st = 1" "rs_bm big_st = recv_bitmap_new 2" "rs_ready_bm big_st = recv_bitmap_new 2"
  by (simp_all add: big_env_def big_st_def big_recv_def sample_start)

lemma big_ok: "config_ok copy_all big_recv"
  using sample_recv_ok by (simp add: config_ok_def big_recv_def sample_recv_def)

definition big_actions :: "action list" where
  "big_actions = [Rx 0 0 (plain_pkt 7 1 [9]) (Some sample_peer), Store 0, Publish 0, Rx 0 0 (plain_pkt 7 0 [8]) (Some sample_peer)]"

lemma two_blocks:
  "set_and_test (recv_bitmap_new 2) 1 = Some (True, \<lparr>bm_words = [2], bm_total = 2\<rparr>)"
  "set_and_test \<lparr>bm_words = [2], bm_total = 2\<rparr> 0 = Some (True, \<lparr>bm_words = [3], bm_total = 2\<rparr>)"
  by code_simp+

lemma big_run:
  "\<exists>s s1. reaches refuse (sum_crc 0) copy_all sample_sink big_recv 1 big_actions big_env s \<and> sy_workers s = [Claimed 0 [8]] \<and>
     rs_free (sy_st s) = 0 \<and> recv_step big_env (Store 0) s s1"
proof -
  let ?s0 = "system_start big_env big_st 1"
  obtain st where st: "accept_packet big_env 0 (plain_pkt 7 1 [9]) (Some sample_peer) big_st = Some (Some (1, [9]), st)"
      "rs_free st = 1" "rs_ready_bm st = recv_bitmap_new 2" "rs_peer st = Some sample_peer" "rs_bm st = \<lparr>bm_words = [2], bm_total = 2\<rparr>"
    using accept_plain [of big_env 1 "[9]" big_st sample_peer "\<lparr>bm_words = [2], bm_total = 2\<rparr>" 0] two_blocks(1)
    by (auto simp: big_values)
  let ?s1 = "?s0\<lparr>sy_st := st, sy_workers := [Claimed 1 [9]]\<rparr>"
  let ?st2 = "st\<lparr>rs_free := 0, rs_stage := (rs_stage st)(1 \<mapsto> [9])\<rparr>"
  let ?s2 = "?s1\<lparr>sy_st := ?st2, sy_workers := [Stored 1]\<rparr>"
  let ?st3 = "?st2\<lparr>rs_ready_bm := \<lparr>bm_words = [2], bm_total = 2\<rparr>\<rparr>"
  let ?s3 = "?s2\<lparr>sy_st := ?st3, sy_workers := [Idle]\<rparr>"
  obtain st4 where st4: "accept_packet big_env 0 (plain_pkt 7 0 [8]) (Some sample_peer) ?st3 = Some (Some (0, [8]), st4)" "rs_free st4 = 0"
    using accept_plain [of big_env 0 "[8]" ?st3 sample_peer "\<lparr>bm_words = [3], bm_total = 2\<rparr>" 0] two_blocks(2) st(4,5)
    by (auto simp: big_values)
  let ?s4 = "?s3\<lparr>sy_st := st4, sy_workers := [Claimed 0 [8]]\<rparr>"
  have 1: "recv_step big_env (Rx 0 0 (plain_pkt 7 1 [9]) (Some sample_peer)) ?s0 ?s1"
    using step_Rx [of 0 ?s0 big_env 0 "plain_pkt 7 1 [9]" "Some sample_peer" "Some (1, [9])" st] st(1) by (simp add: system_start_def)
  have 2: "recv_step big_env (Store 0) ?s1 ?s2"
    using step_Store [of 0 ?s1 1 "[9]" big_env True ?st2] st(2) by (simp add: store_block_def)
  have 3: "recv_step big_env (Publish 0) ?s2 ?s3"
    using step_Publish [of 0 ?s2 1 ?st3 big_env] st(3) two_blocks(1) by (simp add: publish_def)
  have 4: "recv_step big_env (Rx 0 0 (plain_pkt 7 0 [8]) (Some sample_peer)) ?s3 ?s4"
    using step_Rx [of 0 ?s3 big_env 0 "plain_pkt 7 0 [8]" "Some sample_peer" "Some (0, [8])" st4] st4(1) by simp
  have 5: "recv_step big_env (Store 0) ?s4 (?s4\<lparr>sy_workers := [Idle]\<rparr>)"
    using step_Store [of 0 ?s4 0 "[8]" big_env False st4] st4(2) by (simp add: store_block_def big_values refuse_def)
  have "recv_run big_env big_actions ?s0 ?s4"
    unfolding big_actions_def by (intro run_Cons [OF 1] run_Cons [OF 2] run_Cons [OF 3] run_Cons [OF 4] run_Nil)
  then show ?thesis using 5 big_new st4(2) unfolding reaches_def by (intro exI [of _ ?s4] exI [of _ "?s4\<lparr>sy_workers := [Idle]\<rparr>"]) auto
qed

theorem failed_write_is_never_repaired_witness:
  "\<exists>s s1. reaches refuse (sum_crc 0) copy_all sample_sink big_recv 1 big_actions big_env s \<and>
     recv_step big_env (Store 0) s s1 \<and> 0 \<notin> bm_seqs (rs_ready_bm (sy_st s1)) \<and> \<not> rs_done (sy_st s1)"
proof -
  obtain s s1 where s: "reaches refuse (sum_crc 0) copy_all sample_sink big_recv 1 big_actions big_env s"
      "sy_workers s = [Claimed 0 [8]]" "rs_free (sy_st s) = 0" "recv_step big_env (Store 0) s s1"
    using big_run by blast
  from failed_write_is_never_repaired [OF big_ok s(1) _ _ s(3) _ s(4) run_Nil, of 0 "[8]" OtherIO] s
  show ?thesis by (auto simp: refuse_def)
qed

end
