(* ===== verification/Receiver_Exec.thy ===== *)
theory Receiver_Exec
  imports Receiver_Data
begin

text \<open>
  Runs of the receiver as a function: \<open>recv_do\<close> takes one action and skips it when its thread is
  not due, \<open>recv_exec\<close> takes a sequence, \<open>run_receiver\<close> is \<open>Receiver_::run\<close> over the sequence of
  actions its threads take until they are joined.
\<close>

datatype 'a outcome = Panicked | Running | Returned "'a io"

fun recv_do :: "'k recv_env \<Rightarrow> action \<Rightarrow> 'k system \<Rightarrow> 'k system may_panic" where
  "recv_do env (Rx w now pkt addr) s =
     (if w < length (sy_workers s) \<and> sy_workers s ! w = Idle then do {
        (blk, st) \<leftarrow> accept_packet env now pkt addr (sy_st s);
        Some (s\<lparr>sy_st := st, sy_workers := (sy_workers s)[w := (case blk of None \<Rightarrow> Idle | Some (seq, p) \<Rightarrow> Claimed seq p)]\<rparr>)
      } else Some s)"
| "recv_do env (Store w) s =
     (if w < length (sy_workers s) then
        case sy_workers s ! w of
          Claimed seq p \<Rightarrow>
            (case store_block env seq p (sy_st s) of
               (ok, st) \<Rightarrow> Some (s\<lparr>sy_st := st, sy_workers := (sy_workers s)[w := if ok then Stored seq else Idle]\<rparr>))
        | _ \<Rightarrow> Some s
      else Some s)"
| "recv_do env (Publish w) s =
     (if w < length (sy_workers s) then
        case sy_workers s ! w of
          Stored seq \<Rightarrow> do {
            st \<leftarrow> publish seq (sy_st s);
            Some (s\<lparr>sy_st := st, sy_workers := (sy_workers s)[w := Idle]\<rparr>)
          }
        | _ \<Rightarrow> Some s
      else Some s)"
| "recv_do env Flush s = do { st \<leftarrow> flush_step env (sy_st s); Some (s\<lparr>sy_st := st\<rparr>) }"
| "recv_do env (Tick now now2 now3 sent_ok) s =
     (if rs_done (sy_st s) then Some s
      else do {
        (out, fl, st) \<leftarrow> feedback_iter env now now2 now3 sent_ok (sy_fl s) (sy_st s);
        Some (s\<lparr>sy_st := st, sy_fl := fl\<rparr>)
      })"

fun recv_exec :: "'k recv_env \<Rightarrow> action list \<Rightarrow> 'k system \<Rightarrow> 'k system may_panic" where
  "recv_exec env [] s = Some s"
| "recv_exec env (a # as) s = do { s' \<leftarrow> recv_do env a s; recv_exec env as s' }"

definition run_receiver :: "'k recv_env \<Rightarrow> nat \<Rightarrow> bool \<Rightarrow> action list \<Rightarrow> 'k recv_state \<Rightarrow> unit outcome \<times> 'k recv_state" where
  "run_receiver env n stop as st =
     (case recv_exec env as (system_start env st n) of
        None \<Rightarrow> (Panicked, st)
      | Some s \<Rightarrow>
          (if rs_done (sy_st s) \<or> should_stop stop (rs_control (sy_st s)) then Returned (recv_result env (sy_st s)) else Running,
           sy_st s))"

text \<open>An action that is due is a step; one that is not changes nothing.\<close>

lemma recv_do_enabled:
  "enabled a s \<Longrightarrow> recv_do env a s = Some s' \<longleftrightarrow> recv_step env a s s'"
  by (cases a; auto elim!: recv_step_RxE recv_step_StoreE recv_step_PublishE recv_step_FlushE recv_step_TickE
      simp: bind_eq_Some_conv intro: recv_step.intros split: prod.splits)

lemma recv_do_skips:
  "\<not> enabled a s \<Longrightarrow> recv_do env a s = Some s"
  by (cases a) (auto split: worker.split)

lemma recv_exec_runs:
  "recv_exec env as s = Some s' \<Longrightarrow> \<exists>bs. set bs \<subseteq> set as \<and> recv_run env bs s s'"
proof (induction as arbitrary: s)
  case Nil
  then show ?case using run_Nil by (metis option.inject recv_exec.simps(1) subset_refl)
next
  case (Cons a as)
  obtain s1 where s1: "recv_do env a s = Some s1" "recv_exec env as s1 = Some s'"
    using Cons.prems by (auto simp: bind_eq_Some_conv)
  obtain bs where bs: "set bs \<subseteq> set as" "recv_run env bs s1 s'" using Cons.IH [OF s1(2)] by blast
  show ?case
  proof (cases "enabled a s")
    case True
    then have "recv_run env (a # bs) s s'" using run_Cons recv_do_enabled s1(1) bs(2) by metis
    then show ?thesis using bs(1) by (intro exI [of _ "a # bs"]) auto
  next
    case False
    then show ?thesis using recv_do_skips [OF False, of env] s1(1) bs by auto
  qed
qed

lemma recv_exec_total:
  "ctl_inv env s \<Longrightarrow> env_ok env \<Longrightarrow> \<exists>s'. recv_exec env as s = Some s'"
proof (induction as arbitrary: s)
  case (Cons a as)
  obtain s1 where s1: "recv_do env a s = Some s1" "ctl_inv env s1"
  proof (cases "enabled a s")
    case True
    then obtain s1 where "recv_step env a s s1" using enabled_steps Cons.prems by blast
    then show thesis using that recv_do_enabled [OF True] ctl_inv_step Cons.prems by metis
  next
    case False
    then show thesis using that recv_do_skips Cons.prems by metis
  qed
  then show ?case using Cons.IH [OF s1(2) Cons.prems(2)] by simp
qed simp

text \<open>\<open>run_receiver\<close> on the state of \<open>new_receiver\<close>.\<close>

lemma run_receiver_reaches:
  assumes "new_receiver n wr crc dec sink c = Some (env, st)" and "run_receiver env n stop as st = (res, st')" and "res \<noteq> Panicked"
  shows "\<exists>bs s. set bs \<subseteq> set as \<and> reaches wr crc dec sink c n bs env s \<and> st' = sy_st s"
proof -
  obtain s where s: "recv_exec env as (system_start env st n) = Some s" "st' = sy_st s"
    using assms(2,3) by (auto simp: run_receiver_def split: option.splits)
  then show ?thesis using recv_exec_runs [OF s(1)] assms(1) unfolding reaches_def by blast
qed

lemma run_receiver_no_panic:
  assumes "config_ok dec c" and "new_receiver n wr crc dec sink c = Some (env, st)"
  shows "fst (run_receiver env n stop as st) \<noteq> Panicked"
proof -
  have "reaches wr crc dec sink c n [] env (system_start env st n)" using assms(2) run_Nil unfolding reaches_def by blast
  from recv_exec_total [OF reaches_inv(1,2) [OF assms(1) this]] obtain s where
    "recv_exec env as (system_start env st n) = Some s" by blast
  then show ?thesis by (simp add: run_receiver_def)
qed

end
