(* ===== verification/Receiver_Sink.thy ===== *)
theory Receiver_Sink
  imports Receiver_Exec
begin

text \<open>
  The receiver changes its sink only by writing to it: what every write keeps of a sink, a run of
  the receiver keeps, whatever datagrams it is given. Nor does it touch the control of its caller.
\<close>

abbreviation kept :: "'k recv_state \<Rightarrow> 'k \<times> transfer_control option" where
  "kept st \<equiv> (rs_sink st, rs_control st)"

lemma apply_tick_sink: "apply_tick now h st = Some st' \<Longrightarrow> kept st' = kept st"
  by (auto simp: apply_tick_def Let_def bind_eq_Some_conv split: if_splits)

lemma claim_block_sink: "claim_block now h p st = Some (blk, st') \<Longrightarrow> kept st' = kept st"
  by (auto simp: claim_block_def Let_def bind_eq_Some_conv dest!: apply_tick_sink split: if_splits)

lemma learn_peer_sink: "learn_peer env addr st = (ok, st') \<Longrightarrow> kept st' = kept st"
  using learn_peer_frame [of env addr st ok st'] by auto

lemma accept_data_sink:
  assumes "accept_data env now pkt addr st = Some (blk, st')"
  shows "kept st' = kept st"
proof -
  obtain d where d: "decode_data_header pkt = Some d"
    and body: "(case d of None \<Rightarrow> Some (None, st) | Some h \<Rightarrow>
        if dh_session h \<noteq> re_session env then Some (None, st)
        else if unat (dh_block_seq h) \<ge> re_total_blocks env then Some (None, st)
        else if unat (dh_payload_len h) > re_block_size env then Some (None, st)
        else if (case addr of Some a \<Rightarrow> wrong_host (re_expected_peer_ip env) a | None \<Rightarrow> False) then Some (None, st)
        else do {
          r \<leftarrow> open_payload env h pkt;
          (case r of None \<Rightarrow> Some (None, st) | Some None \<Rightarrow> Some (None, bump_corrupt st)
           | Some (Some payload) \<Rightarrow>
               (case learn_peer env addr st of (False, st) \<Rightarrow> Some (None, st) | (True, st) \<Rightarrow> claim_block now h payload st))
        }) = Some (blk, st')"
    using assms by (auto simp: accept_data_def bind_eq_Some_conv)
  obtain ok st1 where l: "learn_peer env addr st = (ok, st1)" by fastforce
  show ?thesis
  proof (cases "st' = st \<or> st' = bump_corrupt st")
    case False
    then obtain h payload where "(if ok then claim_block now h payload st1 else Some (None, st1)) = Some (blk, st')"
      using body l by (cases d; cases ok) (auto simp: bind_eq_Some_conv split: option.splits if_splits, metis+)
    then show ?thesis using learn_peer_sink [OF l] claim_block_sink [of now h payload st1 blk st'] by (auto split: if_splits)
  qed (auto simp: bump_corrupt_def)
qed

lemma accept_packet_sink:
  assumes "accept_packet env now pkt addr st = Some (blk, st')"
  shows "kept st' = kept st"
proof -
  obtain ok st1 where l: "learn_peer env addr st = (ok, st1)" by fastforce
  have "st' = st \<or> st' = st1 \<or> st' = st1\<lparr>rs_all_sent := True\<rparr> \<or> accept_data env now pkt addr st = Some (blk, st')"
    using assms l by (cases ok) (auto simp: accept_packet_def bind_eq_Some_conv split: option.splits if_splits prod.splits)
  then show ?thesis using learn_peer_sink [OF l] accept_data_sink [of env now pkt addr st blk st'] by auto
qed

lemma feedback_scan_sink:
  "feedback_scan env now fl st = Some (rto, target, hi, fin, fl', st') \<Longrightarrow> kept st' = kept st"
  by (clarsimp simp: feedback_scan_def Let_def bind_eq_Some_conv split del: if_split)

lemma feedback_iter_sink:
  assumes "feedback_iter env now now2 now3 sent_ok fl st = Some (out, fl', st')"
  shows "kept st' = kept st"
proof -
  obtain rto target hi fin fl1 st1 where sc: "feedback_scan env now fl st = Some (rto, target, hi, fin, fl1, st1)"
    using assms unfolding feedback_iter_def by (cases "feedback_scan env now fl st") auto
  show ?thesis
  proof (cases "rs_peer st1")
    case None
    then show ?thesis using assms feedback_scan_sink [OF sc] by (simp add: feedback_iter_def sc)
  next
    case (Some peer)
    then obtain st2 where "st' = (if fin \<and> fl_done_sends fl' \<ge> 8 then st2\<lparr>rs_done := True\<rparr> else st2)" "kept st2 = kept st1"
      using assms by (auto simp: feedback_iter_def sc Let_def bind_eq_Some_conv)
    then show ?thesis using feedback_scan_sink [OF sc] by simp
  qed
qed

lemma recv_do_sink:
  assumes "\<And>k off b k'. P k \<Longrightarrow> re_write env k off b = Inr k' \<Longrightarrow> P k'" and "recv_do env a s = Some s'"
    and "P (rs_sink (sy_st s))"
  shows "P (rs_sink (sy_st s')) \<and> rs_control (sy_st s') = rs_control (sy_st s)"
proof (cases a)
  case (Rx w now pkt addr)
  then show ?thesis using assms(2,3) by (auto simp: bind_eq_Some_conv dest: accept_packet_sink split: if_splits)
next
  case (Store w)
  then show ?thesis using assms by (auto simp: store_block_def split: if_splits worker.splits sum.splits)
next
  case (Publish w)
  then show ?thesis using assms(2,3) by (auto simp: publish_def bind_eq_Some_conv split: if_splits worker.splits)
next
  case Flush
  then show ?thesis
    using assms by (auto simp: flush_step_def flush_block_def Let_def bind_eq_Some_conv split: if_splits option.splits sum.splits)
next
  case (Tick now now2 now3 sent_ok)
  then show ?thesis using assms(2,3) by (auto simp: bind_eq_Some_conv dest: feedback_iter_sink split: if_splits)
qed

lemma recv_exec_sink:
  assumes "\<And>k off b k'. P k \<Longrightarrow> re_write env k off b = Inr k' \<Longrightarrow> P k'"
  shows "recv_exec env as s = Some s' \<Longrightarrow> P (rs_sink (sy_st s)) \<Longrightarrow>
           P (rs_sink (sy_st s')) \<and> rs_control (sy_st s') = rs_control (sy_st s)"
proof (induction as arbitrary: s)
  case (Cons a as)
  obtain s1 where s1: "recv_do env a s = Some s1" "recv_exec env as s1 = Some s'"
    using Cons.prems(1) by (auto simp: bind_eq_Some_conv)
  show ?case using Cons.IH [OF s1(2)] recv_do_sink [of P env, OF assms s1(1) Cons.prems(2)] by simp
qed simp

lemma run_receiver_sink:
  assumes "\<And>k off b k'. P k \<Longrightarrow> re_write env k off b = Inr k' \<Longrightarrow> P k'" and "run_receiver env n stop as st = (res, st')"
    and "P (rs_sink st)"
  shows "P (rs_sink st')" and "rs_control st' = rs_control st"
proof -
  have "P (rs_sink st') \<and> rs_control st' = rs_control st"
  proof (cases "recv_exec env as (system_start env st n)")
    case (Some s)
    then have "P (rs_sink (sy_st s)) \<and> rs_control (sy_st s) = rs_control st"
      using recv_exec_sink [of P env as "system_start env st n" s] assms(1,3) by (simp add: system_start_def)
    then show ?thesis using assms(2) Some by (auto simp: run_receiver_def)
  qed (use assms in \<open>simp add: run_receiver_def\<close>)
  then show "P (rs_sink st')" and "rs_control st' = rs_control st" by simp_all
qed

lemma new_receiver_sink:
  "new_receiver n wr crc dec sink c = Some (env, st) \<Longrightarrow> rs_sink st = sink \<and> re_write env = wr \<and> rs_control st = rv_control c"
  by (auto simp: new_receiver_def with_recv_defaults_def Let_def bind_eq_Some_conv)

text \<open>A receiver without a warm start always comes up.\<close>

lemma new_receiver_cold:
  assumes "0 < rv_block_size c" and "rv_warm_start c = None"
  shows "\<exists>env st. new_receiver n wr crc dec sink c = Some (env, st) \<and> rs_sink st = sink \<and> rs_control st = rv_control c \<and>
           st_hi_contig (rs_stats st) = st_hi_contig (rv_stats c) \<and> re_total_blocks env = rv_total_blocks c"
  using assms by (simp add: new_receiver_def with_recv_defaults_def stage_depth_def warm_up_def Let_def)

end
