(* ===== verification/Receiver_Completion.thy ===== *)
theory Receiver_Completion
  imports Receiver_Sink Receiver_Progress
begin

text \<open>
  How a receiver comes to its end: once the sender has announced that everything was sent and the
  flusher has passed the last block, eight ticks finish the run (\<open>completion_is_announced\<close>).
\<close>

lemma feedback_scan_done_sends:
  "feedback_scan env now fl st = Some (rto, target, hi, fin, fl', st') \<Longrightarrow> fl_done_sends fl' = fl_done_sends fl"
  by (clarsimp simp: feedback_scan_def Let_def bind_eq_Some_conv split del: if_split)

definition finished :: "'k recv_env \<Rightarrow> 'k system \<Rightarrow> bool" where
  "finished env s \<longleftrightarrow> rs_all_sent (sy_st s) \<and> rs_flushed (sy_st s) = re_total_blocks env \<and> rs_peer (sy_st s) \<noteq> None"

lemma tick_counts:
  assumes "ctl_inv env s" and "env_ok env" and "finished env s"
    and "feedback_iter env now now2 now3 sent_ok (sy_fl s) (sy_st s) = Some (out, fl', st')"
  shows "fl_done_sends fl' = fl_done_sends (sy_fl s) + 1 \<and> (8 \<le> fl_done_sends fl' \<longrightarrow> rs_done st')"
proof -
  obtain rto target hi fl1 rate stt where sc: "feedback_scan env now (sy_fl s) (sy_st s) = Some (rto, target, hi, True, fl1,
        (sy_st s)\<lparr>rs_rate := rate, rs_stats := stt\<rparr>)"
    using feedback_scan_ok [OF assms(1), of now] assms(3) by (auto simp: finished_def)
  obtain peer where "rs_peer (sy_st s) = Some peer" using assms(3) by (auto simp: finished_def)
  then show ?thesis
    using assms(4) feedback_scan_done_sends [OF sc] unfolding feedback_iter_def sc
    by (clarsimp simp: Let_def bind_eq_Some_conv simp del: One_nat_def split del: if_split)
qed

lemma tick_keeps_finished:
  "tick_frame env fl st fl' st' \<Longrightarrow> finished env (s\<lparr>sy_st := st\<rparr>) \<Longrightarrow> finished env (s\<lparr>sy_st := st', sy_fl := fl'\<rparr>)"
  unfolding tick_frame_def finished_def by auto

fun is_tick :: "action \<Rightarrow> bool" where
  "is_tick (Tick now now2 now3 sent_ok) = True"
| "is_tick a = False"

lemma done_skips_ticks: "rs_done (sy_st s) \<Longrightarrow> list_all is_tick ticks \<Longrightarrow> recv_exec env ticks s = Some s"
proof (induction ticks)
  case (Cons a as)
  then show ?case by (cases a) simp_all
qed simp

lemma ticks_finish:
  assumes "env_ok env"
  shows "ctl_inv env s \<Longrightarrow> finished env s \<Longrightarrow> \<not> rs_done (sy_st s) \<Longrightarrow> list_all is_tick ticks \<Longrightarrow> ticks \<noteq> [] \<Longrightarrow>
    8 \<le> fl_done_sends (sy_fl s) + length ticks \<Longrightarrow>
    \<exists>s'. recv_exec env ticks s = Some s' \<and> rs_done (sy_st s') \<and> recv_result env (sy_st s') = Inr ()"
proof (induction ticks arbitrary: s)
  case (Cons a as)
  obtain now now2 now3 sent_ok where a: "a = Tick now now2 now3 sent_ok" using Cons.prems(4) by (cases a) auto
  obtain out fl' st' where t: "feedback_iter env now now2 now3 sent_ok (sy_fl s) (sy_st s) = Some (out, fl', st')"
      "tick_frame env (sy_fl s) (sy_st s) fl' st'"
    using feedback_iter_ok [OF Cons.prems(1) assms, of now now2 now3 sent_ok] by (elim exE conjE)
  let ?s = "s\<lparr>sy_st := st', sy_fl := fl'\<rparr>"
  have step: "recv_step env a s ?s" using step_Tick [OF Cons.prems(3) t(1)] a by simp
  have exec: "recv_exec env (a # as) s = recv_exec env as ?s" using Cons.prems(3) t(1) a by simp
  note n = tick_counts [OF Cons.prems(1) assms Cons.prems(2) t(1)]
  have inv: "ctl_inv env ?s" using ctl_inv_step [OF step Cons.prems(1) assms] .
  have "{..<re_total_blocks env} \<subseteq> bm_seqs (rs_bm (sy_st s))" using Cons.prems(1,2) by (auto simp: ctl_inv_def finished_def)
  then have res: "recv_result env (sy_st ?s) = Inr ()"
    using tick_reports_prefix [OF Cons.prems(1) assms] step a by blast
  show ?case
  proof (cases "rs_done st'")
    case True
    then show ?thesis using exec res done_skips_ticks [of ?s as env] Cons.prems(4) by simp
  next
    case False
    have "finished env ?s" using tick_keeps_finished [OF t(2), of s] Cons.prems(2) by simp
    moreover have "as \<noteq> []" "8 \<le> fl_done_sends (sy_fl ?s) + length as" using n False Cons.prems(6) by auto
    ultimately show ?thesis using Cons.IH [OF inv] False Cons.prems(4) exec by simp
  qed
qed simp

text \<open>Property C22: a complete receiver comes to its end. In every reachable state in which the sender has
  announced the end, the flusher has passed the last block and the peer is known, the next eight
  ticks of the feedback thread finish the run, whatever the clock says and whether or not their
  datagrams can be sent, and \<open>run\<close> reports success.\<close>

theorem completion_is_announced:
  assumes "config_ok dec c" and "reaches wr crc dec sink c n as env s" and "finished env s" and "\<not> rs_done (sy_st s)"
    and "length ticks = 8" and "list_all is_tick ticks"
  shows "\<exists>s'. recv_exec env ticks s = Some s' \<and> rs_done (sy_st s') \<and> recv_result env (sy_st s') = Inr ()"
  using ticks_finish [OF reaches_inv(2,1) [OF assms(1,2)] assms(3,4,6)] assms(5) by fastforce

section \<open>A sample run\<close>

abbreviation fin_bytes :: "u32 \<Rightarrow> nat \<Rightarrow> byte list" where
  "fin_bytes session tot \<equiv> PDU_FIN # 0 # 0 # 0 # le_bytes 4 session @ le_bytes 8 (of_nat tot :: u64)"

lemma accept_fin:
  assumes "\<not> wrong_host (re_expected_peer_ip env) a" and "rs_peer st = None \<or> rs_peer st = Some a" and "re_total_blocks env < 2 ^ 64"
  shows "accept_packet env now (fin_bytes (re_session env) (re_total_blocks env)) (Some a) st =
           Some (None, st\<lparr>rs_peer := Some a, rs_all_sent := True\<rparr>)"
proof -
  have t: "pdu_type (fin_bytes (re_session env) (re_total_blocks env)) = Some PDU_FIN" by (simp add: pdu_type_def index_at_def)
  have p: "st\<lparr>rs_peer := Some a\<rparr> = st" if "rs_peer st = Some a" using that by (cases st) simp
  have l: "learn_peer env (Some a) st = (True, st\<lparr>rs_peer := Some a\<rparr>)"
    using assms(1,2) p by (auto simp: learn_peer_def)
  show ?thesis using assms(3) by (simp add: accept_packet_def t decode_fin_bytes l)
qed

definition empty_recv :: recv_config where
  "empty_recv = sample_recv\<lparr>rv_file_size := 0, rv_total_blocks := 0\<rparr>"

definition eight_ticks :: "action list" where
  "eight_ticks = replicate 8 (Tick 0 0 0 True)"

lemma empty_finished:
  "\<exists>env s. reaches file_write_all_at (sum_crc 0) copy_all sample_sink empty_recv 1 [Rx 0 0 (fin_bytes 7 0) (Some sample_peer)] env s \<and>
     finished env s \<and> \<not> rs_done (sy_st s)"
proof -
  let ?new = "new_receiver 1 file_write_all_at (sum_crc 0) copy_all sample_sink empty_recv"
  obtain env st where new: "?new = Some (env, st)"
      and v: "re_session env = 7" "re_total_blocks env = 0" "re_expected_peer_ip env = None" "rs_peer st = None"
        "rs_flushed st = 0" "\<not> rs_done st"
    by (simp add: sample_start empty_recv_def)
  let ?st = "st\<lparr>rs_peer := Some sample_peer, rs_all_sent := True\<rparr>" and ?s0 = "system_start env st 1"
  have "accept_packet env 0 (fin_bytes 7 0) (Some sample_peer) st = Some (None, ?st)"
    using accept_fin [of env sample_peer st 0] v by (simp add: wrong_host_def)
  then have "recv_step env (Rx 0 0 (fin_bytes 7 0) (Some sample_peer)) ?s0 (?s0\<lparr>sy_st := ?st, sy_workers := [Idle]\<rparr>)"
    using step_Rx [of 0 ?s0 env 0 "fin_bytes 7 0" "Some sample_peer" None ?st] by (simp add: system_start_def)
  then have "reaches file_write_all_at (sum_crc 0) copy_all sample_sink empty_recv 1 [Rx 0 0 (fin_bytes 7 0) (Some sample_peer)]
      env (?s0\<lparr>sy_st := ?st, sy_workers := [Idle]\<rparr>)"
    using new run_Cons run_Nil unfolding reaches_def by blast
  then show ?thesis using v by (intro exI conjI) (auto simp: finished_def)
qed

theorem completion_is_announced_witness:
  "\<exists>env s s'. reaches file_write_all_at (sum_crc 0) copy_all sample_sink empty_recv 1 [Rx 0 0 (fin_bytes 7 0) (Some sample_peer)] env s \<and>
     recv_exec env eight_ticks s = Some s' \<and> rs_done (sy_st s')"
proof -
  have ok: "config_ok copy_all empty_recv" using sample_recv_ok by (simp add: config_ok_def empty_recv_def)
  obtain env s where r: "reaches file_write_all_at (sum_crc 0) copy_all sample_sink empty_recv 1 [Rx 0 0 (fin_bytes 7 0) (Some sample_peer)] env s"
      "finished env s" "\<not> rs_done (sy_st s)"
    using empty_finished by blast
  from completion_is_announced [OF ok r, of eight_ticks] r(1) show ?thesis by (auto simp: eight_ticks_def list_all_iff)
qed

end
