(* ===== verification/Served_Objects.thy ===== *)
theory Served_Objects
  imports Control_Plane Net_Batch
begin

text \<open>
  The first part of \<open>src/src/transfer.rs\<close>: what the server opens for a name a client sends
  (\<open>served_object_name\<close>, \<open>open_served_source\<close>, \<open>open_served_sink\<close>), the sources and sinks a
  transfer moves bytes between, and the addresses (\<open>resolve_peer\<close>, \<open>bind_data_socket\<close>,
  \<open>normalize_listen_addr\<close>).

  The file system is a map from paths to nodes; the served directory itself is trusted. An error
  of the operating system at a path is the answer of \<open>denies\<close>. Files are opened on unix, with
  \<open>O_NOFOLLOW\<close>. Addresses are ASCII.
\<close>

section \<open>Names\<close>

definition served_object_name :: "string \<Rightarrow> string io" where
  "served_object_name name =
     (let b = basename name
      in if b = [] \<or> b = ''.'' \<or> b = ''..'' \<or> CHR ''/'' \<in> set b \<or> CHR 0x5C \<in> set b
         then Inl InvalidInput else Inr b)"

datatype node = Regular "byte list" | Symlink | Directory

type_synonym fs = "string \<rightharpoonup> node"

definition open_served_source :: "(string \<Rightarrow> io_error option) \<Rightarrow> fs \<Rightarrow> string \<Rightarrow> string \<Rightarrow> byte list io" where
  "open_served_source denies files dir name =
     (let path = path_join dir name
      in case denies path of
           Some e \<Rightarrow> Inl e
         | None \<Rightarrow>
             (case files path of
                None \<Rightarrow> Inl NoSuchFile
              | Some Symlink \<Rightarrow> Inl OtherIO
              | Some Directory \<Rightarrow> Inl InvalidInput
              | Some (Regular b) \<Rightarrow> Inr b))"

definition open_served_sink ::
  "(string \<Rightarrow> io_error option) \<Rightarrow> fs \<Rightarrow> string \<Rightarrow> string \<Rightarrow> (string \<times> byte list \<times> fs) io" where
  "open_served_sink denies files dir name =
     (let path = path_join dir name
      in case denies path of
           Some e \<Rightarrow> Inl e
         | None \<Rightarrow>
             (case files path of
                None \<Rightarrow> Inr (path, [], files(path \<mapsto> Regular []))
              | Some Symlink \<Rightarrow> Inl OtherIO
              | Some Directory \<Rightarrow> Inl OtherIO
              | Some (Regular b) \<Rightarrow> Inr (path, b, files)))"

section \<open>Sources and sinks\<close>

text \<open>The implementations of \<open>BlockSource\<close> and \<open>BlockSink\<close> that the crate has. A file-backed sink
  remembers its path, so that what it writes can be read back from the file system.\<close>

datatype any_source = FileSource file_source | MemSource mem_source

fun any_len :: "any_source \<Rightarrow> nat" where
  "any_len (FileSource f) = fsrc_len f"
| "any_len (MemSource m) = mem_len m"

fun any_read_exact_at :: "any_source \<Rightarrow> nat \<Rightarrow> nat \<Rightarrow> byte list io" where
  "any_read_exact_at (FileSource f) off n = file_read_exact_at f off n"
| "any_read_exact_at (MemSource m) off n = mem_read_exact_at m off n"

fun source_bytes :: "any_source \<Rightarrow> byte list" where
  "source_bytes (FileSource f) = fsrc_file f"
| "source_bytes (MemSource m) = m"

fun source_sized :: "any_source \<Rightarrow> bool" where
  "source_sized (FileSource f) \<longleftrightarrow> fsrc_len f = length (fsrc_file f)"
| "source_sized (MemSource m) \<longleftrightarrow> length m < 2 ^ 64"

datatype any_sink = FileSink string file_sink | MemSink mem_sink

fun any_allocate :: "any_sink \<Rightarrow> nat \<Rightarrow> any_sink io" where
  "any_allocate (FileSink path k) n = map_sum id (FileSink path) (file_allocate k n)"
| "any_allocate (MemSink k) n = map_sum id MemSink (mem_allocate k n)"

fun any_write_all_at :: "any_sink \<Rightarrow> nat \<Rightarrow> byte list \<Rightarrow> any_sink io" where
  "any_write_all_at (FileSink path k) off b = map_sum id (FileSink path) (file_write_all_at k off b)"
| "any_write_all_at (MemSink k) off b = map_sum id MemSink (mem_write_all_at k off b)"

fun any_read_crc32c :: "(u32 \<Rightarrow> byte list \<Rightarrow> u32) \<Rightarrow> any_sink \<Rightarrow> u32 option io" where
  "any_read_crc32c crc (FileSink path k) = file_read_crc32c crc k"
| "any_read_crc32c crc (MemSink k) = mem_read_crc32c crc k"

fun sink_bytes :: "any_sink \<Rightarrow> byte list" where
  "sink_bytes (FileSink path k) = fsnk_file k"
| "sink_bytes (MemSink k) = to_vec k"

fun sink_sized :: "any_sink \<Rightarrow> bool" where
  "sink_sized (FileSink path k) \<longleftrightarrow> fsnk_len k = length (fsnk_file k)"
| "sink_sized (MemSink k) \<longleftrightarrow> True"

fun sink_path :: "any_sink \<Rightarrow> string option" where
  "sink_path (FileSink path k) = Some path"
| "sink_path (MemSink k) = None"

text \<open>The file system once a sink's writes have reached it.\<close>

fun stored_in :: "any_sink \<Rightarrow> fs \<Rightarrow> fs" where
  "stored_in (FileSink path k) files = files(path \<mapsto> Regular (fsnk_file k))"
| "stored_in (MemSink k) files = files"

interpretation any_src: block_source any_len any_read_exact_at source_bytes source_sized
proof
  show "any_len s = length (source_bytes s)" if "source_sized s" for s
    using that by (cases s) (auto intro: file_src.len_bytes mem_src.len_bytes)
  show "any_read_exact_at s off n = Inr (take n (drop off (source_bytes s)))"
    if "source_sized s" "off + n \<le> length (source_bytes s)" for s off n
    using that by (cases s) (auto intro: file_src.read_in_range mem_src.read_in_range)
  show "\<exists>e. any_read_exact_at s off n = Inl e" if "source_sized s" "length (source_bytes s) < off + n" for s off n
    using that by (cases s) (auto intro: file_src.read_past_end mem_src.read_past_end)
qed

interpretation any_snk: block_sink any_allocate any_write_all_at any_read_crc32c sink_bytes sink_sized
proof
  show "\<exists>k'. any_allocate k n = Inr k' \<and> sink_sized k' \<and> length (sink_bytes k') = n" for k n
  proof (cases k)
    case (FileSink path f)
    from file_snk.allocate_sizes [of f n] show ?thesis by (auto simp: FileSink)
  next
    case (MemSink m)
    from mem_snk.allocate_sizes [of m n] show ?thesis by (auto simp: MemSink)
  qed
  show "\<exists>k'. any_write_all_at k off b = Inr k' \<and> sink_sized k' \<and> sink_bytes k' = overwrite (sink_bytes k) off b"
    if "sink_sized k" "length (sink_bytes k) < 2 ^ 64" "off + length b \<le> length (sink_bytes k)" for k off b
  proof (cases k)
    case (FileSink path f)
    with that file_snk.write_overwrites [of f off b] show ?thesis by auto
  next
    case (MemSink m)
    with that mem_snk.write_overwrites [of m off b] show ?thesis by auto
  qed
  show "any_read_crc32c crc k = Inr (Some (crc 0 (sink_bytes k)))" if "sink_sized k" "crc_incremental crc" for k crc
    using that by (cases k) (auto intro: file_snk.read_crc_whole mem_snk.read_crc_whole)
qed

lemma any_allocate_path: "any_allocate k n = Inr k' \<Longrightarrow> sink_path k' = sink_path k"
  by (cases k) (auto simp: map_sum_def split: sum.splits)

lemma any_write_path: "any_write_all_at k off b = Inr k' \<Longrightarrow> sink_path k' = sink_path k"
  by (cases k) (auto simp: map_sum_def split: sum.splits)

section \<open>Numbers as text\<close>

text \<open>The decimal text of an integer, as \<open>format!\<close> writes it.\<close>

fun show_nat :: "nat \<Rightarrow> string" where
  "show_nat n = (if n < 10 then [char_of (48 + n)] else show_nat (n div 10) @ [char_of (48 + n mod 10)])"

declare show_nat.simps [simp del]

definition show_int :: "int \<Rightarrow> string" where
  "show_int i = (if i < 0 then ''-'' @ show_nat (nat (- i)) else show_nat (nat i))"

lemma digit_char:
  assumes "n < 10"
  shows "of_char (char_of (48 + n) :: char) = (48 + n :: nat)"
  using assms by (simp add: of_char_of)

lemma show_nat_digits: "\<forall>c \<in> set (show_nat n). of_char c \<in> {48..57 :: nat}"
proof (induction n rule: show_nat.induct)
  case (1 n)
  show ?case
  proof (cases "n < 10")
    case True
    then show ?thesis using digit_char [OF True] by (subst show_nat.simps) auto
  next
    case False
    then show ?thesis using 1 digit_char [of "n mod 10"] by (subst show_nat.simps) auto
  qed
qed

lemma show_nat_nonempty: "show_nat n \<noteq> []"
  by (subst show_nat.simps) simp

section \<open>Addresses\<close>

text \<open>\<open>str::rfind\<close>, and the trimming functions on one character.\<close>

fun rfind_colon :: "string \<Rightarrow> nat option" where
  "rfind_colon [] = None"
| "rfind_colon (c # cs) =
     (case rfind_colon cs of Some i \<Rightarrow> Some (i + 1) | None \<Rightarrow> if c = CHR '':'' then Some 0 else None)"

definition trim_start_matches :: "char \<Rightarrow> string \<Rightarrow> string" where
  "trim_start_matches c s = dropWhile (\<lambda>x. x = c) s"

definition trim_end_matches :: "char \<Rightarrow> string \<Rightarrow> string" where
  "trim_end_matches c s = rev (dropWhile (\<lambda>x. x = c) (rev s))"

definition is_space :: "char \<Rightarrow> bool" where
  "is_space c \<longleftrightarrow> of_char c \<in> {9, 10, 11, 12, 13, 32 :: nat}"

definition trim :: "string \<Rightarrow> string" where
  "trim s = rev (dropWhile is_space (rev (dropWhile is_space s)))"

definition peer_target :: "string \<Rightarrow> int \<Rightarrow> string" where
  "peer_target server_addr udp_port =
     (let host = (case rfind_colon server_addr of Some i \<Rightarrow> take i server_addr | None \<Rightarrow> server_addr);
          host = trim_end_matches (CHR '']'') (trim_start_matches (CHR ''['') host)
      in host @ '':'' @ show_int udp_port)"

text \<open>\<open>to_socket_addrs\<close> is the resolver of the operating system.\<close>

definition resolve_peer :: "(string \<Rightarrow> socket_addr list io) \<Rightarrow> string \<Rightarrow> int \<Rightarrow> socket_addr io" where
  "resolve_peer lookup server_addr udp_port =
     (case lookup (peer_target server_addr udp_port) of
        Inl e \<Rightarrow> Inl e
      | Inr [] \<Rightarrow> Inl OtherIO
      | Inr (a # as) \<Rightarrow> Inr a)"

definition normalize_listen_addr :: "string \<Rightarrow> string" where
  "normalize_listen_addr addr =
     (let a = trim addr
      in case rfind_colon a of
           Some i \<Rightarrow> if take i a = [] then ''0.0.0.0'' @ a else a
         | None \<Rightarrow> if a \<noteq> [] \<and> (\<forall>c \<in> set a. of_char c \<in> {48..57 :: nat}) then ''0.0.0.0:'' @ a else a)"

text \<open>\<open>new_udp_socket\<close> answers with the port it bound.\<close>

fun bind_first :: "(nat \<Rightarrow> nat io) \<Rightarrow> nat list \<Rightarrow> io_error \<Rightarrow> nat io" where
  "bind_first sock [] last_err = Inl last_err"
| "bind_first sock (port # ports) last_err =
     (case sock port of Inr s \<Rightarrow> Inr s | Inl e \<Rightarrow> bind_first sock ports e)"

definition bind_data_socket :: "(nat \<Rightarrow> nat io) \<Rightarrow> (nat \<times> nat) option \<Rightarrow> nat io" where
  "bind_data_socket sock ports =
     (case ports of
        None \<Rightarrow> sock 0
      | Some (lo, hi) \<Rightarrow> bind_first sock [lo..<hi + 1] AddrNotAvailable)"

section \<open>Lemmas\<close>

lemma served_object_name_ok:
  assumes "served_object_name name = Inr b"
  shows "b = basename name" and "b \<noteq> []" and "b \<noteq> ''.''" and "b \<noteq> ''..''" and "CHR ''/'' \<notin> set b" and "CHR 0x5C \<notin> set b"
  using assms by (auto simp: served_object_name_def Let_def split: if_splits)

lemma served_path:
  assumes "served_object_name name = Inr b"
  shows "path_components (path_join dir b) = path_components dir @ [b]"
proof -
  note b = served_object_name_ok [OF assms]
  have "path_components b = [b]" using b split_on_no_sep [OF b(5)] by (simp add: path_components_def)
  then show ?thesis using path_components_join [OF b(5)] by simp
qed

lemma open_served_sink_frame:
  assumes "open_served_sink denies files dir name = Inr (path, b, files')"
  shows "path = path_join dir name" and "files' path = Some (Regular b)" and "\<forall>q. q \<noteq> path \<longrightarrow> files' q = files q"
    and "files path \<noteq> Some Symlink" and "files path \<noteq> Some Directory"
  using assms by (auto simp: open_served_sink_def Let_def split: option.splits node.splits)

lemma bind_first_ok:
  "bind_first sock ports e = Inr s \<Longrightarrow>
     \<exists>i < length ports. sock (ports ! i) = Inr s \<and> (\<forall>j < i. \<exists>e'. sock (ports ! j) = Inl e')"
proof (induction ports arbitrary: e)
  case (Cons port ports)
  show ?case
  proof (cases "sock port")
    case (Inr x)
    then show ?thesis using Cons.prems by (intro exI [of _ 0]) simp
  next
    case (Inl x)
    then obtain i where "i < length ports" "sock (ports ! i) = Inr s" "\<forall>j < i. \<exists>e'. sock (ports ! j) = Inl e'"
      using Cons by auto
    then show ?thesis using Inl by (intro exI [of _ "Suc i"]) (auto simp: less_Suc_eq_0_disj)
  qed
qed simp

end
