(* ===== verification/Server_Session.thy ===== *)
theory Server_Session
  imports Served_Objects Receiver_Exec Sender_Properties Data_Crypto Auth_Mac Errors
begin

text \<open>
  The server of \<open>src/src/transfer.rs\<close>: limits, authorization, the two handlers
  (\<open>recv_from_client\<close>, \<open>send_to_client\<close>), the connection loop \<open>handle_conn\<close> and the listener.

  What the machine and the crates provide is the record \<open>world\<close>; what happens while one request is
  served is the record \<open>request\<close>: the message read, the random session and key, the answers of the
  sockets, the actions of the receiver's threads or the events of the sender's. The state \<open>srv\<close> is
  what a connection can change: the file system, the replies written to the client, the names handed
  to the resolvers of the embedding application. An error message is its text.
\<close>

section \<open>The world\<close>

record 'secret world =
  wd_hw :: bool
  wd_pub_of :: "'secret \<Rightarrow> byte list"
  wd_dh :: "'secret dh_fun"
  wd_hkdf :: hkdf_fun
  wd_hmac :: mac_fun
  wd_crc :: "u32 \<Rightarrow> byte list \<Rightarrow> u32"
  wd_enc :: enc_fun
  wd_dec :: dec_fun
  wd_num_cpu :: nat
  wd_io_text :: "io_error \<Rightarrow> string"
  wd_debug :: "string \<Rightarrow> string"
  wd_hkdf_text :: string
  wd_bind :: "nat \<Rightarrow> nat io"
  wd_denies :: "string \<Rightarrow> io_error option"
  wd_lookup :: "string \<Rightarrow> socket_addr list io"

definition crypto_text :: "'secret world \<Rightarrow> crypto_error \<Rightarrow> string" where
  "crypto_text w e =
     (case e of
        BadKeyLength n \<Rightarrow> ''girth: bad key length '' @ show_nat n
      | UnknownCipher name \<Rightarrow> ''girth: unknown cipher '' @ wd_debug w name
      | BadPeerKey \<Rightarrow> ''girth: bad peer public key''
      | HkdfFailed \<Rightarrow> ''girth: HKDF failed: '' @ wd_hkdf_text w
      | NoCommonCipher \<Rightarrow> ''no common cipher suite''
      | ServerDeclined \<Rightarrow> ''server declined encryption''
      | ServerUnexpected \<Rightarrow> ''server enabled encryption unexpectedly'')"

text \<open>An open that finds something other than a regular file is the handler's own error.\<close>

definition open_text :: "'secret world \<Rightarrow> io_error \<Rightarrow> string" where
  "open_text w e = (if e = InvalidInput then ''served object is not a regular file'' else wd_io_text w e)"

section \<open>The server\<close>

record auth_context =
  ac_mode :: string
  ac_name :: string
  ac_peer_addr :: socket_addr

record auth_state =
  au_token :: "byte list"
  au_client_mac :: "byte list"

record server_limits =
  max_object_size :: nat
  min_block_size :: nat
  max_block_size :: nat
  max_rate_bps :: nat
  max_alpha_bps :: nat
  max_concurrent_connections :: nat

definition default_limits :: server_limits where
  "default_limits = \<lparr>max_object_size = 2 ^ 40, min_block_size = 256, max_block_size = 65455,
     max_rate_bps = 100000000000, max_alpha_bps = 100000000000, max_concurrent_connections = 256\<rparr>"

record server =
  sv_addr :: string
  sv_dir :: string
  sv_params :: transfer_params
  sv_authorizer :: "(auth_context \<Rightarrow> string + byte list) option"
  sv_udp_port_range :: "(nat \<times> nat) option"
  sv_limits :: server_limits
  sv_source_resolver :: "(string \<Rightarrow> any_source io) option"
  sv_sink_resolver :: "(string \<Rightarrow> any_sink io) option"

definition server_new :: "string \<Rightarrow> string \<Rightarrow> transfer_params \<Rightarrow> server" where
  "server_new addr dir params =
     \<lparr>sv_addr = addr, sv_dir = dir, sv_params = params, sv_authorizer = None, sv_udp_port_range = None,
      sv_limits = default_limits, sv_source_resolver = None, sv_sink_resolver = None\<rparr>"

definition with_authorizer :: "(auth_context \<Rightarrow> string + byte list) \<Rightarrow> server \<Rightarrow> server" where
  "with_authorizer authorizer sv = sv\<lparr>sv_authorizer := Some authorizer\<rparr>"

definition with_udp_port_range :: "nat \<times> nat \<Rightarrow> server \<Rightarrow> server" where
  "with_udp_port_range ports sv = sv\<lparr>sv_udp_port_range := Some ports\<rparr>"

definition with_limits :: "server_limits \<Rightarrow> server \<Rightarrow> server" where
  "with_limits limits sv = sv\<lparr>sv_limits := limits\<rparr>"

definition with_source_resolver :: "(string \<Rightarrow> any_source io) \<Rightarrow> server \<Rightarrow> server" where
  "with_source_resolver resolver sv = sv\<lparr>sv_source_resolver := Some resolver\<rparr>"

definition with_sink_resolver :: "(string \<Rightarrow> any_sink io) \<Rightarrow> server \<Rightarrow> server" where
  "with_sink_resolver resolver sv = sv\<lparr>sv_sink_resolver := Some resolver\<rparr>"

record srv =
  sr_files :: fs
  sr_replies :: "ack list"
  sr_resolved :: "string list"

definition reply :: "ack \<Rightarrow> srv \<Rightarrow> srv" where
  "reply a s = s\<lparr>sr_replies := sr_replies s @ [a]\<rparr>"

definition ack_err :: "string \<Rightarrow> bool \<Rightarrow> srv \<Rightarrow> srv" where
  "ack_err err auth_required s = reply (ack_default\<lparr>a_err := err, a_auth_required := auth_required\<rparr>) s"

section \<open>Limits\<close>

definition MAX_WARM_RTT_US :: nat where "MAX_WARM_RTT_US = 60000000"

text \<open>The first refusal, or \<open>None\<close>.\<close>

definition validate_hello_limits :: "hello \<Rightarrow> server_limits \<Rightarrow> string option" where
  "validate_hello_limits h limits =
     (if h_mode h \<noteq> MODE_SEND \<and> h_mode h \<noteq> MODE_RECV then Some ''unknown mode''
      else if h_size h < 0 then Some ''negative size''
      else if h_mode h = MODE_SEND \<and> nat (h_size h) > max_object_size limits then
        Some (''object too large: '' @ show_int (h_size h) @ '' > '' @ show_nat (max_object_size limits))
      else if h_block_size h \<le> 0 then Some ''invalid block size''
      else if nat (h_block_size h) < min_block_size limits \<or> nat (h_block_size h) > max_block_size limits then
        Some (''block size out of range: '' @ show_nat (nat (h_block_size h)) @ '' (allowed '' @
              show_nat (min_block_size limits) @ ''..='' @ show_nat (max_block_size limits) @ '')'')
      else if h_rate_bps h > max_rate_bps limits then
        Some (''rate too high: '' @ show_nat (h_rate_bps h) @ '' > '' @ show_nat (max_rate_bps limits))
      else if h_max_bps h > max_rate_bps limits then
        Some (''max rate too high: '' @ show_nat (h_max_bps h) @ '' > '' @ show_nat (max_rate_bps limits))
      else if h_warm_rate_bps h > max_rate_bps limits then
        Some (''warm rate too high: '' @ show_nat (h_warm_rate_bps h) @ '' > '' @ show_nat (max_rate_bps limits))
      else if h_warm_srtt_net_us h > MAX_WARM_RTT_US \<or> h_warm_base_rtt_us h > MAX_WARM_RTT_US then
        Some (''warm RTT too high: srtt='' @ show_nat (h_warm_srtt_net_us h) @ '' base='' @
              show_nat (h_warm_base_rtt_us h) @ '' max='' @ show_nat MAX_WARM_RTT_US)
      else if h_warm_srtt_net_us h > 0 \<and> h_warm_base_rtt_us h > 0 \<and> h_warm_base_rtt_us h > h_warm_srtt_net_us h then
        Some ''warm base RTT exceeds warm SRTT''
      else if h_alpha_bps h > max_alpha_bps limits then
        Some (''alpha too high: '' @ show_nat (h_alpha_bps h) @ '' > '' @ show_nat (max_alpha_bps limits))
      else if h_max_bps h > 0 \<and> h_rate_bps h > h_max_bps h then Some ''rate exceeds max rate''
      else None)"

definition request_params :: "transfer_params \<Rightarrow> hello \<Rightarrow> transfer_params" where
  "request_params params h =
     params\<lparr>tp_block_size := nat (h_block_size h), tp_adaptive := h_adaptive h,
            tp_alpha_bps := (if h_alpha_bps h > 0 then h_alpha_bps h else tp_alpha_bps params),
            tp_rate_bps := (if h_rate_bps h > 0 then h_rate_bps h else tp_rate_bps params),
            tp_max_bps := (if h_max_bps h > 0 then h_max_bps h else tp_max_bps params)\<rparr>"

definition warm_from_hello :: "hello \<Rightarrow> rate_warm_start option" where
  "warm_from_hello h =
     (let warm = \<lparr>warm_rate_bps = h_warm_rate_bps h, warm_srtt_net_us = h_warm_srtt_net_us h,
                  warm_base_rtt_us = h_warm_base_rtt_us h\<rparr>
      in if \<not> h_adaptive h \<or> warm_is_empty warm then None else Some warm)"

section \<open>Authorization\<close>

definition opt_bytes :: "byte list option \<Rightarrow> byte list" where
  "opt_bytes b = (case b of Some x \<Rightarrow> x | None \<Rightarrow> [])"

definition check_auth :: "'secret world \<Rightarrow> server \<Rightarrow> hello \<Rightarrow> socket_addr \<Rightarrow> string + auth_state option" where
  "check_auth w sv h peer_addr =
     (case sv_authorizer sv of
        None \<Rightarrow> Inr None
      | Some authz \<Rightarrow>
          (case authz \<lparr>ac_mode = h_mode h, ac_name = h_name h, ac_peer_addr = peer_addr\<rparr> of
             Inl reason \<Rightarrow> Inl (''auth denied: '' @ reason)
           | Inr token \<Rightarrow>
               (case h_auth_mac h of
                  None \<Rightarrow> Inl ''auth required''
                | Some presented \<Rightarrow>
                    if verify_client_mac (wd_hmac w) token (of_int (h_version h)) (h_mode h) (h_name h)
                         (of_int (h_size h)) (opt_bytes (h_pub_key h)) presented
                    then Inr (Some \<lparr>au_token = token, au_client_mac = presented\<rparr>)
                    else Inl ''auth denied'')))"

section \<open>Serving one request\<close>

record 'secret request =
  rq_stop :: bool
  rq_hello :: "hello io"
  rq_session :: u32
  rq_secret :: 'secret
  rq_reply_fails :: "io_error option"
  rq_actions :: "action list"
  rq_turns :: "(bool \<times> bool \<times> (io_error + (byte list \<times> socket_addr))) list"
  rq_events :: "sender_event list"
  rq_run_stop :: bool
  rq_finalize_fails :: "io_error option"
  rq_now :: nat

definition negotiate ::
  "'secret world \<Rightarrow> 'secret request \<Rightarrow> hello \<Rightarrow> crypto_error + (bool \<times> string \<times> byte list \<times> aead_box option)" where
  "negotiate w rq h =
     negotiate_crypto_server (wd_hw w) (wd_pub_of w) (wd_dh w) (wd_hkdf w) (rq_secret rq) (h_encrypt h)
       (case h_ciphers h of Some cs \<Rightarrow> cs | None \<Rightarrow> []) (opt_bytes (h_pub_key h)) (rq_session rq)"

definition ok_ack ::
  "'secret world \<Rightarrow> 'secret request \<Rightarrow> hello \<Rightarrow> auth_state option \<Rightarrow> nat \<Rightarrow> int \<Rightarrow> u32 \<Rightarrow> bool \<times> string \<times> byte list \<Rightarrow> ack" where
  "ok_ack w rq h auth port sz crc neg =
     (case neg of (enc, cipher, pub_key) \<Rightarrow>
        ack_default\<lparr>a_ok := True, a_udp_port := int port, a_session := rq_session rq, a_size := sz, a_crc32c := crc,
          a_name := h_name h, a_encrypt := enc, a_cipher := cipher,
          a_pub_key := (if pub_key \<noteq> [] then Some pub_key else None),
          a_auth_mac := map_option (\<lambda>au. server_mac (wd_hmac w) (au_token au) (rq_session rq) pub_key (au_client_mac au)) auth\<rparr>)"

text \<open>The sink of a push: its name, the resolver or the file, its size.\<close>

definition open_sink :: "'secret world \<Rightarrow> server \<Rightarrow> string \<Rightarrow> srv \<Rightarrow> (string + any_sink) \<times> srv" where
  "open_sink w sv object_name s =
     (case sv_sink_resolver sv of
        Some resolver \<Rightarrow>
          (map_sum (wd_io_text w) id (resolver object_name), s\<lparr>sr_resolved := sr_resolved s @ [object_name]\<rparr>)
      | None \<Rightarrow>
          (case open_served_sink (wd_denies w) (sr_files s) (sv_dir sv) object_name of
             Inl e \<Rightarrow> (Inl (open_text w e), s)
           | Inr (path, b, files) \<Rightarrow> (Inr (FileSink path (file_sink_from_file b)), s\<lparr>sr_files := files\<rparr>)))"

definition prepare_sink :: "'secret world \<Rightarrow> server \<Rightarrow> hello \<Rightarrow> srv \<Rightarrow> (string + any_sink) \<times> srv" where
  "prepare_sink w sv h s =
     (case served_object_name (h_name h) of
        Inl e \<Rightarrow> (Inl ''invalid object name'', s)
      | Inr object_name \<Rightarrow>
          (case open_sink w sv object_name s of
             (Inl msg, s) \<Rightarrow> (Inl msg, s)
           | (Inr sink, s) \<Rightarrow>
               (case any_allocate sink (nat (max (h_size h) 0)) of
                  Inl e \<Rightarrow> (Inl (wd_io_text w e), s)
                | Inr sink \<Rightarrow> (Inr sink, s\<lparr>sr_files := stored_in sink (sr_files s)\<rparr>))))"

definition push_config ::
  "'secret request \<Rightarrow> hello \<Rightarrow> transfer_params \<Rightarrow> socket_addr \<Rightarrow> aead_box option \<Rightarrow> nat \<Rightarrow> recv_config" where
  "push_config rq h p peer_addr crypto blocks =
     \<lparr>rv_file_size = h_size h, rv_block_size = tp_block_size p, rv_total_blocks = blocks, rv_session = rq_session rq,
      rv_expected_peer_ip = Some (addr_ip peer_addr), rv_read_workers = tp_read_workers p,
      rv_rate = params_rate_config p (h_rate_bps h), rv_crypto = crypto,
      rv_feedback_interval_us = tp_feedback_interval_us p, rv_net_tick_interval_us = tp_net_tick_interval_us p,
      rv_max_nacks_per_pdu = 0, rv_stats = stats_new (rq_now rq), rv_control = None,
      rv_warm_start = warm_from_hello h, rv_start_peer = None\<rparr>"

definition worker_count :: "'secret world \<Rightarrow> transfer_params \<Rightarrow> nat" where
  "worker_count w p = (if tp_read_workers p = 0 then wd_num_cpu w else tp_read_workers p)"

text \<open>The integrity check after the run.\<close>

definition check_crc :: "'secret world \<Rightarrow> u32 \<Rightarrow> any_sink \<Rightarrow> io_error \<Rightarrow> unit io" where
  "check_crc w want sink mismatch =
     (case any_read_crc32c (wd_crc w) sink of
        Inl e \<Rightarrow> Inl e
      | Inr None \<Rightarrow> Inr ()
      | Inr (Some got) \<Rightarrow> if got \<noteq> want then Inl mismatch else Inr ())"

definition receive_push ::
  "'secret world \<Rightarrow> 'secret request \<Rightarrow> hello \<Rightarrow> transfer_params \<Rightarrow> socket_addr \<Rightarrow> aead_box option \<Rightarrow> any_sink \<Rightarrow> srv \<Rightarrow>
   unit outcome \<times> srv"
where
  "receive_push w rq h p peer_addr crypto sink s =
     (case do {
        blocks \<leftarrow> num_blocks (h_size h) (tp_block_size p);
        new_receiver (worker_count w p) any_write_all_at (wd_crc w 0) (wd_dec w) sink (push_config rq h p peer_addr crypto blocks)
      } of
        None \<Rightarrow> (Panicked, s)
      | Some (env, st) \<Rightarrow>
          (case run_receiver env (worker_count w p) (rq_run_stop rq) (rq_actions rq) st of
             (res, st) \<Rightarrow>
               (let s = s\<lparr>sr_files := stored_in (rs_sink st) (sr_files s)\<rparr>
                in case res of
                     Returned (Inr u) \<Rightarrow>
                       (case rq_finalize_fails rq of
                          Some e \<Rightarrow> (Returned (Inl e), s)
                        | None \<Rightarrow> (Returned (check_crc w (h_crc32c h) (rs_sink st) OtherIO), s))
                   | _ \<Rightarrow> (res, s))))"

definition recv_from_client ::
  "'secret world \<Rightarrow> server \<Rightarrow> 'secret request \<Rightarrow> hello \<Rightarrow> transfer_params \<Rightarrow> socket_addr \<Rightarrow> auth_state option \<Rightarrow> srv \<Rightarrow>
   unit outcome \<times> srv"
where
  "recv_from_client w sv rq h p peer_addr auth s =
     (case prepare_sink w sv h s of
        (Inl msg, s) \<Rightarrow> (Returned (Inr ()), ack_err msg False s)
      | (Inr sink, s) \<Rightarrow>
          (case bind_data_socket (wd_bind w) (sv_udp_port_range sv) of
             Inl e \<Rightarrow> (Returned (Inl e), s)
           | Inr port \<Rightarrow>
               (case negotiate w rq h of
                  Inl e \<Rightarrow> (Returned (Inr ()), ack_err (crypto_text w e) False s)
                | Inr (enc, cipher, pub_key, crypto) \<Rightarrow>
                    (case rq_reply_fails rq of
                       Some e \<Rightarrow> (Returned (Inl e), s)
                     | None \<Rightarrow>
                         receive_push w rq h p peer_addr crypto sink
                           (reply (ok_ack w rq h auth port 0 0 (enc, cipher, pub_key)) s)))))"

text \<open>The source of a pull, its size and checksum.\<close>

definition open_source :: "'secret world \<Rightarrow> server \<Rightarrow> string \<Rightarrow> srv \<Rightarrow> (string + any_source) \<times> srv" where
  "open_source w sv object_name s =
     (case sv_source_resolver sv of
        Some resolver \<Rightarrow>
          (map_sum (wd_io_text w) id (resolver object_name), s\<lparr>sr_resolved := sr_resolved s @ [object_name]\<rparr>)
      | None \<Rightarrow>
          (case open_served_source (wd_denies w) (sr_files s) (sv_dir sv) object_name of
             Inl e \<Rightarrow> (Inl (open_text w e), s)
           | Inr b \<Rightarrow> (Inr (FileSource (file_source_from_file b)), s)))"

definition prepare_source :: "'secret world \<Rightarrow> server \<Rightarrow> hello \<Rightarrow> srv \<Rightarrow> (string + (any_source \<times> nat \<times> u32)) \<times> srv" where
  "prepare_source w sv h s =
     (case served_object_name (h_name h) of
        Inl e \<Rightarrow> (Inl ''invalid object name'', s)
      | Inr object_name \<Rightarrow>
          (case open_source w sv object_name s of
             (Inl msg, s) \<Rightarrow> (Inl msg, s)
           | (Inr source, s) \<Rightarrow>
               (let source_len = any_len source
                in if source_len > max_object_size (sv_limits sv) then
                     (Inl (''object too large: '' @ show_nat source_len @ '' > '' @ show_nat (max_object_size (sv_limits sv))), s)
                   else if source_len > 2 ^ 63 - 1 then (Inl ''object too large for protocol size field'', s)
                   else case source_crc32c any_len any_read_exact_at (wd_crc w) source of
                          Inl e \<Rightarrow> (Inl (wd_io_text w e), s)
                        | Inr crc \<Rightarrow> (Inr (source, source_len, crc), s))))"

definition pull_config ::
  "'secret request \<Rightarrow> hello \<Rightarrow> transfer_params \<Rightarrow> socket_addr \<Rightarrow> aead_box option \<Rightarrow> nat \<Rightarrow> nat \<Rightarrow> send_config" where
  "pull_config rq h p peer_addr crypto sz blocks =
     \<lparr>sc_peer = None, sc_expected_peer_ip = Some (addr_ip peer_addr), sc_file_size = of_nat sz,
      sc_block_size = tp_block_size p, sc_total_blocks = of_nat blocks, sc_session = rq_session rq,
      sc_rate = params_rate_config p (h_rate_bps h), sc_read_workers = tp_read_workers p, sc_crypto = crypto,
      sc_stats = stats_new (rq_now rq), sc_control = None, sc_warm_start = warm_from_hello h\<rparr>"

text \<open>\<open>Sender::run\<close>: the outcome, the datagrams it put on the wire and its statistics.\<close>

definition run_send ::
  "'secret world \<Rightarrow> any_source \<Rightarrow> send_config \<Rightarrow> (bool \<times> bool \<times> (io_error + (byte list \<times> socket_addr))) list \<Rightarrow>
   sender_event list \<Rightarrow> nat \<Rightarrow> unit outcome \<times> byte list list \<times> stats"
where
  "run_send w source conf0 turns events now =
     (let conf = sender_new conf0
      in case (case sc_peer conf of
                 Some peer \<Rightarrow> Some (Some (Inr peer))
               | None \<Rightarrow> wait_for_peer (sc_session conf) (sc_expected_peer_ip conf) turns) of
           None \<Rightarrow> (Panicked, [], sc_stats conf)
         | Some None \<Rightarrow> (Running, [], sc_stats conf)
         | Some (Some (Inl e)) \<Rightarrow> (Returned (Inl e), [], sc_stats conf)
         | Some (Some (Inr peer)) \<Rightarrow>
             (let env = sender_env_of (any_read_exact_at source) (wd_crc w 0) (wd_enc w) conf peer;
                  bl = buf_size env
              in case run_sender env bl events (sender_start conf bl now) of
                   None \<Rightarrow> (Panicked, [], sc_stats conf)
                 | Some (PaceOk, wire, st) \<Rightarrow> (Returned (Inr ()), wire, ss_stats st)
                 | Some (PaceStopped, wire, st) \<Rightarrow> (Returned (Inl OtherIO), wire, ss_stats st)
                 | Some (PaceGoOn, wire, st) \<Rightarrow> (Running, wire, ss_stats st)))"

definition serve_pull ::
  "'secret world \<Rightarrow> 'secret request \<Rightarrow> hello \<Rightarrow> transfer_params \<Rightarrow> socket_addr \<Rightarrow> aead_box option \<Rightarrow> any_source \<Rightarrow> nat \<Rightarrow>
   unit outcome \<times> byte list list"
where
  "serve_pull w rq h p peer_addr crypto source sz =
     (case num_blocks (int sz) (tp_block_size p) of
        None \<Rightarrow> (Panicked, [])
      | Some blocks \<Rightarrow>
          (case run_send w source (pull_config rq h p peer_addr crypto sz blocks) (rq_turns rq) (rq_events rq) (rq_now rq) of
             (res, wire, st) \<Rightarrow> (res, wire)))"

definition send_to_client ::
  "'secret world \<Rightarrow> server \<Rightarrow> 'secret request \<Rightarrow> hello \<Rightarrow> transfer_params \<Rightarrow> socket_addr \<Rightarrow> auth_state option \<Rightarrow> srv \<Rightarrow>
   unit outcome \<times> srv"
where
  "send_to_client w sv rq h p peer_addr auth s =
     (case prepare_source w sv h s of
        (Inl msg, s) \<Rightarrow> (Returned (Inr ()), ack_err msg False s)
      | (Inr (source, sz, crc), s) \<Rightarrow>
          (case bind_data_socket (wd_bind w) (sv_udp_port_range sv) of
             Inl e \<Rightarrow> (Returned (Inl e), s)
           | Inr port \<Rightarrow>
               (case negotiate w rq h of
                  Inl e \<Rightarrow> (Returned (Inr ()), ack_err (crypto_text w e) False s)
                | Inr (enc, cipher, pub_key, crypto) \<Rightarrow>
                    (case rq_reply_fails rq of
                       Some e \<Rightarrow> (Returned (Inl e), s)
                     | None \<Rightarrow>
                         (fst (serve_pull w rq h p peer_addr crypto source sz),
                          reply (ok_ack w rq h auth port (int sz) crc (enc, cipher, pub_key)) s)))))"

section \<open>The connection\<close>

datatype flow = Next | Leave "unit outcome"

definition after :: "unit outcome \<times> srv \<Rightarrow> flow \<times> srv" where
  "after r = (case r of (Returned (Inr u), s) \<Rightarrow> (Next, s) | (res, s) \<Rightarrow> (Leave res, s))"

definition handle_request ::
  "'secret world \<Rightarrow> server \<Rightarrow> socket_addr \<Rightarrow> 'secret request \<Rightarrow> hello \<Rightarrow> srv \<Rightarrow> flow \<times> srv" where
  "handle_request w sv peer_addr rq h s =
     (if h_version h \<noteq> PROTOCOL_VERSION then
        (Leave (Returned (Inr ())), ack_err ''protocol version mismatch'' False s)
      else case validate_hello_limits h (sv_limits sv) of
        Some e \<Rightarrow> (Leave (Returned (Inr ())), ack_err e False s)
      | None \<Rightarrow>
          (case check_auth w sv h peer_addr of
             Inl reason \<Rightarrow> (Leave (Returned (Inr ())), ack_err reason True s)
           | Inr auth \<Rightarrow>
               (let p = request_params (sv_params sv) h
                in if h_mode h = MODE_SEND then after (recv_from_client w sv rq h p peer_addr auth s)
                   else if h_mode h = MODE_RECV then after (send_to_client w sv rq h p peer_addr auth s)
                   else (Leave (Returned (Inr ())), ack_err ''unknown mode'' False s))))"

fun handle_conn :: "'secret world \<Rightarrow> server \<Rightarrow> socket_addr \<Rightarrow> 'secret request list \<Rightarrow> srv \<Rightarrow> unit outcome \<times> srv" where
  "handle_conn w sv peer_addr [] s = (Running, s)"
| "handle_conn w sv peer_addr (rq # rqs) s =
     (if rq_stop rq then (Returned (Inr ()), s)
      else case rq_hello rq of
             Inl e \<Rightarrow> (Returned (if e = UnexpectedEof \<or> e = ConnectionReset then Inr () else Inl e), s)
           | Inr h \<Rightarrow>
               (case handle_request w sv peer_addr rq h s of
                  (Next, s) \<Rightarrow> handle_conn w sv peer_addr rqs s
                | (Leave res, s) \<Rightarrow> (res, s)))"

section \<open>The listener\<close>

text \<open>A connection thread serves its connection, counts itself out of \<open>active\<close> and ends; the handle
  of the thread stays in \<open>workers\<close> until the accept loop finds it finished. \<open>ln_result\<close> is what
  \<open>listen_and_serve\<close> has returned, if it has.\<close>

datatype conn_thread = Serving | Leaving | Finished

record listener =
  ln_workers :: "conn_thread list"
  ln_active :: nat
  ln_result :: "unit io option"

definition swap_remove :: "nat \<Rightarrow> 'a list \<Rightarrow> 'a list" where
  "swap_remove i xs = butlast (xs[i := last xs])"

lemma length_swap_remove [simp]: "length (swap_remove i xs) = length xs - 1"
  by (simp add: swap_remove_def)

function reap :: "nat \<Rightarrow> conn_thread list \<Rightarrow> conn_thread list" where
  "reap i workers =
     (if i < length workers then
        if workers ! i = Finished then reap i (swap_remove i workers) else reap (i + 1) workers
      else workers)"
  by auto
termination by (relation "measure (\<lambda>(i, ws). length ws + (length ws - i))") auto

declare reap.simps [simp del]

datatype listen_event = Turn bool "unit io" | Served nat | Exited nat

text \<open>One turn of the accept loop, given the stop flag and the answer of \<open>accept\<close>; the return
  of \<open>handle_conn\<close> in thread \<open>i\<close>; the exit of that thread.\<close>

fun listen_step :: "server_limits \<Rightarrow> listen_event \<Rightarrow> listener \<Rightarrow> listener" where
  "listen_step limits (Turn stop acc) l =
     (if ln_result l \<noteq> None then l
      else if stop then l\<lparr>ln_result := Some (Inr ())\<rparr>
      else let l = l\<lparr>ln_workers := reap 0 (ln_workers l)\<rparr>
           in case acc of
                Inr u \<Rightarrow>
                  if ln_active l \<ge> max_concurrent_connections limits then l
                  else l\<lparr>ln_active := ln_active l + 1, ln_workers := ln_workers l @ [Serving]\<rparr>
              | Inl e \<Rightarrow> if e = WouldBlock then l else l\<lparr>ln_result := Some (Inl e)\<rparr>)"
| "listen_step limits (Served i) l =
     (if i < length (ln_workers l) \<and> ln_workers l ! i = Serving
      then l\<lparr>ln_workers := (ln_workers l)[i := Leaving], ln_active := ln_active l - 1\<rparr> else l)"
| "listen_step limits (Exited i) l =
     (if i < length (ln_workers l) \<and> ln_workers l ! i = Leaving
      then l\<lparr>ln_workers := (ln_workers l)[i := Finished]\<rparr> else l)"

definition listener_start :: listener where
  "listener_start = \<lparr>ln_workers = [], ln_active = 0, ln_result = None\<rparr>"

definition listen_and_serve :: "server_limits \<Rightarrow> listen_event list \<Rightarrow> listener" where
  "listen_and_serve limits events = fold (listen_step limits) events listener_start"

end
