(* ===== verification/Server_Listener.thy ===== *)
theory Server_Listener
  imports Server_Session "HOL-Library.Multiset"
begin

text \<open>
  The accept loop of the server: what \<open>reap\<close> leaves of the thread handles, and the bound on the
  connections served at once.
\<close>

lemma mset_swap_remove:
  assumes "i < length xs"
  shows "add_mset (xs ! i) (mset (swap_remove i xs)) = mset xs"
proof -
  let ?ys = "xs[i := last xs]"
  have ne: "?ys \<noteq> []" and l: "last ?ys = last xs"
    using assms by (cases xs rule: rev_cases; simp add: last_list_update)+
  have "mset ?ys = add_mset (last xs) (mset xs - {#xs ! i#})"
    using assms by (simp add: mset_update)
  moreover have "mset ?ys = add_mset (last ?ys) (mset (butlast ?ys))"
    using ne by (metis append_butlast_last_id mset.simps(2) mset_append union_commute add_mset_add_single mset.simps(1))
  ultimately have "mset (butlast ?ys) = mset xs - {#xs ! i#}" using l by simp
  then show ?thesis using assms by (simp add: swap_remove_def)
qed

lemma nth_swap_remove_before: "j < i \<Longrightarrow> i < length xs \<Longrightarrow> swap_remove i xs ! j = xs ! j"
  by (simp add: swap_remove_def nth_butlast)

text \<open>The handles that are left are the unfinished ones, each once.\<close>

lemma reap_left:
  assumes "\<forall>j < i. j < length ws \<longrightarrow> ws ! j \<noteq> Finished"
  shows "mset (reap i ws) = filter_mset (\<lambda>t. t \<noteq> Finished) (mset ws)"
  using assms
proof (induction i ws rule: reap.induct)
  case (1 i ws)
  show ?case
  proof (cases "i < length ws")
    case False
    then have "filter (\<lambda>t. t \<noteq> Finished) ws = ws" using 1(3) by (auto simp: in_set_conv_nth filter_id_conv)
    then show ?thesis using False by (subst reap.simps) (simp flip: mset_filter)
  next
    case True
    show ?thesis
    proof (cases "ws ! i = Finished")
      case f: True
      have "mset (reap i ws) = mset (reap i (swap_remove i ws))" using True f by (subst reap.simps) simp
      also have "\<dots> = filter_mset (\<lambda>t. t \<noteq> Finished) (mset (swap_remove i ws))"
        using 1(1) [OF True f] 1(3) True by (auto simp: nth_swap_remove_before)
      also have "\<dots> = filter_mset (\<lambda>t. t \<noteq> Finished) (mset ws)"
        unfolding mset_swap_remove [OF True, symmetric] using f by simp
      finally show ?thesis .
    next
      case False
      then show ?thesis using 1(2) [OF True False] 1(3) True by (subst reap.simps) (simp add: less_Suc_eq)
    qed
  qed
qed

abbreviation serving :: "conn_thread list \<Rightarrow> nat" where
  "serving ws \<equiv> count (mset ws) Serving"

lemma reap_serving [simp]: "serving (reap 0 ws) = serving ws"
  using reap_left [of 0 ws] by simp

lemma reap_no_finished: "Finished \<notin> set (reap 0 ws)"
proof -
  have "Finished \<notin># mset (reap 0 ws)" using reap_left [of 0 ws] by simp
  then show ?thesis by simp
qed

definition listener_ok :: "server_limits \<Rightarrow> listener \<Rightarrow> bool" where
  "listener_ok limits l \<longleftrightarrow> ln_active l = serving (ln_workers l) \<and> ln_active l \<le> max_concurrent_connections limits"

lemma listener_ok_step: "listener_ok limits l \<Longrightarrow> listener_ok limits (listen_step limits ev l)"
  by (cases ev) (auto simp: listener_ok_def Let_def mset_update split: sum.splits)

lemma listener_ok_run: "listener_ok limits l \<Longrightarrow> listener_ok limits (fold (listen_step limits) events l)"
  by (induction events arbitrary: l) (simp_all add: listener_ok_step)

text \<open>Property C17: the connections served at once are bounded, and no handle leaks. Whatever the order in which
  connections arrive, are served and their threads exit, the number of threads serving a connection
  is the counter \<open>active\<close> and never exceeds the limit; and a turn of the accept loop that does not
  return leaves no handle of a finished thread behind.\<close>

theorem connections_bounded:
  assumes "l = listen_and_serve limits events"
  shows "ln_active l = serving (ln_workers l) \<and> serving (ln_workers l) \<le> max_concurrent_connections limits \<and>
         (ln_result l = None \<longrightarrow> Finished \<notin> set (ln_workers (listen_step limits (Turn False acc) l)))"
proof -
  have "listener_ok limits l" unfolding assms listen_and_serve_def
    by (rule listener_ok_run) (simp add: listener_ok_def listener_start_def)
  then show ?thesis
    using reap_no_finished [of "ln_workers l"] by (auto simp: listener_ok_def Let_def split: sum.split)
qed

definition sample_events :: "listen_event list" where
  "sample_events = [Turn False (Inr ()), Turn False (Inr ()), Turn False (Inr ()), Served 0, Exited 0]"

theorem connections_bounded_witness:
  "ln_workers (listen_and_serve (default_limits\<lparr>max_concurrent_connections := 2\<rparr>) sample_events) = [Finished, Serving] \<and>
   Finished \<notin> set (ln_workers (listen_step (default_limits\<lparr>max_concurrent_connections := 2\<rparr>) (Turn False (Inl WouldBlock))
     (listen_and_serve (default_limits\<lparr>max_concurrent_connections := 2\<rparr>) sample_events)))"
proof -
  let ?l = "default_limits\<lparr>max_concurrent_connections := 2\<rparr>"
  have "ln_workers (listen_and_serve ?l sample_events) = [Finished, Serving]"
       "ln_result (listen_and_serve ?l sample_events) = None"
    by (simp_all add: listen_and_serve_def sample_events_def listener_start_def reap.simps Let_def)
  then show ?thesis using connections_bounded [OF refl, of ?l sample_events "Inl WouldBlock"] by blast
qed

end
