(* ===== verification/Client_Session.thy ===== *)
theory Client_Session
  imports Server_Session
begin

text \<open>
  The client of \<open>src/src/transfer.rs\<close>: the exchange of control messages, the push and the pull
  (\<open>send_core_with_stream\<close>, \<open>recv_core_with_stream\<close>), their entry points and \<open>ClientSession\<close>.

  The record \<open>exchange\<close> holds what the machine and the network answer during one transfer; the record
  \<open>client_run\<close> holds what the transfer leaves behind: its result, the handle, the statistics the
  handle shares, the request written, the datagrams put on the wire and the sink.
\<close>

section \<open>Answers and results\<close>

record 'secret exchange =
  ex_connect :: "nat io"
  ex_secret :: 'secret
  ex_written :: "unit io"
  ex_ack :: "ack io"
  ex_socket :: "unit io"
  ex_events :: "sender_event list"
  ex_actions :: "action list"
  ex_stop :: bool
  ex_finalize_fails :: "io_error option"
  ex_now :: nat

datatype client_outcome = Aborted | Busy | Ended "girth_error + unit"

record client_run =
  cr_result :: client_outcome
  cr_handle :: "transfer_handle option"
  cr_stats :: stats
  cr_hello :: "hello option"
  cr_wire :: "byte list list"
  cr_sink :: "any_sink option"

section \<open>Handles and warm starts\<close>

definition mark_phase :: "transfer_phase \<Rightarrow> transfer_handle option \<Rightarrow> transfer_handle option" where
  "mark_phase phase handle = map_option (set_phase phase) handle"

definition mark_result :: "'secret world \<Rightarrow> client_run \<Rightarrow> client_run" where
  "mark_result w r =
     (case cr_result r of
        Ended (Inl e) \<Rightarrow> r\<lparr>cr_handle := map_option (set_failed (display (wd_io_text w) e)) (cr_handle r)\<rparr>
      | _ \<Rightarrow> r)"

definition warm_default :: rate_warm_start where
  "warm_default = \<lparr>warm_rate_bps = 0, warm_srtt_net_us = 0, warm_base_rtt_us = 0\<rparr>"

definition warm_for_params :: "transfer_params \<Rightarrow> rate_warm_start option \<Rightarrow> rate_warm_start option" where
  "warm_for_params p warm =
     (if \<not> tp_adaptive p then None
      else case warm of Some wm \<Rightarrow> if warm_is_empty wm then None else Some wm | None \<Rightarrow> None)"

definition reject_error :: "ack \<Rightarrow> girth_error" where
  "reject_error a = (if a_auth_required a then AuthDenied else from_server_err (a_err a))"

section \<open>The exchange of control messages\<close>

definition client_keys :: "'secret world \<Rightarrow> 'secret exchange \<Rightarrow> transfer_params \<Rightarrow> 'secret option \<times> byte list option" where
  "client_keys w ex p =
     (if tp_encrypt p then (case gen_keypair (wd_pub_of w) (ex_secret ex) of (sk, pk) \<Rightarrow> (Some sk, Some pk)) else (None, None))"

definition request_mac :: "'secret world \<Rightarrow> byte list option \<Rightarrow> string \<Rightarrow> string \<Rightarrow> int \<Rightarrow> byte list option \<Rightarrow> byte list option" where
  "request_mac w token mode name sz pub_key =
     map_option (\<lambda>t. client_mac (wd_hmac w) t (of_int PROTOCOL_VERSION) mode name (of_int sz) (opt_bytes pub_key)) token"

definition client_hello ::
  "'secret world \<Rightarrow> string \<Rightarrow> string \<Rightarrow> int \<Rightarrow> u32 \<Rightarrow> transfer_params \<Rightarrow> rate_warm_start option \<Rightarrow> byte list option \<Rightarrow>
   byte list option \<Rightarrow> hello"
where
  "client_hello w mode name sz crc p warm_start pub_key mac =
     (let warm = (case warm_start of Some wm \<Rightarrow> wm | None \<Rightarrow> warm_default)
      in \<lparr>h_version = PROTOCOL_VERSION, h_mode = mode, h_name = name, h_size = sz,
          h_block_size = sint (of_nat (tp_block_size p) :: i64), h_rate_bps = tp_rate_bps p, h_max_bps = tp_max_bps p,
          h_adaptive = tp_adaptive p, h_alpha_bps = tp_alpha_bps p, h_crc32c = crc,
          h_warm_rate_bps = warm_rate_bps warm, h_warm_srtt_net_us = warm_srtt_net_us warm,
          h_warm_base_rtt_us = warm_base_rtt_us warm, h_encrypt = tp_encrypt p,
          h_ciphers = ciphers_if (wd_hw w) (tp_encrypt p), h_pub_key = pub_key, h_auth_mac = mac\<rparr>)"

definition verify_server_auth :: "'secret world \<Rightarrow> byte list option \<Rightarrow> byte list option \<Rightarrow> ack \<Rightarrow> girth_error + unit" where
  "verify_server_auth w auth_token mac a =
     (case (auth_token, mac) of
        (Some token, Some cmac) \<Rightarrow>
          (case a_auth_mac a of
             Some smac \<Rightarrow>
               if verify_server_mac (wd_hmac w) token (a_session a) (opt_bytes (a_pub_key a)) cmac smac then Inr ()
               else Inl AuthDenied
           | None \<Rightarrow> Inl AuthDenied)
      | _ \<Rightarrow> Inr ())"

definition accept_ack ::
  "'secret world \<Rightarrow> transfer_params \<Rightarrow> byte list option \<Rightarrow> byte list option \<Rightarrow> 'secret option \<Rightarrow> ack \<Rightarrow>
   girth_error + aead_box option"
where
  "accept_ack w p token mac priv_key a =
     (if \<not> a_ok a then Inl (reject_error a)
      else case verify_server_auth w token mac a of
             Inl e \<Rightarrow> Inl e
           | Inr u \<Rightarrow>
               (case client_crypto (wd_dh w) (wd_hkdf w) (tp_encrypt p) (a_encrypt a) (opt_bytes (a_pub_key a)) (a_session a)
                       (a_cipher a) priv_key of
                  Inl e \<Rightarrow> Inl (Protocol (crypto_text w e))
                | Inr crypto \<Rightarrow> Inr crypto))"

text \<open>Write the request, read the reply, accept it.\<close>

definition handshake ::
  "'secret world \<Rightarrow> 'secret exchange \<Rightarrow> transfer_params \<Rightarrow> byte list option \<Rightarrow> byte list option \<Rightarrow> 'secret option \<Rightarrow>
   girth_error + (ack \<times> aead_box option)"
where
  "handshake w ex p token mac priv_key =
     (case ex_written ex of
        Inl e \<Rightarrow> Inl (from_io e)
      | Inr u \<Rightarrow>
          (case ex_ack ex of
             Inl e \<Rightarrow> Inl (from_io e)
           | Inr a \<Rightarrow> map_sum id (\<lambda>crypto. (a, crypto)) (accept_ack w p token mac priv_key a)))"

text \<open>The peer's data address and a local socket.\<close>

definition data_path :: "'secret world \<Rightarrow> 'secret exchange \<Rightarrow> string \<Rightarrow> ack \<Rightarrow> girth_error + socket_addr" where
  "data_path w ex server_addr a =
     (case resolve_peer (wd_lookup w) server_addr (a_udp_port a) of
        Inl e \<Rightarrow> Inl (from_io e)
      | Inr peer \<Rightarrow> (case ex_socket ex of Inl e \<Rightarrow> Inl (from_io e) | Inr u \<Rightarrow> Inr peer))"

definition of_outcome :: "unit outcome \<Rightarrow> client_outcome" where
  "of_outcome res = (case res of Panicked \<Rightarrow> Aborted | Running \<Rightarrow> Busy | Returned r \<Rightarrow> Ended (map_sum from_io id r))"

section \<open>The push\<close>

definition send_config_of ::
  "ack \<Rightarrow> transfer_params \<Rightarrow> socket_addr \<Rightarrow> aead_box option \<Rightarrow> int \<Rightarrow> nat \<Rightarrow> stats \<Rightarrow> transfer_handle option \<Rightarrow>
   rate_warm_start option \<Rightarrow> send_config"
where
  "send_config_of a p peer crypto sz blocks stats handle warm_start =
     \<lparr>sc_peer = Some peer, sc_expected_peer_ip = Some (addr_ip peer), sc_file_size = of_int sz,
      sc_block_size = tp_block_size p, sc_total_blocks = of_nat blocks, sc_session = a_session a,
      sc_rate = params_rate_config p (tp_rate_bps p), sc_read_workers = tp_read_workers p, sc_crypto = crypto,
      sc_stats = stats, sc_control = map_option th_control handle, sc_warm_start = warm_start\<rparr>"

definition push_data ::
  "'secret world \<Rightarrow> 'secret exchange \<Rightarrow> any_source \<Rightarrow> send_config \<Rightarrow> client_run \<Rightarrow> client_run" where
  "push_data w ex source conf r =
     (case run_send w source conf [] (ex_events ex) (ex_now ex) of
        (res, wire, stats) \<Rightarrow>
          r\<lparr>cr_result := of_outcome res, cr_wire := wire, cr_stats := stats,
            cr_handle := map_option (\<lambda>h. h\<lparr>th_stats := stats\<rparr>)
              (if res = Returned (Inr ()) then mark_phase Complete (cr_handle r) else cr_handle r)\<rparr>)"

definition send_core_with_stream ::
  "'secret world \<Rightarrow> 'secret exchange \<Rightarrow> string \<Rightarrow> any_source \<Rightarrow> string \<Rightarrow> transfer_params \<Rightarrow> stats \<Rightarrow> transfer_handle option \<Rightarrow>
   rate_warm_start option \<Rightarrow> byte list option \<Rightarrow> client_run"
where
  "send_core_with_stream w ex server_addr source name p stats handle warm_start auth_token =
     (let sz = sint (of_nat (any_len source) :: i64);
          r = \<lparr>cr_result = Busy, cr_handle = handle, cr_stats = stats, cr_hello = None, cr_wire = [], cr_sink = None\<rparr>
      in case source_crc32c any_len any_read_exact_at (wd_crc w) source of
           Inl e \<Rightarrow> r\<lparr>cr_result := Ended (Inl (from_io e))\<rparr>
         | Inr crc \<Rightarrow>
             (case client_keys w ex p of (priv_key, pub_key) \<Rightarrow>
                let mac = request_mac w auth_token MODE_SEND name sz pub_key;
                    warm_start = warm_for_params p warm_start;
                    r = r\<lparr>cr_hello := Some (client_hello w MODE_SEND name sz crc p warm_start pub_key mac)\<rparr>
                in case handshake w ex p auth_token mac priv_key of
                     Inl e \<Rightarrow> r\<lparr>cr_result := Ended (Inl e)\<rparr>
                   | Inr (a, crypto) \<Rightarrow>
                       (case data_path w ex server_addr a of
                          Inl e \<Rightarrow> r\<lparr>cr_result := Ended (Inl e)\<rparr>
                        | Inr peer \<Rightarrow>
                            (let r = r\<lparr>cr_handle := mark_phase Transferring handle\<rparr>
                             in case num_blocks sz (tp_block_size p) of
                                  None \<Rightarrow> r\<lparr>cr_result := Aborted\<rparr>
                                | Some blocks \<Rightarrow>
                                    push_data w ex source (send_config_of a p peer crypto sz blocks stats handle warm_start) r))))"

section \<open>The pull\<close>

definition recv_config_of ::
  "ack \<Rightarrow> transfer_params \<Rightarrow> socket_addr \<Rightarrow> aead_box option \<Rightarrow> nat \<Rightarrow> stats \<Rightarrow> transfer_handle option \<Rightarrow>
   rate_warm_start option \<Rightarrow> recv_config"
where
  "recv_config_of a p peer crypto blocks stats handle warm_start =
     \<lparr>rv_file_size = a_size a, rv_block_size = tp_block_size p, rv_total_blocks = blocks, rv_session = a_session a,
      rv_expected_peer_ip = Some (addr_ip peer), rv_read_workers = tp_read_workers p,
      rv_rate = params_rate_config p (tp_rate_bps p), rv_crypto = crypto,
      rv_feedback_interval_us = tp_feedback_interval_us p, rv_net_tick_interval_us = tp_net_tick_interval_us p,
      rv_max_nacks_per_pdu = 0, rv_stats = stats, rv_control = map_option th_control handle,
      rv_warm_start = warm_start, rv_start_peer = Some peer\<rparr>"

text \<open>After the run: finalize, compare the checksum.\<close>

definition verify_pull :: "'secret world \<Rightarrow> 'secret exchange \<Rightarrow> u32 \<Rightarrow> any_sink \<Rightarrow> girth_error + unit" where
  "verify_pull w ex want sink =
     (case ex_finalize_fails ex of
        Some e \<Rightarrow> Inl (from_io e)
      | None \<Rightarrow>
          (case any_read_crc32c (wd_crc w) sink of
             Inl e \<Rightarrow> Inl (from_io e)
           | Inr None \<Rightarrow> Inr ()
           | Inr (Some got) \<Rightarrow> if got \<noteq> want then Inl Integrity else Inr ()))"

definition pull_data ::
  "'secret world \<Rightarrow> 'secret exchange \<Rightarrow> ack \<Rightarrow> nat \<Rightarrow> any_sink \<Rightarrow> recv_config \<Rightarrow> client_run \<Rightarrow> client_run" where
  "pull_data w ex a n sink conf r =
     (case new_receiver n any_write_all_at (wd_crc w 0) (wd_dec w) sink conf of
        None \<Rightarrow> r\<lparr>cr_result := Aborted\<rparr>
      | Some (env, st) \<Rightarrow>
          (case run_receiver env n (ex_stop ex) (ex_actions ex) st of
             (res, st) \<Rightarrow>
               (let stats = rs_stats st;
                    r = r\<lparr>cr_sink := Some (rs_sink st), cr_stats := stats,
                          cr_handle := map_option (\<lambda>h. h\<lparr>th_stats := stats\<rparr>) (cr_handle r)\<rparr>
                in if res \<noteq> Returned (Inr ()) then r\<lparr>cr_result := of_outcome res\<rparr>
                   else let r = r\<lparr>cr_handle := mark_phase Verifying (cr_handle r)\<rparr>
                        in case verify_pull w ex (a_crc32c a) (rs_sink st) of
                             Inl e \<Rightarrow> r\<lparr>cr_result := Ended (Inl e)\<rparr>
                           | Inr u \<Rightarrow> r\<lparr>cr_result := Ended (Inr ()), cr_handle := mark_phase Complete (cr_handle r)\<rparr>)))"

definition recv_core_with_stream ::
  "'secret world \<Rightarrow> 'secret exchange \<Rightarrow> string \<Rightarrow> string \<Rightarrow> any_sink \<Rightarrow> transfer_params \<Rightarrow> stats \<Rightarrow> transfer_handle option \<Rightarrow>
   rate_warm_start option \<Rightarrow> byte list option \<Rightarrow> client_run"
where
  "recv_core_with_stream w ex server_addr name sink p stats handle warm_start auth_token =
     (case client_keys w ex p of (priv_key, pub_key) \<Rightarrow>
        let mac = request_mac w auth_token MODE_RECV name 0 pub_key;
            warm_start = warm_for_params p warm_start;
            r = \<lparr>cr_result = Busy, cr_handle = handle, cr_stats = stats,
                 cr_hello = Some (client_hello w MODE_RECV name 0 0 p warm_start pub_key mac), cr_wire = [],
                 cr_sink = Some sink\<rparr>
        in case handshake w ex p auth_token mac priv_key of
             Inl e \<Rightarrow> r\<lparr>cr_result := Ended (Inl e)\<rparr>
           | Inr (a, crypto) \<Rightarrow>
               (case any_allocate sink (nat (max (a_size a) 0)) of
                  Inl e \<Rightarrow> r\<lparr>cr_result := Ended (Inl (from_io e))\<rparr>
                | Inr sink \<Rightarrow>
                    (let r = r\<lparr>cr_sink := Some sink\<rparr>
                     in case data_path w ex server_addr a of
                          Inl e \<Rightarrow> r\<lparr>cr_result := Ended (Inl e)\<rparr>
                        | Inr peer \<Rightarrow>
                            (let r = r\<lparr>cr_handle := mark_phase Transferring handle\<rparr>
                             in case num_blocks (a_size a) (tp_block_size p) of
                                  None \<Rightarrow> r\<lparr>cr_result := Aborted\<rparr>
                                | Some blocks \<Rightarrow>
                                    pull_data w ex a (worker_count w p) sink
                                      (recv_config_of a p peer crypto blocks stats handle warm_start) r))))"

section \<open>The entry points\<close>

text \<open>A transfer that ended before it began.\<close>

definition failed_run :: "girth_error \<Rightarrow> transfer_handle option \<Rightarrow> stats \<Rightarrow> any_sink option \<Rightarrow> client_run" where
  "failed_run e handle stats sink =
     \<lparr>cr_result = Ended (Inl e), cr_handle = handle, cr_stats = stats, cr_hello = None, cr_wire = [], cr_sink = sink\<rparr>"

definition send_core ::
  "'secret world \<Rightarrow> 'secret exchange \<Rightarrow> string \<Rightarrow> any_source \<Rightarrow> string \<Rightarrow> transfer_params \<Rightarrow> stats \<Rightarrow> transfer_handle option \<Rightarrow>
   rate_warm_start option \<Rightarrow> byte list option \<Rightarrow> client_run"
where
  "send_core w ex server_addr source name p stats handle warm_start auth_token =
     (let handle = mark_phase Connecting handle
      in case ex_connect ex of
           Inl e \<Rightarrow> failed_run (from_io e) handle stats None
         | Inr stream \<Rightarrow> send_core_with_stream w ex server_addr source name p stats handle warm_start auth_token)"

definition recv_core ::
  "'secret world \<Rightarrow> 'secret exchange \<Rightarrow> string \<Rightarrow> string \<Rightarrow> any_sink \<Rightarrow> transfer_params \<Rightarrow> stats \<Rightarrow> transfer_handle option \<Rightarrow>
   rate_warm_start option \<Rightarrow> byte list option \<Rightarrow> client_run"
where
  "recv_core w ex server_addr name sink p stats handle warm_start auth_token =
     (let handle = mark_phase Connecting handle
      in case ex_connect ex of
           Inl e \<Rightarrow> failed_run (from_io e) handle stats (Some sink)
         | Inr stream \<Rightarrow> recv_core_with_stream w ex server_addr name sink p stats handle warm_start auth_token)"

definition client_send_from ::
  "'secret world \<Rightarrow> 'secret exchange \<Rightarrow> string \<Rightarrow> any_source \<Rightarrow> string \<Rightarrow> transfer_params \<Rightarrow> stats option \<Rightarrow> byte list option \<Rightarrow> client_run"
where
  "client_send_from w ex server_addr source name p progress auth_token =
     send_core w ex server_addr source name p (case progress of Some s \<Rightarrow> s | None \<Rightarrow> stats_new (ex_now ex)) None None auth_token"

definition client_send_from_with_handle ::
  "'secret world \<Rightarrow> 'secret exchange \<Rightarrow> string \<Rightarrow> any_source \<Rightarrow> string \<Rightarrow> transfer_params \<Rightarrow> transfer_handle \<Rightarrow> byte list option \<Rightarrow>
   client_run"
where
  "client_send_from_with_handle w ex server_addr source name p handle auth_token =
     mark_result w (send_core w ex server_addr source name p (th_stats handle) (Some handle) None auth_token)"

definition client_recv_into ::
  "'secret world \<Rightarrow> 'secret exchange \<Rightarrow> string \<Rightarrow> string \<Rightarrow> any_sink \<Rightarrow> transfer_params \<Rightarrow> stats option \<Rightarrow> byte list option \<Rightarrow> client_run"
where
  "client_recv_into w ex server_addr name sink p progress auth_token =
     recv_core w ex server_addr name sink p (case progress of Some s \<Rightarrow> s | None \<Rightarrow> stats_new (ex_now ex)) None None auth_token"

definition client_recv_into_with_handle ::
  "'secret world \<Rightarrow> 'secret exchange \<Rightarrow> string \<Rightarrow> string \<Rightarrow> any_sink \<Rightarrow> transfer_params \<Rightarrow> transfer_handle \<Rightarrow> byte list option \<Rightarrow>
   client_run"
where
  "client_recv_into_with_handle w ex server_addr name sink p handle auth_token =
     mark_result w (recv_core w ex server_addr name sink p (th_stats handle) (Some handle) None auth_token)"

text \<open>The file-backed helpers; \<open>opened\<close> and \<open>created\<close> are the answers of \<open>FileSource::open\<close> and
  \<open>FileSink::create\<close> at a path.\<close>

definition client_send ::
  "'secret world \<Rightarrow> 'secret exchange \<Rightarrow> (string \<Rightarrow> any_source io) \<Rightarrow> string \<Rightarrow> string \<Rightarrow> transfer_params \<Rightarrow> client_run" where
  "client_send w ex opened server_addr local_path p =
     (case opened local_path of
        Inl e \<Rightarrow> failed_run (from_io e) None (stats_new (ex_now ex)) None
      | Inr source \<Rightarrow> send_core w ex server_addr source (basename local_path) p (stats_new (ex_now ex)) None None None)"

definition recv_out_path :: "(string \<Rightarrow> bool) \<Rightarrow> string \<Rightarrow> string \<Rightarrow> string" where
  "recv_out_path is_dir out_path remote_name =
     (if out_path = [] \<or> is_dir out_path then path_join out_path (basename remote_name) else out_path)"

definition client_recv ::
  "'secret world \<Rightarrow> 'secret exchange \<Rightarrow> (string \<Rightarrow> bool) \<Rightarrow> (string \<Rightarrow> any_sink io) \<Rightarrow> string \<Rightarrow> string \<Rightarrow> string \<Rightarrow> transfer_params \<Rightarrow>
   client_run"
where
  "client_recv w ex is_dir created server_addr remote_name out_path p =
     (case created (recv_out_path is_dir out_path remote_name) of
        Inl e \<Rightarrow> failed_run (from_io e) None (stats_new (ex_now ex)) None
      | Inr sink \<Rightarrow> recv_core w ex server_addr remote_name sink p (stats_new (ex_now ex)) None None None)"

section \<open>Sessions\<close>

text \<open>\<open>cs_tcp\<close> is the pooled control connection, by the number under which it was opened.\<close>

record client_session =
  cs_server_addr :: string
  cs_tcp :: "nat option"
  cs_warm :: rate_warm_start

definition session_connect :: "nat io \<Rightarrow> string \<Rightarrow> client_session io" where
  "session_connect conn server_addr =
     map_sum id (\<lambda>stream. \<lparr>cs_server_addr = server_addr, cs_tcp = Some stream, cs_warm = warm_default\<rparr>) conn"

definition session_new :: "string \<Rightarrow> client_session" where
  "session_new server_addr = \<lparr>cs_server_addr = server_addr, cs_tcp = None, cs_warm = warm_default\<rparr>"

definition get_or_connect :: "nat io \<Rightarrow> client_session \<Rightarrow> nat io \<times> client_session" where
  "get_or_connect conn s =
     (case cs_tcp s of Some stream \<Rightarrow> (Inr stream, s\<lparr>cs_tcp := None\<rparr>) | None \<Rightarrow> (conn, s))"

definition put_stream :: "nat \<Rightarrow> client_session \<Rightarrow> client_session" where
  "put_stream stream s = s\<lparr>cs_tcp := Some stream\<rparr>"

definition warm_for :: "transfer_params \<Rightarrow> client_session \<Rightarrow> rate_warm_start option" where
  "warm_for p s = warm_for_params p (Some (cs_warm s))"

definition record_warm_start :: "transfer_params \<Rightarrow> nat \<Rightarrow> stats \<Rightarrow> client_session \<Rightarrow> client_session" where
  "record_warm_start p now stats s =
     (if \<not> tp_adaptive p then s
      else let snap = snapshot now stats;
               warm = cs_warm s;
               warm = (if sn_target_rate_bps snap > 0 then warm\<lparr>warm_rate_bps := sn_target_rate_bps snap\<rparr> else warm);
               warm = (if sn_srtt_net_us snap > 0 then warm\<lparr>warm_srtt_net_us := sn_srtt_net_us snap\<rparr> else warm);
               warm = (if sn_base_rtt_us snap > 0 then warm\<lparr>warm_base_rtt_us := sn_base_rtt_us snap\<rparr> else warm)
           in s\<lparr>cs_warm := warm\<rparr>)"

text \<open>What the four operations do with a transfer that was run on a stream.\<close>

definition settle :: "'secret exchange \<Rightarrow> transfer_params \<Rightarrow> nat \<Rightarrow> client_run \<Rightarrow> client_session \<Rightarrow> client_run \<times> client_session" where
  "settle ex p stream r s =
     (if cr_result r = Ended (Inr ()) then (r, put_stream stream (record_warm_start p (ex_now ex) (cr_stats r) s)) else (r, s))"

definition session_send_from ::
  "'secret world \<Rightarrow> 'secret exchange \<Rightarrow> any_source \<Rightarrow> string \<Rightarrow> transfer_params \<Rightarrow> stats option \<Rightarrow> byte list option \<Rightarrow> client_session \<Rightarrow>
   client_run \<times> client_session"
where
  "session_send_from w ex source name p progress auth_token s =
     (let stats = (case progress of Some st \<Rightarrow> st | None \<Rightarrow> stats_new (ex_now ex))
      in case get_or_connect (ex_connect ex) s of
           (Inl e, s) \<Rightarrow> (failed_run (Io e) None stats None, s)
         | (Inr stream, s) \<Rightarrow>
             settle ex p stream
               (send_core_with_stream w ex (cs_server_addr s) source name p stats None (warm_for p s) auth_token) s)"

definition session_send_from_with_handle ::
  "'secret world \<Rightarrow> 'secret exchange \<Rightarrow> any_source \<Rightarrow> string \<Rightarrow> transfer_params \<Rightarrow> transfer_handle \<Rightarrow> byte list option \<Rightarrow> client_session \<Rightarrow>
   client_run \<times> client_session"
where
  "session_send_from_with_handle w ex source name p handle auth_token s =
     (let handle = set_phase Connecting handle
      in case get_or_connect (ex_connect ex) s of
           (Inl e, s) \<Rightarrow> (failed_run (Io e) (Some handle) (th_stats handle) None, s)
         | (Inr stream, s) \<Rightarrow>
             settle ex p stream
               (mark_result w (send_core_with_stream w ex (cs_server_addr s) source name p (th_stats handle) (Some handle)
                  (warm_for p s) auth_token)) s)"

definition session_recv_into ::
  "'secret world \<Rightarrow> 'secret exchange \<Rightarrow> string \<Rightarrow> any_sink \<Rightarrow> transfer_params \<Rightarrow> stats option \<Rightarrow> byte list option \<Rightarrow> client_session \<Rightarrow>
   client_run \<times> client_session"
where
  "session_recv_into w ex name sink p progress auth_token s =
     (let stats = (case progress of Some st \<Rightarrow> st | None \<Rightarrow> stats_new (ex_now ex))
      in case get_or_connect (ex_connect ex) s of
           (Inl e, s) \<Rightarrow> (failed_run (Io e) None stats (Some sink), s)
         | (Inr stream, s) \<Rightarrow>
             settle ex p stream
               (recv_core_with_stream w ex (cs_server_addr s) name sink p stats None (warm_for p s) auth_token) s)"

definition session_recv_into_with_handle ::
  "'secret world \<Rightarrow> 'secret exchange \<Rightarrow> string \<Rightarrow> any_sink \<Rightarrow> transfer_params \<Rightarrow> transfer_handle \<Rightarrow> byte list option \<Rightarrow> client_session \<Rightarrow>
   client_run \<times> client_session"
where
  "session_recv_into_with_handle w ex name sink p handle auth_token s =
     (let handle = set_phase Connecting handle
      in case get_or_connect (ex_connect ex) s of
           (Inl e, s) \<Rightarrow> (failed_run (Io e) (Some handle) (th_stats handle) (Some sink), s)
         | (Inr stream, s) \<Rightarrow>
             settle ex p stream
               (mark_result w (recv_core_with_stream w ex (cs_server_addr s) name sink p (th_stats handle) (Some handle)
                  (warm_for p s) auth_token)) s)"

end
