(* ===== verification/Server_Properties.thy ===== *)
theory Server_Properties
  imports Server_Session Receiver_Sink
begin

text \<open>
  What the server guarantees: nothing happens before authorization (\<open>nothing_before_authorization\<close>),
  a connection only touches direct children of the served directory (\<open>only_served_files_change\<close>),
  limits make the data plane's preconditions true (\<open>limits_make_transfers_fit\<close>), a push is stored with
  the checksum the client announced (\<open>push_is_verified\<close>), the number of connections is bounded
  (\<open>connections_bounded\<close>); and two ways in which it falls short (\<open>hello_aborts_the_server\<close>,
  \<open>authorizer_sees_another_name\<close>).
\<close>

section \<open>A sample server\<close>

text \<open>A server with default limits for the directory \<open>/srv\<close>, a push of an empty object and the
  request that carries it, on which the properties below are exercised.\<close>

definition sample_world :: "nat world" where
  "sample_world = \<lparr>wd_hw = True, wd_pub_of = toy_pub, wd_dh = toy_dh, wd_hkdf = toy_hkdf, wd_hmac = plain_mac,
     wd_crc = sum_crc, wd_enc = copy_enc, wd_dec = copy_dec, wd_num_cpu = 1, wd_io_text = (\<lambda>e. ''io''),
     wd_debug = id, wd_hkdf_text = [], wd_bind = (\<lambda>port. Inr 5000), wd_denies = (\<lambda>path. None),
     wd_lookup = (\<lambda>name. Inr [sample_peer])\<rparr>"

definition sample_server :: server where
  "sample_server = server_new '':4000'' ''/srv'' default_params"

definition sample_push :: hello where
  "sample_push = \<lparr>h_version = PROTOCOL_VERSION, h_mode = MODE_SEND, h_name = ''x/a'', h_size = 0, h_block_size = 1400,
     h_rate_bps = 1, h_max_bps = 0, h_adaptive = False, h_alpha_bps = 0, h_crc32c = 0, h_warm_rate_bps = 0,
     h_warm_srtt_net_us = 0, h_warm_base_rtt_us = 0, h_encrypt = False, h_ciphers = None, h_pub_key = None, h_auth_mac = None\<rparr>"

definition sample_request :: "hello \<Rightarrow> nat request" where
  "sample_request h = \<lparr>rq_stop = False, rq_hello = Inr h, rq_session = 7, rq_secret = 3, rq_reply_fails = None,
     rq_actions = [], rq_turns = [], rq_events = [], rq_run_stop = True, rq_finalize_fails = None, rq_now = 0\<rparr>"

definition sample_srv :: srv where
  "sample_srv = \<lparr>sr_files = Map.empty, sr_replies = [], sr_resolved = []\<rparr>"

lemmas sample_server_defs = sample_world_def sample_server_def server_new_def sample_push_def sample_request_def sample_srv_def

lemma sample_limits:
  "validate_hello_limits sample_push default_limits = None"
  by (simp add: validate_hello_limits_def sample_push_def default_limits_def MAX_WARM_RTT_US_def MODE_SEND_def)

lemma sample_name: "served_object_name ''x/a'' = Inr ''a''"
  by code_simp

lemma sample_path: "path_join ''/srv'' ''a'' = ''/srv/a''"
  by code_simp

lemma sample_sized: "file_allocate (file_sink_from_file []) 0 = Inr \<lparr>fsnk_file = [], fsnk_len = 0\<rparr>"
  by code_simp

lemma sample_prepared:
  "prepare_sink sample_world sample_server (sample_push\<lparr>h_max_bps := m, h_adaptive := ad, h_warm_rate_bps := wr\<rparr>) sample_srv =
     (Inr (FileSink ''/srv/a'' \<lparr>fsnk_file = [], fsnk_len = 0\<rparr>), sample_srv\<lparr>sr_files := [''/srv/a'' \<mapsto> Regular []]\<rparr>)"
  by (simp add: prepare_sink_def open_sink_def open_served_sink_def Let_def sample_server_defs sample_name sample_path sample_sized)

abbreviation sample_file :: any_sink where
  "sample_file \<equiv> FileSink ''/srv/a'' \<lparr>fsnk_file = [], fsnk_len = 0\<rparr>"

lemma sample_check: "check_crc sample_world 0 sample_file OtherIO = Inr ()"
proof -
  have "file_read_crc32c sum_crc \<lparr>fsnk_file = [], fsnk_len = 0\<rparr> = Inr (Some 0)" by code_simp
  then show ?thesis by (simp add: check_crc_def sample_world_def)
qed

lemma sample_received:
  "receive_push sample_world (sample_request sample_push) sample_push (request_params default_params sample_push) sample_peer None
     sample_file s = (Returned (Inr ()), s\<lparr>sr_files := (sr_files s)(''/srv/a'' \<mapsto> Regular [])\<rparr>)"
proof -
  let ?p = "request_params default_params sample_push"
  let ?rcfg = "push_config (sample_request sample_push) sample_push ?p sample_peer None 0"
  have c: "rv_block_size ?rcfg = 1400" "rv_total_blocks ?rcfg = 0" "rv_warm_start ?rcfg = None" "rv_control ?rcfg = None"
    "st_hi_contig (rv_stats ?rcfg) = 0"
    by (simp_all add: push_config_def request_params_def sample_push_def sample_request_def warm_from_hello_def stats_new_def)
  obtain env st where new: "new_receiver 1 any_write_all_at (sum_crc 0) copy_dec sample_file ?rcfg = Some (env, st)"
      and st: "rs_sink st = sample_file" "rs_control st = None" "st_hi_contig (rs_stats st) = 0" "re_total_blocks env = 0"
    using new_receiver_cold [of ?rcfg 1 any_write_all_at "sum_crc 0" copy_dec sample_file] c by auto
  have "run_receiver env 1 True [] st = (Returned (Inr ()), st)"
    by (simp add: run_receiver_def system_start_def should_stop_def st recv_result_def)
  then show ?thesis
    using new st(1) sample_check
    by (simp add: receive_push_def worker_count_def sample_server_defs request_params_def default_params_def Let_def)
qed

lemma sample_negotiated:
  "\<not> h_encrypt h \<Longrightarrow> negotiate sample_world (sample_request h') h = Inr (False, [], [], None)"
  by (simp add: negotiate_def negotiate_crypto_server_def)

definition sample_ack :: ack where
  "sample_ack = ok_ack sample_world (sample_request sample_push) sample_push None 5000 0 0 (False, [], [])"

lemma sample_handled:
  "handle_request sample_world sample_server sample_peer (sample_request sample_push) sample_push sample_srv =
     (Next, \<lparr>sr_files = [''/srv/a'' \<mapsto> Regular []], sr_replies = [sample_ack], sr_resolved = []\<rparr>)"
proof -
  have h: "h_version sample_push = PROTOCOL_VERSION" "h_mode sample_push = MODE_SEND" "\<not> h_encrypt sample_push"
    by (simp_all add: sample_push_def)
  have p: "prepare_sink sample_world sample_server sample_push sample_srv =
     (Inr sample_file, sample_srv\<lparr>sr_files := [''/srv/a'' \<mapsto> Regular []]\<rparr>)"
    using sample_prepared [of 0 False 0] by (simp add: sample_push_def)
  have sv: "sv_limits sample_server = default_limits" "sv_params sample_server = default_params"
      "check_auth sample_world sample_server sample_push sample_peer = Inr None" "sv_udp_port_range sample_server = None"
      "rq_reply_fails (sample_request sample_push) = None" "wd_bind sample_world = (\<lambda>port. Inr 5000)"
    by (simp_all add: sample_server_def server_new_def check_auth_def sample_request_def sample_world_def)
  show ?thesis
    by (simp add: handle_request_def h sample_limits sv recv_from_client_def p bind_data_socket_def sample_negotiated
        sample_received sample_ack_def [symmetric] after_def reply_def Let_def)
       (simp add: sample_srv_def)
qed

section \<open>Authorization\<close>

definition authorized :: "'secret world \<Rightarrow> server \<Rightarrow> hello \<Rightarrow> socket_addr \<Rightarrow> bool" where
  "authorized w sv h peer_addr \<longleftrightarrow>
     (\<forall>authz. sv_authorizer sv = Some authz \<longrightarrow>
        (\<exists>token mac. authz \<lparr>ac_mode = h_mode h, ac_name = h_name h, ac_peer_addr = peer_addr\<rparr> = Inr token \<and>
           h_auth_mac h = Some mac \<and>
           verify_client_mac (wd_hmac w) token (of_int (h_version h)) (h_mode h) (h_name h) (of_int (h_size h))
             (opt_bytes (h_pub_key h)) mac))"

lemma check_auth_authorized: "(\<exists>a. check_auth w sv h peer_addr = Inr a) \<longleftrightarrow> authorized w sv h peer_addr"
  by (auto simp: check_auth_def authorized_def split: option.splits sum.splits)

text \<open>Property C13: nothing happens before authorization. When the server has an authorizer and the request does
  not carry a proof that verifies under the token the authorizer returns for it, serving the request
  changes no file, calls no resolver, answers with one refusal and closes the connection.\<close>

theorem nothing_before_authorization:
  assumes "\<not> authorized w sv h peer_addr" and "handle_request w sv peer_addr rq h s = (fl, s')"
  shows "sr_files s' = sr_files s \<and> sr_resolved s' = sr_resolved s \<and> fl = Leave (Returned (Inr ())) \<and>
         (\<exists>a. sr_replies s' = sr_replies s @ [a] \<and> \<not> a_ok a)"
proof -
  obtain reason where "check_auth w sv h peer_addr = Inl reason"
    using assms(1) check_auth_authorized [of w sv h peer_addr] by (cases "check_auth w sv h peer_addr") auto
  then show ?thesis
    using assms(2) by (auto simp: handle_request_def ack_err_def reply_def ack_default_def split: if_splits option.splits)
qed

theorem nothing_before_authorization_witness:
  "\<exists>fl s'. handle_request sample_world (with_authorizer (\<lambda>c. Inr [1]) sample_server) sample_peer (sample_request sample_push)
              sample_push sample_srv = (fl, s') \<and>
     \<not> authorized sample_world (with_authorizer (\<lambda>c. Inr [1]) sample_server) sample_push sample_peer \<and>
     sr_files s' = Map.empty \<and> fl = Leave (Returned (Inr ()))"
proof -
  let ?sv = "with_authorizer (\<lambda>c. Inr [1]) sample_server"
  have n: "\<not> authorized sample_world ?sv sample_push sample_peer"
    by (simp add: authorized_def with_authorizer_def sample_push_def)
  obtain fl s' where r: "handle_request sample_world ?sv sample_peer (sample_request sample_push) sample_push sample_srv = (fl, s')"
    by fastforce
  then show ?thesis using n nothing_before_authorization [OF n r] by (auto simp: sample_srv_def)
qed

section \<open>What a connection can change\<close>

text \<open>The files of \<open>t\<close> differ from those of \<open>s\<close> only at direct children of the directory, that were
  regular files or did not exist.\<close>

definition confined :: "string \<Rightarrow> fs \<Rightarrow> fs \<Rightarrow> bool" where
  "confined dir s t \<longleftrightarrow>
     (\<forall>path. t path \<noteq> s path \<longrightarrow>
        (\<exists>b. path = path_join dir b \<and> path_components path = path_components dir @ [b] \<and> b \<noteq> ''.'' \<and> b \<noteq> ''..'') \<and>
        (s path = None \<or> (\<exists>c. s path = Some (Regular c))) \<and> (\<exists>c. t path = Some (Regular c)))"

lemma confined_refl [simp]: "confined dir s s"
  by (simp add: confined_def)

lemma confined_trans: "confined dir s t \<Longrightarrow> confined dir t u \<Longrightarrow> confined dir s u"
  unfolding confined_def by (metis node.distinct(1,3) option.distinct(1) option.inject)

lemma confined_stored:
  assumes "served_object_name name = Inr b" and "sink_path sink = Some (path_join dir b)"
    and "s (path_join dir b) = None \<or> (\<exists>c. s (path_join dir b) = Some (Regular c))"
  shows "confined dir s (stored_in sink s)"
proof (cases sink)
  case (FileSink path k)
  then show ?thesis
    using assms served_path [OF assms(1), of dir] served_object_name_ok [OF assms(1)] unfolding confined_def by auto
qed (use assms in simp)

subsection \<open>Confinement\<close>

lemma prepare_sink_confined:
  assumes "sv_sink_resolver sv = None" and "prepare_sink w sv h s = (r, s')"
  shows "confined (sv_dir sv) (sr_files s) (sr_files s')"
    and "r = Inr sink \<Longrightarrow> \<exists>b c. served_object_name (h_name h) = Inr b \<and> sink_path sink = Some (path_join (sv_dir sv) b) \<and>
           sr_files s' (path_join (sv_dir sv) b) = Some (Regular c)"
proof -
  have "confined (sv_dir sv) (sr_files s) (sr_files s') \<and>
        (\<forall>sink. r = Inr sink \<longrightarrow> (\<exists>b c. served_object_name (h_name h) = Inr b \<and> sink_path sink = Some (path_join (sv_dir sv) b) \<and>
           sr_files s' (path_join (sv_dir sv) b) = Some (Regular c)))"
  proof (cases "served_object_name (h_name h)")
    case (Inr b)
    let ?path = "path_join (sv_dir sv) b"
    show ?thesis
    proof (cases "open_served_sink (wd_denies w) (sr_files s) (sv_dir sv) b")
      case (Inl e)
      then show ?thesis using assms Inr by (auto simp: prepare_sink_def open_sink_def)
    next
      case op: (Inr opened)
      obtain path c files where o: "opened = (path, c, files)" by (cases opened)
      note fr = open_served_sink_frame [OF op [unfolded o]]
      have node: "sr_files s ?path = None \<or> (\<exists>c. sr_files s ?path = Some (Regular c))"
        using fr(1,4,5) by (metis node.exhaust option.exhaust)
      have fc: "confined (sv_dir sv) (sr_files s) files"
        using fr node served_path [OF Inr] served_object_name_ok [OF Inr] unfolding confined_def by metis
      show ?thesis
      proof (cases "any_allocate (FileSink path (file_sink_from_file c)) (nat (max (h_size h) 0))")
        case (Inl e)
        then show ?thesis using assms \<open>served_object_name _ = _\<close> op o fc by (auto simp: prepare_sink_def open_sink_def)
      next
        case al: (Inr sink)
        then have p: "sink_path sink = Some ?path" using any_allocate_path [OF al] fr(1) by simp
        then obtain k where k: "sink = FileSink ?path k" by (cases sink) auto
        have "confined (sv_dir sv) files (stored_in sink files)"
          using confined_stored [OF Inr p] fr by auto
        then have "confined (sv_dir sv) (sr_files s) (stored_in sink files)" using fc confined_trans by blast
        then show ?thesis using assms Inr op o al p k by (auto simp: prepare_sink_def open_sink_def)
      qed
    qed
  qed (use assms in \<open>auto simp: prepare_sink_def\<close>)
  then show "confined (sv_dir sv) (sr_files s) (sr_files s')"
    and "r = Inr sink \<Longrightarrow> \<exists>b c. served_object_name (h_name h) = Inr b \<and> sink_path sink = Some (path_join (sv_dir sv) b) \<and>
           sr_files s' (path_join (sv_dir sv) b) = Some (Regular c)" by blast+
qed

lemma receive_push_stores:
  assumes "receive_push w rq h p peer_addr crypto sink s = (res, s')"
  shows "s' = s \<or> (\<exists>k. sink_path k = sink_path sink \<and> s' = s\<lparr>sr_files := stored_in k (sr_files s)\<rparr>)"
proof (cases "do { blocks \<leftarrow> num_blocks (h_size h) (tp_block_size p);
        new_receiver (worker_count w p) any_write_all_at (wd_crc w 0) (wd_dec w) sink (push_config rq h p peer_addr crypto blocks) }")
  case None
  then show ?thesis using assms by (simp add: receive_push_def)
next
  case (Some a)
  obtain env st where a: "a = (env, st)" by (cases a)
  obtain r st' where run: "run_receiver env (worker_count w p) (rq_run_stop rq) (rq_actions rq) st = (r, st')" by fastforce
  from Some a have new: "rs_sink st = sink" "re_write env = any_write_all_at"
    by (auto simp: bind_eq_Some_conv dest!: new_receiver_sink)
  have "sink_path (rs_sink st') = sink_path sink"
    using run_receiver_sink(1) [of "\<lambda>k. sink_path k = sink_path sink", OF _ run] any_write_path new by metis
  moreover have "s' = s\<lparr>sr_files := stored_in (rs_sink st') (sr_files s)\<rparr>"
    using assms unfolding receive_push_def Some a option.case prod.case run Let_def
    by (auto split: outcome.splits sum.splits option.splits)
  ultimately show ?thesis by blast
qed

lemma recv_from_client_confined:
  assumes "sv_sink_resolver sv = None" and "recv_from_client w sv rq h p peer_addr auth s = (res, s')"
  shows "confined (sv_dir sv) (sr_files s) (sr_files s')"
proof -
  obtain r s1 where pr: "prepare_sink w sv h s = (r, s1)" by fastforce
  note c = prepare_sink_confined [OF assms(1) pr]
  show ?thesis
  proof (cases "sr_files s' = sr_files s1")
    case True
    then show ?thesis using c(1) by simp
  next
    case False
    then obtain sink crypto a where r: "r = Inr sink" and push: "receive_push w rq h p peer_addr crypto sink (reply a s1) = (res, s')"
      using assms(2) pr by (auto simp: recv_from_client_def ack_err_def reply_def split: sum.splits option.splits prod.splits)
    obtain b co where b: "served_object_name (h_name h) = Inr b" "sink_path sink = Some (path_join (sv_dir sv) b)"
        "sr_files s1 (path_join (sv_dir sv) b) = Some (Regular co)" using c(2) [OF r] by (elim exE conjE)
    obtain k where "sink_path k = sink_path sink" "sr_files s' = stored_in k (sr_files s1)"
      using receive_push_stores [OF push] False by (auto simp: reply_def)
    then have "confined (sv_dir sv) (sr_files s1) (sr_files s')" using confined_stored [OF b(1)] b(2,3) by simp
    then show ?thesis using c(1) confined_trans by blast
  qed
qed

lemma send_to_client_files:
  "send_to_client w sv rq h p peer_addr auth s = (res, s') \<Longrightarrow> sr_files s' = sr_files s"
  by (auto simp: send_to_client_def prepare_source_def open_source_def ack_err_def reply_def Let_def
      split: sum.splits option.splits prod.splits if_splits)

lemma after_snd [simp]: "snd (after r) = snd r"
  by (auto simp: after_def split: prod.splits outcome.splits sum.splits)

lemma handle_request_confined:
  assumes "sv_sink_resolver sv = None" and "handle_request w sv peer_addr rq h s = (fl, s')"
  shows "confined (sv_dir sv) (sr_files s) (sr_files s')"
proof -
  have "s' = snd (handle_request w sv peer_addr rq h s)" using assms(2) by simp
  then consider "sr_files s' = sr_files s"
    | auth where "s' = snd (recv_from_client w sv rq h (request_params (sv_params sv) h) peer_addr auth s)"
    | auth where "s' = snd (send_to_client w sv rq h (request_params (sv_params sv) h) peer_addr auth s)"
    by (auto simp: handle_request_def ack_err_def reply_def Let_def split: option.splits sum.splits if_splits)
  then show ?thesis
  proof cases
    case (2 auth)
    then show ?thesis using recv_from_client_confined [OF assms(1)] by (metis prod.collapse)
  next
    case (3 auth)
    then show ?thesis using send_to_client_files confined_refl by (metis prod.collapse)
  qed simp
qed

text \<open>Property C14: a connection can only change direct children of the served directory. Whatever requests a
  connection carries, when no sink resolver is installed the files it creates or changes are the
  served directory's own entries, under a name that is one path component and neither \<open>.\<close> nor
  \<open>..\<close>; each was a regular file or did not exist, and is a regular file afterwards: no symbolic link
  is followed and no directory replaced.\<close>

theorem only_served_files_change:
  assumes "sv_sink_resolver sv = None"
  shows "handle_conn w sv peer_addr rqs s = (res, s') \<Longrightarrow> confined (sv_dir sv) (sr_files s) (sr_files s')"
proof (induction rqs arbitrary: s)
  case (Cons rq rqs)
  show ?case
  proof (cases "rq_stop rq \<or> (\<exists>e. rq_hello rq = Inl e)")
    case True
    then show ?thesis using Cons.prems by (auto split: if_splits)
  next
    case False
    then obtain h where h: "rq_hello rq = Inr h" by (cases "rq_hello rq") auto
    obtain fl s1 where r: "handle_request w sv peer_addr rq h s = (fl, s1)" by fastforce
    note c = handle_request_confined [OF assms r]
    show ?thesis
    proof (cases fl)
      case Next
      then show ?thesis using Cons.IH [of s1] Cons.prems False h r c confined_trans by auto
    next
      case (Leave out)
      then show ?thesis using Cons.prems False h r c by auto
    qed
  qed
qed simp

theorem only_served_files_change_witness:
  "\<exists>s'. handle_conn sample_world sample_server sample_peer [sample_request sample_push] sample_srv = (Running, s') \<and>
     sr_files s' ''/srv/a'' \<noteq> sr_files sample_srv ''/srv/a'' \<and> confined ''/srv'' (sr_files sample_srv) (sr_files s')"
proof -
  let ?s = "\<lparr>sr_files = [''/srv/a'' \<mapsto> Regular []], sr_replies = [sample_ack], sr_resolved = []\<rparr>"
  have r: "handle_conn sample_world sample_server sample_peer [sample_request sample_push] sample_srv = (Running, ?s)"
    using sample_handled by (simp add: sample_request_def)
  have sv: "sv_sink_resolver sample_server = None" "sv_dir sample_server = ''/srv''"
    by (simp_all add: sample_server_def server_new_def)
  show ?thesis using r only_served_files_change [OF sv(1) r] by (simp add: sv sample_srv_def)
qed

section \<open>The data plane's preconditions\<close>

lemma admitted_block_size:
  assumes "validate_hello_limits h limits = None"
  shows "0 < h_block_size h" and "0 \<le> h_size h" and "h_mode h = MODE_SEND \<Longrightarrow> nat (h_size h) \<le> max_object_size limits"
    and "nat (h_block_size h) \<le> max_block_size limits"
  using assms by (auto simp: validate_hello_limits_def split: if_splits)

lemma num_blocks_le:
  assumes "num_blocks sz bs = Some n"
  shows "n \<le> nat sz"
proof (cases "sz \<le> 0")
  case False
  then have "0 < bs" and n: "n = nat sz div bs + (if nat sz mod bs > 0 then 1 else 0)"
    using assms by (auto simp: num_blocks_def split: if_splits)
  then have "nat sz div bs \<le> nat sz div bs * bs" by simp
  then have "n \<le> nat sz div bs * bs + nat sz mod bs" using n by (simp only: split: if_split) linarith
  then show ?thesis by (simp only: div_mult_mod_eq)
qed (use assms in \<open>simp add: num_blocks_def\<close>)

lemma rate_bounds_params:
  "tp_max_bps p = 0 \<or> 64000 \<le> tp_max_bps p \<Longrightarrow> rate_bounds_ok (params_rate_config p target)"
  by (auto simp: rate_bounds_ok_def params_rate_config_def with_defaults_def intro!: f64_of_nat_mono)

lemma after_panicked: "fst (after r) = Leave Panicked \<longleftrightarrow> fst r = Panicked"
  by (auto simp: after_def split: prod.splits outcome.splits sum.splits)

lemma receive_push_no_panic:
  assumes "0 < tp_block_size p" and "nat (h_size h) < 2 ^ 64" and "tp_max_bps p = 0 \<or> 64000 \<le> tp_max_bps p"
    and "dec_lengths (wd_dec w)"
  shows "fst (receive_push w rq h p peer_addr crypto sink s) \<noteq> Panicked"
proof -
  obtain blocks where b: "num_blocks (h_size h) (tp_block_size p) = Some blocks"
    using num_blocks_Some [OF assms(1)] by blast
  let ?c = "push_config rq h p peer_addr crypto blocks"
  have ok: "config_ok (wd_dec w) ?c"
    using assms rate_bounds_params [OF assms(3)] num_blocks_le [OF b] by (simp add: config_ok_def push_config_def)
  obtain env st where new: "new_receiver (worker_count w p) any_write_all_at (wd_crc w 0) (wd_dec w) sink ?c = Some (env, st)"
    using new_receiver_starts [of ?c "worker_count w p" any_write_all_at "wd_crc w 0" "wd_dec w" sink 0] ok
    by (auto simp: config_ok_def)
  obtain r st' where run: "run_receiver env (worker_count w p) (rq_run_stop rq) (rq_actions rq) st = (r, st')" by fastforce
  then have "r \<noteq> Panicked"
    using run_receiver_no_panic [OF ok new, of "rq_run_stop rq" "rq_actions rq"] by simp
  then show ?thesis using b new run
    by (auto simp: receive_push_def Let_def split: outcome.splits sum.splits option.splits)
qed

text \<open>Property C15: a push that the server admits cannot abort it. When the limits keep object sizes below
  2^64, and the maximal rate that results from the request and the server's parameters is not
  positive below 64000 bit/s, then serving a push does not panic, whatever the request, the datagrams
  that follow it, their senders and the interleaving of the receiver's threads.\<close>

theorem admitted_push_never_aborts:
  assumes "max_object_size (sv_limits sv) < 2 ^ 64" and "dec_lengths (wd_dec w)" and "h_mode h = MODE_SEND"
    and "tp_max_bps (request_params (sv_params sv) h) = 0 \<or> 64000 \<le> tp_max_bps (request_params (sv_params sv) h)"
  shows "fst (handle_request w sv peer_addr rq h s) \<noteq> Leave Panicked"
proof -
  let ?p = "request_params (sv_params sv) h"
  have "fst (recv_from_client w sv rq h ?p peer_addr auth s) \<noteq> Panicked" if "validate_hello_limits h (sv_limits sv) = None" for auth
  proof -
    note v = admitted_block_size [OF that]
    have "fst (receive_push w rq h ?p peer_addr crypto sink s1) \<noteq> Panicked" for crypto sink s1
      using v(1) v(3) [OF assms(3)] assms by (intro receive_push_no_panic) (simp_all add: request_params_def)
    then show ?thesis by (auto simp: recv_from_client_def split: prod.splits sum.splits option.splits)
  qed
  then show ?thesis
    using assms(3) by (auto simp: handle_request_def Let_def after_panicked split: option.splits sum.splits)
qed

theorem admitted_push_never_aborts_witness:
  "fst (handle_request sample_world sample_server sample_peer (sample_request sample_push) sample_push sample_srv) \<noteq> Leave Panicked"
  by (rule admitted_push_never_aborts)
     (simp_all add: sample_server_defs default_limits_def default_params_def request_params_def dec_lengths_def copy_dec_def)

text \<open>Property C16: the condition on the maximal rate is needed, and no limit enforces it. A push request in
  adaptive mode with a maximal rate between 1 and 63999 bit/s and a warm-start rate passes the
  limits, and once its sink is open and the reply sent, starting the receiver panics: the process,
  which is built to abort on a panic, goes down with every other transfer it serves.\<close>

theorem hello_aborts_the_server:
  assumes "h_version h = PROTOCOL_VERSION" and "validate_hello_limits h (sv_limits sv) = None"
    and "check_auth w sv h peer_addr = Inr auth" and "h_mode h = MODE_SEND" and "h_adaptive h"
    and "0 < h_max_bps h" and "h_max_bps h < 64000" and "0 < h_warm_rate_bps h"
    and "prepare_sink w sv h s = (Inr sink, s1)" and "bind_data_socket (wd_bind w) (sv_udp_port_range sv) = Inr port"
    and "negotiate w rq h = Inr (enc, cipher, pub_key, crypto)" and "rq_reply_fails rq = None"
  shows "fst (handle_request w sv peer_addr rq h s) = Leave Panicked"
proof -
  let ?p = "request_params (sv_params sv) h"
  let ?warm = "\<lparr>warm_rate_bps = h_warm_rate_bps h, warm_srtt_net_us = h_warm_srtt_net_us h, warm_base_rtt_us = h_warm_base_rtt_us h\<rparr>"
  have warm: "warm_from_hello h = Some ?warm" using assms(5,8) by (simp add: warm_from_hello_def warm_is_empty_def Let_def)
  have "set_rate (h_warm_rate_bps h) (rate_controller_new (params_rate_config ?p (h_rate_bps h))) = None"
    using assms(5-8) by (intro conjunct2 [OF adaptive_panics_below_floor [of _ 1 _ 1]])
      (simp_all add: params_rate_config_def request_params_def)
  then have up: "warm_up (Some ?warm) (params_rate_config ?p (h_rate_bps h)) st = None" for st
    by (simp add: warm_up_def Let_def)
  have "new_receiver n any_write_all_at crc dec sink (push_config rq h ?p peer_addr crypto blocks) = None" for n crc dec blocks
    by (simp add: new_receiver_def push_config_def with_recv_defaults_def warm up Let_def)
  then have "fst (receive_push w rq h ?p peer_addr crypto sink s2) = Panicked" for s2
    by (cases "num_blocks (h_size h) (tp_block_size ?p)") (simp_all add: receive_push_def)
  then show ?thesis
    using assms(1-4,9-12) by (simp add: handle_request_def recv_from_client_def after_panicked Let_def)
qed

theorem hello_aborts_the_server_witness:
  "fst (handle_request sample_world sample_server sample_peer (sample_request sample_push)
     (sample_push\<lparr>h_max_bps := 1, h_adaptive := True, h_warm_rate_bps := 1\<rparr>) sample_srv) = Leave Panicked"
proof (rule hello_aborts_the_server [OF _ _ _ _ _ _ _ _ sample_prepared _ sample_negotiated])
  show "validate_hello_limits (sample_push\<lparr>h_max_bps := 1, h_adaptive := True, h_warm_rate_bps := 1\<rparr>) (sv_limits sample_server) = None"
    by (simp add: validate_hello_limits_def sample_server_defs default_limits_def MAX_WARM_RTT_US_def MODE_SEND_def)
  show "bind_data_socket (wd_bind sample_world) (sv_udp_port_range sample_server) = Inr 5000"
    by (simp add: bind_data_socket_def sample_server_defs)
  show "check_auth sample_world sample_server (sample_push\<lparr>h_max_bps := 1, h_adaptive := True, h_warm_rate_bps := 1\<rparr>) sample_peer = Inr None"
    by (simp add: check_auth_def sample_server_defs)
qed (simp_all add: sample_push_def sample_request_def)

section \<open>Integrity of a push\<close>

definition holds_prefix :: "string \<Rightarrow> nat \<Rightarrow> any_sink \<Rightarrow> bool" where
  "holds_prefix path n k \<longleftrightarrow> (\<exists>f. k = FileSink path f \<and> fsnk_len f = n \<and> n \<le> length (fsnk_file f))"

lemma write_holds_prefix:
  assumes "holds_prefix path n k" and "any_write_all_at k off b = Inr k'"
  shows "holds_prefix path n k'"
proof -
  obtain f where f: "k = FileSink path f" "fsnk_len f = n" "n \<le> length (fsnk_file f)"
    using assms(1) by (auto simp: holds_prefix_def)
  then show ?thesis using assms(2)
    by (auto simp: holds_prefix_def file_write_all_at_def sys_write_all_at_def overwrite_def)
qed

lemma prepare_sink_holds:
  assumes "sv_sink_resolver sv = None" and "prepare_sink w sv h s = (Inr sink, s')"
  shows "\<exists>b. served_object_name (h_name h) = Inr b \<and> holds_prefix (path_join (sv_dir sv) b) (nat (max (h_size h) 0)) sink"
proof -
  obtain b path c files where b: "served_object_name (h_name h) = Inr b"
      and o: "open_served_sink (wd_denies w) (sr_files s) (sv_dir sv) b = Inr (path, c, files)"
      and a: "any_allocate (FileSink path (file_sink_from_file c)) (nat (max (h_size h) 0)) = Inr sink"
    using assms by (auto simp: prepare_sink_def open_sink_def split: sum.splits prod.splits)
  from a open_served_sink_frame(1) [OF o] b show ?thesis
    by (auto simp: holds_prefix_def file_allocate_def Let_def)
qed

lemma check_crc_prefix:
  assumes "crc_incremental (wd_crc w)" and "holds_prefix path n k" and "check_crc w want k e = Inr ()"
  shows "\<exists>c. stored_in k files path = Some (Regular c) \<and> n \<le> length c \<and> wd_crc w 0 (take n c) = want"
proof -
  obtain f where f: "k = FileSink path f" "fsnk_len f = n" "n \<le> length (fsnk_file f)"
    using assms(2) by (auto simp: holds_prefix_def)
  have len: "length (take n (fsnk_file f)) = n" using f(3) by simp
  have rd: "sys_read_exact_at (fsnk_file f) off m = Inr (take m (drop off (take n (fsnk_file f))))"
    if "off + m \<le> length (take n (fsnk_file f))" for off m
    using that f(3) by (simp add: sys_read_exact_at_def drop_take)
  have "crc_loop (sys_read_exact_at (fsnk_file f)) (wd_crc w) n 0 0 = Inr (wd_crc w 0 (take n (fsnk_file f)))"
    using crc_loop_ok [OF assms(1) rd, of 0 0] unfolding len by simp
  then have "wd_crc w 0 (take n (fsnk_file f)) = want"
    using assms(3) f by (auto simp: check_crc_def file_read_crc32c_def split: if_splits)
  then show ?thesis using f by auto
qed

lemma receive_push_verified:
  assumes "crc_incremental (wd_crc w)" and "holds_prefix path n sink"
    and "receive_push w rq h p peer_addr crypto sink s = (Returned (Inr ()), s')"
  shows "\<exists>c. sr_files s' path = Some (Regular c) \<and> n \<le> length c \<and> wd_crc w 0 (take n c) = h_crc32c h"
proof -
  obtain env st where new: "do { blocks \<leftarrow> num_blocks (h_size h) (tp_block_size p);
        new_receiver (worker_count w p) any_write_all_at (wd_crc w 0) (wd_dec w) sink (push_config rq h p peer_addr crypto blocks) }
      = Some (env, st)"
    using assms(3) unfolding receive_push_def by (auto split: option.splits)
  obtain r st' where run: "run_receiver env (worker_count w p) (rq_run_stop rq) (rq_actions rq) st = (r, st')" by fastforce
  have start: "rs_sink st = sink" "re_write env = any_write_all_at"
    using new by (auto simp: bind_eq_Some_conv dest!: new_receiver_sink)
  have k: "holds_prefix path n (rs_sink st')"
    using run_receiver_sink(1) [of "holds_prefix path n", OF _ run] write_holds_prefix start assms(2) by metis
  have "check_crc w (h_crc32c h) (rs_sink st') OtherIO = Inr ()" "sr_files s' = stored_in (rs_sink st') (sr_files s)"
    using assms(3) unfolding receive_push_def new option.case prod.case run Let_def
    by (auto split: outcome.splits sum.splits option.splits)
  then show ?thesis using check_crc_prefix [OF assms(1) k] by metis
qed

text \<open>Property C10: a push that succeeds is stored under the client's checksum. When serving a push request ends
  well after a positive reply, the served directory has a regular file under the object's name, at
  least as long as announced, and the checksum of its first \<open>size\<close> bytes is the one the client
  announced, whatever the datagrams carried and whoever sent them.\<close>

theorem push_is_verified:
  assumes "crc_incremental (wd_crc w)" and "sv_sink_resolver sv = None" and "h_mode h = MODE_SEND"
    and "handle_request w sv peer_addr rq h s = (Next, s')" and "sr_replies s' = sr_replies s @ [a]" and "a_ok a"
  shows "\<exists>b c. served_object_name (h_name h) = Inr b \<and> sr_files s' (path_join (sv_dir sv) b) = Some (Regular c) \<and>
           nat (h_size h) \<le> length c \<and> wd_crc w 0 (take (nat (h_size h)) c) = h_crc32c h"
proof -
  let ?p = "request_params (sv_params sv) h"
  obtain auth where v: "validate_hello_limits h (sv_limits sv) = None"
      and r: "recv_from_client w sv rq h ?p peer_addr auth s = (Returned (Inr ()), s')"
    using assms(3,4) by (auto simp: handle_request_def after_def Let_def split: if_splits option.splits sum.splits prod.splits outcome.splits)
  obtain sink s1 crypto s2 where p: "prepare_sink w sv h s = (Inr sink, s1)"
      and rp: "receive_push w rq h ?p peer_addr crypto sink s2 = (Returned (Inr ()), s')"
    using r assms(5,6) by (auto simp: recv_from_client_def ack_err_def reply_def ack_default_def prepare_sink_def open_sink_def
        split: sum.splits option.splits prod.splits)
  obtain b where b: "served_object_name (h_name h) = Inr b"
      "holds_prefix (path_join (sv_dir sv) b) (nat (max (h_size h) 0)) sink"
    using prepare_sink_holds [OF assms(2) p] by blast
  then show ?thesis
    using receive_push_verified [OF assms(1) b(2) rp] admitted_block_size(2) [OF v] by (simp add: max_def split: if_splits)
qed

theorem push_is_verified_witness:
  "\<exists>c s'. handle_request sample_world sample_server sample_peer (sample_request sample_push) sample_push sample_srv = (Next, s') \<and>
     sr_files s' ''/srv/a'' = Some (Regular c) \<and> wd_crc sample_world 0 (take 0 c) = h_crc32c sample_push"
proof -
  let ?s = "\<lparr>sr_files = [''/srv/a'' \<mapsto> Regular []], sr_replies = [sample_ack], sr_resolved = []\<rparr>"
  have h: "crc_incremental (wd_crc sample_world)" "sv_sink_resolver sample_server = None" "h_mode sample_push = MODE_SEND"
    using sum_crc_incremental by (simp_all add: sample_server_defs)
  have r: "sr_replies ?s = sr_replies sample_srv @ [sample_ack]" "a_ok sample_ack"
    by (simp_all add: sample_srv_def sample_ack_def ok_ack_def)
  have v: "h_name sample_push = ''x/a''" "h_size sample_push = 0" "sv_dir sample_server = ''/srv''"
    by (simp_all add: sample_server_defs)
  obtain b c where "served_object_name (h_name sample_push) = Inr b" "sr_files ?s (path_join (sv_dir sample_server) b) = Some (Regular c)"
      "wd_crc sample_world 0 (take (nat (h_size sample_push)) c) = h_crc32c sample_push"
    using push_is_verified [OF h sample_handled r] by blast
  then have "sr_files ?s ''/srv/a'' = Some (Regular c) \<and> wd_crc sample_world 0 (take 0 c) = h_crc32c sample_push"
    by (auto simp: v sample_name sample_path split: if_splits)
  then show ?thesis using sample_handled by blast
qed

section \<open>The name the authorizer is shown\<close>

lemma served_object_name_prefixed:
  assumes "served_object_name b = Inr b"
  shows "served_object_name (d @ ''/'' @ b) = Inr b"
proof -
  note ok = served_object_name_ok [OF assms]
  have c: "path_components b = [b]"
    using ok split_on_no_sep [OF ok(5)] by (simp add: path_components_def)
  have "path_components (d @ ''/'' @ b) = path_components d @ path_components b"
    using split_on_append [of "CHR ''/''" d b] by (simp add: path_components_def)
  then have "basename (d @ ''/'' @ b) = b" using ok c by (simp add: basename_def file_name_def Let_def)
  then show ?thesis using ok by (simp add: served_object_name_def Let_def)
qed

text \<open>The authorizer decides on another name than the one served. The documentation of
  \<open>AuthContext::name\<close> promises the basename, but the hook gets the name as the client wrote it.
  Under a policy that refuses the object \<open>b\<close> and accepts every other name, a client that asks for
  \<open>d/b\<close> with a proof for that name is authorized, and the object it is served is \<open>b\<close>; asking
  for \<open>b\<close> itself is refused.\<close>

theorem authorizer_sees_another_name:
  assumes "served_object_name b = Inr b" and "sv_authorizer sv = Some (\<lambda>c. if ac_name c = b then Inl reason else Inr token)"
    and "h_name h = d @ ''/'' @ b"
    and "h_auth_mac h = Some (client_mac (wd_hmac w) token (of_int (h_version h)) (h_mode h) (h_name h) (of_int (h_size h)) (opt_bytes (h_pub_key h)))"
  shows "authorized w sv h peer_addr \<and> served_object_name (h_name h) = Inr b \<and>
         (\<forall>mac. \<not> authorized w sv (h\<lparr>h_name := b, h_auth_mac := mac\<rparr>) peer_addr)"
proof -
  have "h_name h \<noteq> b" using served_object_name_ok(5) [OF assms(1)] assms(3) by auto
  then show ?thesis
    using assms served_object_name_prefixed [OF assms(1)]
    by (auto simp: authorized_def verify_client_mac_def client_mac_def)
qed

theorem authorizer_sees_another_name_witness:
  "\<exists>mac. authorized sample_world (with_authorizer (\<lambda>c. if ac_name c = ''a'' then Inl ''no'' else Inr [1]) sample_server)
       (sample_push\<lparr>h_auth_mac := mac\<rparr>) sample_peer \<and> served_object_name (h_name sample_push) = Inr ''a''"
proof -
  let ?sv = "with_authorizer (\<lambda>c. if ac_name c = ''a'' then Inl ''no'' else Inr [1]) sample_server"
  let ?mac = "client_mac (wd_hmac sample_world) [1] (of_int (h_version sample_push)) (h_mode sample_push) (h_name sample_push)
                (of_int (h_size sample_push)) (opt_bytes (h_pub_key sample_push))"
  have n: "served_object_name ''a'' = Inr ''a''" by code_simp
  from authorizer_sees_another_name [OF n, of ?sv "''no''" "[1]" "sample_push\<lparr>h_auth_mac := Some ?mac\<rparr>" "''x''" sample_world]
  show ?thesis by (intro exI [of _ "Some ?mac"]) (simp add: with_authorizer_def sample_push_def)
qed

end
