(* ===== verification/Data_Path.thy ===== *)
theory Data_Path
  imports Sender_Properties Receiver_Sink Served_Objects
begin

text \<open>
  The two data planes together: a datagram of a sender is genuine for a receiver that was set up for
  the same session (\<open>linked\<close>), so what the sender puts on the wire, delivered in any order, any
  number of times or not at all, is reassembled by the receiver.
\<close>

definition linked :: "sender_env \<Rightarrow> dec_fun \<Rightarrow> 'k recv_env \<Rightarrow> bool" where
  "linked se dec env \<longleftrightarrow>
     re_crc env = se_crc se \<and> re_dec env = dec \<and> re_crypto env = se_crypto se \<and> re_session env = se_session se \<and>
     re_block_size env = se_block_size se \<and> re_total_blocks env = unat (se_total_blocks se)"

text \<open>What the network may do: lose, repeat and reorder what was sent, and bring anything else that is not
  a DATA datagram.\<close>

fun delivers :: "byte list set \<Rightarrow> action \<Rightarrow> bool" where
  "delivers sent (Rx w now pkt addr) \<longleftrightarrow> pkt \<in> sent \<or> decode_data_header pkt = Some None"
| "delivers sent a \<longleftrightarrow> True"

lemma data_pdu_genuine:
  assumes "data_pdu (re_crc env) (re_dec env) (re_crypto env) (re_session env) rex pkt seq payload" and "dec_lengths (re_dec env)"
    and "unat seq < re_total_blocks env \<longrightarrow> payload = block_of data (re_block_size env) (unat seq)"
  shows "genuine env data pkt"
proof -
  obtain h body where pkt: "pkt = data_header_bytes h @ body" and h: "dh_block_seq h = seq" "length payload < 2 ^ 16"
      "dh_payload_len h = of_nat (length payload)" and body: "data_body (re_crc env) (re_dec env) (re_crypto env) h body payload"
    using assms(1) by (auto simp: data_pdu_def)
  have len: "unat (dh_payload_len h) = length payload" using h(2,3) by (simp add: unat_of_nat)
  have p: "p = payload" if "open_payload env h pkt = Some (Some (Some p))" for p
  proof (cases "re_crypto env")
    case None
    then show ?thesis using that body len open_payload_plain [OF None, of h pkt]
      by (auto simp: pkt data_body_def Let_def split: if_splits)
  next
    case (Some c)
    then show ?thesis using that body len h(1) open_payload_crypto [OF assms(2) _ Some, of pkt h]
      by (auto simp: pkt data_body_def Let_def split: if_splits)
  qed
  show ?thesis unfolding genuine_def using p assms(3) h(1) by (auto simp: pkt decode_data_header_bytes)
qed

lemma fin_genuine: "fin_pdu se = Some pkt \<Longrightarrow> genuine env data pkt"
  by (auto simp: genuine_def fin_pdu_def encode_fin_eq subslice_def decode_data_header_def size_defs)

lemma wire_log_genuine:
  assumes "wire_log q se dec data k wire k'" and "linked se dec env" and "dec_lengths dec"
  shows "\<forall>pkt \<in> set wire. genuine env data pkt"
  using assms(1)
proof induction
  case (log_Rex k ps k' p seq payload)
  then have "genuine env data p"
    using assms(2,3) by (intro data_pdu_genuine [of env True p seq payload]) (simp_all add: linked_def)
  then show ?case using log_Rex by simp
next
  case (log_New k ps k' p)
  then have "unat (of_nat k' :: u64) = k'"
    using unsigned_less [of "se_total_blocks se", where 'a = nat] by (simp add: unat_of_nat)
  then have "genuine env data p"
    using log_New assms(2,3)
    by (intro data_pdu_genuine [of env False p "of_nat k'" "block_of data (se_block_size se) k'"]) (simp_all add: linked_def)
  then show ?case using log_New by simp
qed (auto dest: fin_genuine)

lemma linked_describes:
  "linked se dec env \<Longrightarrow> sender_for se dec data \<Longrightarrow> describes env data"
  by (simp add: describes_def linked_def sender_for_def)

lemma sent_genuine:
  assumes "se = sender_env_of read crc enc (sender_new conf) peer" and "sender_for se dec data" and "source_reads read data"
    and "run_sender se (buf_size se) es (sender_start (sender_new conf) (buf_size se) now) = Some (res, wire, st)"
    and "linked se dec env" and "dec_lengths dec"
  shows "\<forall>pkt \<in> set wire. genuine env data pkt"
proof -
  have rd: "source_reads (se_read se) data" using assms(1,3) by (simp add: sender_env_of_def)
  have "sender_inv False se dec data 0 (sender_start (sender_new conf) (buf_size se) now)"
    by (rule sender_start_inv [OF assms(2,1)]) simp
  from run_sender_ok [OF assms(2) rd this, of es] obtain k where "wire_log False se dec data 0 wire k"
    using assms(4) by auto
  then show ?thesis using wire_log_genuine assms(5,6) by blast
qed

lemma delivers_genuine:
  "delivers sent a \<Longrightarrow> \<forall>pkt \<in> sent. genuine env data pkt \<Longrightarrow> genuine_action env data a"
  by (cases a) (auto simp: genuine_def)

text \<open>The sink of a receiver that has only seen genuine datagrams and has passed the last block.\<close>

lemma reaches_complete:
  assumes "block_sink allocate wr read_crc bytes sized" and "config_ok dec c" and "reaches wr crc dec sink c n as env s"
    and "sized sink" and "length (bytes sink) = length data" and "describes env data"
    and "\<forall>a \<in> set as. genuine_action env data a" and "rs_flushed (sy_st s) = re_total_blocks env \<or> rs_done (sy_st s)"
  shows "bytes (rs_sink (sy_st s)) = data"
proof -
  have inv: "ctl_inv env s" using reaches_inv(1) [OF assms(2,3)] .
  then have "rs_flushed (sy_st s) = re_total_blocks env" using assms(8) by (auto simp: ctl_inv_def)
  then show ?thesis using data_ok_complete [OF reaches_data [OF assms(1-7)] inv assms(6)] by blast
qed

text \<open>A cipher under whose key only the blocks of \<open>data\<close> were ever sealed: what opens is the block of
  that number.\<close>

definition opens_only :: "dec_fun \<Rightarrow> aead_box \<Rightarrow> byte list \<Rightarrow> nat \<Rightarrow> bool" where
  "opens_only dec box data bs \<longleftrightarrow>
     (\<forall>seq ct tag p. dec box (block_nonce seq) ct tag = Some p \<longrightarrow> p = block_of data bs (unat seq))"

lemma opens_only_genuine:
  assumes "re_crypto env = Some box" and "opens_only (re_dec env) box data (re_block_size env)" and "dec_lengths (re_dec env)"
  shows "genuine env data pkt"
proof (cases "36 \<le> length pkt")
  case True
  then show ?thesis
    using assms(2) open_payload_crypto [OF assms(3) True assms(1)] unfolding genuine_def opens_only_def
    by (auto simp: Let_def split: if_splits)
qed (simp add: genuine_def decode_data_header_def size_defs)

end
