(* ===== verification/Client_Properties.thy ===== *)
theory Client_Properties
  imports Client_Session Server_Properties Data_Path
begin

text \<open>
  What the client guarantees: with a server that holds the same token it agrees on the session and the
  key (\<open>honest_exchange_agrees\<close>), a pull that succeeds has the checksum of the reply
  (\<open>pull_is_verified\<close>), a control connection on which a transfer failed is not used again
  (\<open>failed_stream_is_dropped\<close>); and where a session falls short of the plain entry points
  (\<open>session_loses_connect_errors\<close>).
\<close>

section \<open>Agreement with the server\<close>

text \<open>Client and server use the same primitives; only the hardware may differ.\<close>

definition same_crypto :: "'secret world \<Rightarrow> 'secret world \<Rightarrow> bool" where
  "same_crypto wc ws \<longleftrightarrow>
     wd_pub_of wc = wd_pub_of ws \<and> wd_dh wc = wd_dh ws \<and> wd_hkdf wc = wd_hkdf ws \<and> wd_hmac wc = wd_hmac ws"

lemma client_hello_fields [simp]:
  "h_version (client_hello w mode name sz crc p warm pub mac) = PROTOCOL_VERSION"
  "h_mode (client_hello w mode name sz crc p warm pub mac) = mode"
  "h_name (client_hello w mode name sz crc p warm pub mac) = name"
  "h_size (client_hello w mode name sz crc p warm pub mac) = sz"
  "h_crc32c (client_hello w mode name sz crc p warm pub mac) = crc"
  "h_encrypt (client_hello w mode name sz crc p warm pub mac) = tp_encrypt p"
  "h_ciphers (client_hello w mode name sz crc p warm pub mac) = ciphers_if (wd_hw w) (tp_encrypt p)"
  "h_pub_key (client_hello w mode name sz crc p warm pub mac) = pub"
  "h_auth_mac (client_hello w mode name sz crc p warm pub mac) = mac"
  "h_block_size (client_hello w mode name sz crc p warm pub mac) = sint (of_nat (tp_block_size p) :: i64)"
  "h_max_bps (client_hello w mode name sz crc p warm pub mac) = tp_max_bps p"
  by (simp_all add: client_hello_def Let_def)

lemma ok_ack_fields [simp]:
  "a_ok (ok_ack w rq h auth port sz crc (enc, cipher, pub))"
  "a_session (ok_ack w rq h auth port sz crc (enc, cipher, pub)) = rq_session rq"
  "a_size (ok_ack w rq h auth port sz crc (enc, cipher, pub)) = sz"
  "a_crc32c (ok_ack w rq h auth port sz crc (enc, cipher, pub)) = crc"
  "a_encrypt (ok_ack w rq h auth port sz crc (enc, cipher, pub)) = enc"
  "a_cipher (ok_ack w rq h auth port sz crc (enc, cipher, pub)) = cipher"
  "opt_bytes (a_pub_key (ok_ack w rq h auth port sz crc (enc, cipher, pub))) = pub"
  "a_auth_mac (ok_ack w rq h auth port sz crc (enc, cipher, pub)) =
     map_option (\<lambda>au. server_mac (wd_hmac w) (au_token au) (rq_session rq) pub (au_client_mac au)) auth"
  by (simp_all add: ok_ack_def opt_bytes_def)

text \<open>The boxes of both ends.\<close>

lemma exchange_boxes:
  assumes "same_crypto wc ws" and "x25519_agrees (wd_pub_of wc) (wd_dh wc)" and "client_keys wc ex p = (priv, pub)"
    and "negotiate ws rq (client_hello wc mode name sz crc p warm pub mac) = Inr (enc, cipher, spub, sbox)"
  shows "client_crypto (wd_dh wc) (wd_hkdf wc) (tp_encrypt p) enc spub (rq_session rq) cipher priv = Inr sbox \<and>
         (sbox \<noteq> None \<longleftrightarrow> tp_encrypt p)"
proof (cases "tp_encrypt p")
  case False
  then show ?thesis
    using assms(3,4) by (simp add: negotiate_def negotiate_crypto_server_def client_crypto_def client_keys_def)
next
  case True
  then have k: "priv = Some (ex_secret ex)" "pub = Some (wd_pub_of wc (ex_secret ex))"
    using assms(3) by (simp_all add: client_keys_def gen_keypair_def)
  have neg: "negotiate_crypto_server (wd_hw ws) (wd_pub_of wc) (wd_dh wc) (wd_hkdf wc) (rq_secret rq) True (local_ciphers (wd_hw wc))
      (wd_pub_of wc (ex_secret ex)) (rq_session rq) = Inr (enc, cipher, spub, sbox)"
    using assms(1,4) True k by (simp add: negotiate_def same_crypto_def ciphers_if_def opt_bytes_def)
  then show ?thesis using handshake_agrees [OF assms(2) neg] True k by auto
qed

text \<open>A server whose authorizer gives the client's token accepts the client's proof.\<close>

lemma shared_token_accepted:
  assumes "wd_hmac ws = wd_hmac wc" and "sv_authorizer sv = map_option (\<lambda>t ctx. Inr t) token"
    and "h = client_hello wc mode name sz crc p warm pub (request_mac wc token mode name sz pub)"
  shows "check_auth ws sv h peer_addr = Inr (map_option (\<lambda>t. \<lparr>au_token = t,
     au_client_mac = client_mac (wd_hmac wc) t (of_int PROTOCOL_VERSION) mode name (of_int sz) (opt_bytes pub)\<rparr>) token)"
  using assms by (cases token) (simp_all add: check_auth_def request_mac_def verify_client_mac_def client_mac_def)

text \<open>Property C12: a client and a server that hold the same token, or both none, agree. The server accepts the
  client's proof; the client accepts the server's proof and reply; both ends have the same key, which
  is there exactly when the client asked for encryption. This holds for every name, size, session
  and key pair, whichever ciphers the two machines prefer.\<close>

theorem honest_exchange_agrees:
  assumes "same_crypto wc ws" and "x25519_agrees (wd_pub_of wc) (wd_dh wc)"
    and "sv_authorizer sv = map_option (\<lambda>t ctx. Inr t) token" and "client_keys wc ex p = (priv, pub)"
    and "h = client_hello wc mode name sz crc p warm pub (request_mac wc token mode name sz pub)"
    and "negotiate ws rq h = Inr (enc, cipher, spub, sbox)"
  shows "\<exists>auth. check_auth ws sv h peer_addr = Inr auth \<and>
           accept_ack wc p token (h_auth_mac h) priv (ok_ack ws rq h auth port sz' crc' (enc, cipher, spub)) = Inr sbox \<and>
           (sbox \<noteq> None \<longleftrightarrow> tp_encrypt p)"
proof -
  note boxes = exchange_boxes [OF assms(1,2,4) assms(6) [unfolded assms(5)]]
  have hm: "wd_hmac ws = wd_hmac wc" using assms(1) by (simp add: same_crypto_def)
  show ?thesis
  proof (cases token)
    case None
    then show ?thesis
      using boxes assms(3,5) by (intro exI [of _ None]) (simp add: check_auth_def accept_ack_def verify_server_auth_def)
  next
    case (Some t)
    let ?mac = "client_mac (wd_hmac wc) t (of_int PROTOCOL_VERSION) mode name (of_int sz) (opt_bytes pub)"
    let ?auth = "Some \<lparr>au_token = t, au_client_mac = ?mac\<rparr>"
    have "check_auth ws sv h peer_addr = Inr ?auth"
      using shared_token_accepted [OF hm assms(3,5)] Some by simp
    moreover have "accept_ack wc p token (h_auth_mac h) priv (ok_ack ws rq h ?auth port sz' crc' (enc, cipher, spub)) = Inr sbox"
      using assms(5) Some hm boxes
      by (simp add: accept_ack_def request_mac_def verify_server_auth_def verify_server_mac_def server_mac_def)
    ultimately show ?thesis using boxes by blast
  qed
qed

definition sample_params :: transfer_params where
  "sample_params = default_params\<lparr>tp_encrypt := True\<rparr>"

definition sample_exchange :: "ack \<Rightarrow> nat exchange" where
  "sample_exchange a = \<lparr>ex_connect = Inr 1, ex_secret = 5, ex_written = Inr (), ex_ack = Inr a, ex_socket = Inr (),
     ex_events = [], ex_actions = [], ex_stop = True, ex_finalize_fails = None, ex_now = 0\<rparr>"

lemma sample_keys: "client_keys sample_world (sample_exchange a) sample_params = (Some 5, Some (toy_pub 5))"
  by (simp add: client_keys_def sample_params_def sample_exchange_def sample_world_def gen_keypair_def)

lemma sample_negotiate:
  "negotiate sample_world (sample_request sample_push) (client_hello sample_world mode name sz crc sample_params warm (Some (toy_pub 5)) mac) =
     Inr (True, CIPHER_AES_GCM, toy_pub 3, Some (Aes (15 # replicate 31 0)))"
  by (simp add: negotiate_def sample_world_def sample_request_def sample_params_def ciphers_if_def opt_bytes_def
      negotiate_crypto_server_def local_ciphers_def gen_keypair_def derive_aead_def toy_pub_def toy_dh_def toy_hkdf_def
      aead_new_def AEAD_KEY_LEN_def cipher_consts)

theorem honest_exchange_agrees_witness:
  "\<exists>auth h. h_mode h = MODE_SEND \<and> check_auth sample_world (with_authorizer (\<lambda>c. Inr [1]) sample_server) h sample_peer = Inr auth \<and>
     accept_ack sample_world sample_params (Some [1]) (h_auth_mac h) (Some 5)
       (ok_ack sample_world (sample_request sample_push) h auth 5000 0 0 (True, CIPHER_AES_GCM, toy_pub 3)) =
     Inr (Some (Aes (15 # replicate 31 0)))"
proof -
  have a: "same_crypto sample_world sample_world" "x25519_agrees (wd_pub_of sample_world) (wd_dh sample_world)"
      "sv_authorizer (with_authorizer (\<lambda>c. Inr [1]) sample_server) = map_option (\<lambda>t ctx. Inr t) (Some [1])"
    using toy_agrees by (simp_all add: same_crypto_def sample_world_def with_authorizer_def)
  show ?thesis
    using honest_exchange_agrees [OF a sample_keys refl sample_negotiate, where mode = MODE_SEND and name = "''a''" and sz = 3
        and crc = 0 and warm = None and peer_addr = sample_peer and port = 5000 and sz' = 0 and crc' = 0] client_hello_fields(2)
    by blast
qed

section \<open>Integrity of a pull\<close>

lemma handshake_accepts:
  assumes "handshake w ex p token mac priv = Inr (a, crypto)"
  shows "ex_written ex = Inr ()" and "ex_ack ex = Inr a" and "a_ok a" and "verify_server_auth w token mac a = Inr ()"
    and "client_crypto (wd_dh w) (wd_hkdf w) (tp_encrypt p) (a_encrypt a) (opt_bytes (a_pub_key a)) (a_session a) (a_cipher a) priv =
         Inr crypto"
  using assms by (auto simp: handshake_def accept_ack_def split: sum.splits if_splits)

lemma verify_pull_prefix:
  assumes "crc_incremental (wd_crc w)" and "holds_prefix path n k" and "verify_pull w ex want k = Inr ()"
  shows "\<exists>f. k = FileSink path f \<and> n \<le> length (fsnk_file f) \<and> wd_crc w 0 (take n (fsnk_file f)) = want"
proof -
  obtain f where f: "k = FileSink path f" using assms(2) by (auto simp: holds_prefix_def)
  have "check_crc w want k OtherIO = Inr ()"
    using assms(3) by (auto simp: verify_pull_def check_crc_def split: option.splits sum.splits if_splits)
  then show ?thesis using check_crc_prefix [OF assms(1,2), of want OtherIO Map.empty] f by auto
qed

lemma pull_data_run:
  assumes "cr_result (pull_data w ex a n sink conf r) = Ended (Inr ())" and "cr_result r \<noteq> Ended (Inr ())"
  obtains env st st' where "new_receiver n any_write_all_at (wd_crc w 0) (wd_dec w) sink conf = Some (env, st)"
    and "run_receiver env n (ex_stop ex) (ex_actions ex) st = (Returned (Inr ()), st')"
    and "cr_sink (pull_data w ex a n sink conf r) = Some (rs_sink st')" and "verify_pull w ex (a_crc32c a) (rs_sink st') = Inr ()"
proof -
  obtain env st where new: "new_receiver n any_write_all_at (wd_crc w 0) (wd_dec w) sink conf = Some (env, st)"
    using assms by (auto simp: pull_data_def split: option.splits)
  obtain res st' where run: "run_receiver env n (ex_stop ex) (ex_actions ex) st = (res, st')" by fastforce
  have res: "res = Returned (Inr ())"
  proof (rule ccontr)
    assume "res \<noteq> Returned (Inr ())"
    then show False
      using assms(1) by (cases res) (auto simp: pull_data_def new run of_outcome_def Let_def map_sum_def split: sum.splits if_splits)
  qed
  have "verify_pull w ex (a_crc32c a) (rs_sink st') = Inr ()"
    using assms(1) res by (auto simp: pull_data_def new run Let_def split: sum.splits)
  then show thesis using that new run res by (simp add: pull_data_def Let_def)
qed

text \<open>A pull into a file that succeeded: its request, the reply, the run of its receiver and the check.\<close>

lemma pull_ran:
  assumes "r = recv_core_with_stream w ex server_addr name (FileSink path k) p stats handle warm token" and "cr_result r = Ended (Inr ())"
  obtains a priv pub crypto peer blocks f0 env st st' where "ex_ack ex = Inr a" and "a_ok a"
    and "verify_server_auth w token (request_mac w token MODE_RECV name 0 pub) a = Inr ()" and "client_keys w ex p = (priv, pub)"
    and "cr_hello r = Some (client_hello w MODE_RECV name 0 0 p (warm_for_params p warm) pub (request_mac w token MODE_RECV name 0 pub))"
    and "client_crypto (wd_dh w) (wd_hkdf w) (tp_encrypt p) (a_encrypt a) (opt_bytes (a_pub_key a)) (a_session a) (a_cipher a) priv = Inr crypto"
    and "num_blocks (a_size a) (tp_block_size p) = Some blocks"
    and "length (fsnk_file f0) = nat (a_size a)" and "fsnk_len f0 = nat (a_size a)"
    and "new_receiver (worker_count w p) any_write_all_at (wd_crc w 0) (wd_dec w) (FileSink path f0)
           (recv_config_of a p peer crypto blocks stats handle (warm_for_params p warm)) = Some (env, st)"
    and "run_receiver env (worker_count w p) (ex_stop ex) (ex_actions ex) st = (Returned (Inr ()), st')"
    and "cr_sink r = Some (rs_sink st')" and "verify_pull w ex (a_crc32c a) (rs_sink st') = Inr ()"
proof -
  obtain priv pub where keys: "client_keys w ex p = (priv, pub)" by fastforce
  let ?mac = "request_mac w token MODE_RECV name 0 pub" and ?warm = "warm_for_params p warm"
  let ?h = "client_hello w MODE_RECV name 0 0 p ?warm pub ?mac"
  let ?r = "\<lparr>cr_result = Busy, cr_handle = handle, cr_stats = stats, cr_hello = Some ?h, cr_wire = [], cr_sink = Some (FileSink path k)\<rparr>"
  obtain a crypto where hs: "handshake w ex p token ?mac priv = Inr (a, crypto)"
    using assms by (auto simp: recv_core_with_stream_def keys Let_def split: sum.splits prod.splits)
  let ?n = "nat (max (a_size a) 0)"
  obtain f0 where al: "any_allocate (FileSink path k) ?n = Inr (FileSink path f0)" "fsnk_len f0 = ?n" "length (fsnk_file f0) = ?n"
    by (simp add: file_allocate_def Let_def)
  obtain peer blocks where d: "data_path w ex server_addr a = Inr peer" "num_blocks (a_size a) (tp_block_size p) = Some blocks"
    using assms hs al by (auto simp: recv_core_with_stream_def keys Let_def split: sum.splits option.splits)
  let ?c = "recv_config_of a p peer crypto blocks stats handle ?warm"
  let ?r1 = "?r\<lparr>cr_sink := Some (FileSink path f0), cr_handle := mark_phase Transferring handle\<rparr>"
  have r: "r = pull_data w ex a (worker_count w p) (FileSink path f0) ?c ?r1"
    using assms(1) hs al d by (simp add: recv_core_with_stream_def keys Let_def)
  have hello: "cr_hello r = Some ?h"
    unfolding r by (auto simp: pull_data_def Let_def split: option.splits prod.splits sum.splits)
  have n: "?n = nat (a_size a)" by (simp add: max_def)
  obtain env st st' where run: "new_receiver (worker_count w p) any_write_all_at (wd_crc w 0) (wd_dec w) (FileSink path f0) ?c = Some (env, st)"
      "run_receiver env (worker_count w p) (ex_stop ex) (ex_actions ex) st = (Returned (Inr ()), st')" "cr_sink r = Some (rs_sink st')"
      "verify_pull w ex (a_crc32c a) (rs_sink st') = Inr ()"
    using pull_data_run [of w ex a "worker_count w p" "FileSink path f0" ?c ?r1] assms(2) unfolding r by auto
  note hsa = handshake_accepts [OF hs]
  show thesis by (rule that [OF hsa(2,3,4) keys hello hsa(5) d(2) _ _ run]) (use al(2,3) n in simp_all)
qed

text \<open>Property C11: a pull that succeeds is what the reply announced. When a pull into a file ends well, the
  server's reply was positive, was proven under the token if the client has one, and the file holds
  at least the announced size with the announced checksum over it, whatever datagrams arrived and
  whoever sent them.\<close>

theorem pull_is_verified:
  assumes "crc_incremental (wd_crc w)"
    and "r = recv_core_with_stream w ex server_addr name (FileSink path k) p stats handle warm token"
    and "cr_result r = Ended (Inr ())"
  shows "\<exists>a f. ex_ack ex = Inr a \<and> a_ok a \<and>
           (\<forall>t. token = Some t \<longrightarrow> (\<exists>smac. a_auth_mac a = Some smac \<and>
              (\<exists>h. cr_hello r = Some h \<and>
                 verify_server_mac (wd_hmac w) t (a_session a) (opt_bytes (a_pub_key a)) (opt_bytes (h_auth_mac h)) smac))) \<and>
           cr_sink r = Some (FileSink path f) \<and> nat (a_size a) \<le> length (fsnk_file f) \<and>
           wd_crc w 0 (take (nat (a_size a)) (fsnk_file f)) = a_crc32c a"
proof -
  obtain a priv pub f0 env st st' where a: "ex_ack ex = Inr a" "a_ok a"
      and auth: "verify_server_auth w token (request_mac w token MODE_RECV name 0 pub) a = Inr ()"
      and hello: "cr_hello r = Some (client_hello w MODE_RECV name 0 0 p (warm_for_params p warm) pub (request_mac w token MODE_RECV name 0 pub))"
      and f0: "length (fsnk_file f0) = nat (a_size a)" "fsnk_len f0 = nat (a_size a)"
      and new: "rs_sink st = FileSink path f0" "re_write env = any_write_all_at"
      and run: "run_receiver env (worker_count w p) (ex_stop ex) (ex_actions ex) st = (Returned (Inr ()), st')"
      and sink: "cr_sink r = Some (rs_sink st')" "verify_pull w ex (a_crc32c a) (rs_sink st') = Inr ()"
    using pull_ran [OF assms(2,3)] new_receiver_sink by metis
  have "holds_prefix path (nat (a_size a)) (rs_sink st')"
    using run_receiver_sink(1) [of "holds_prefix path (nat (a_size a))", OF _ run] write_holds_prefix new f0 by (auto simp: holds_prefix_def)
  from verify_pull_prefix [OF assms(1) this sink(2)] obtain f where
    f: "rs_sink st' = FileSink path f" "nat (a_size a) \<le> length (fsnk_file f)" "wd_crc w 0 (take (nat (a_size a)) (fsnk_file f)) = a_crc32c a"
    by blast
  have "\<exists>smac. a_auth_mac a = Some smac \<and>
      verify_server_mac (wd_hmac w) t (a_session a) (opt_bytes (a_pub_key a)) (opt_bytes (request_mac w token MODE_RECV name 0 pub)) smac"
    if "token = Some t" for t
    using that auth by (auto simp: verify_server_auth_def request_mac_def opt_bytes_def split: option.splits if_splits)
  then show ?thesis using a hello f sink(1) by (intro exI [of _ a] exI [of _ f]) auto
qed

lemma sample_pull:
  "cr_result (recv_core_with_stream sample_world (sample_exchange sample_ack) ''h:4000'' ''a'' sample_file default_params
     (stats_new 0) None None None) = Ended (Inr ())"
proof -
  let ?ex = "sample_exchange sample_ack"
  have keys: "client_keys sample_world ?ex default_params = (None, None)" by (simp add: client_keys_def default_params_def)
  have a: "a_ok sample_ack" "a_encrypt sample_ack = False" "a_size sample_ack = 0" "a_crc32c sample_ack = 0"
    by (simp_all add: sample_ack_def)
  have hs: "handshake sample_world ?ex default_params None mac None = Inr (sample_ack, None)" for mac
    using a by (simp add: handshake_def accept_ack_def verify_server_auth_def client_crypto_def sample_exchange_def default_params_def)
  have d: "data_path sample_world ?ex ''h:4000'' sample_ack = Inr sample_peer"
    by (simp add: data_path_def resolve_peer_def sample_world_def sample_exchange_def)
  have al: "any_allocate sample_file 0 = Inr sample_file" by (simp add: file_allocate_def resize_def)
  let ?c = "recv_config_of sample_ack default_params sample_peer None 0 (stats_new 0) None (warm_for_params default_params None)"
  have c: "rv_block_size ?c = 1400" "rv_total_blocks ?c = 0" "rv_warm_start ?c = None" "rv_control ?c = None"
      "st_hi_contig (rv_stats ?c) = 0"
    by (simp_all add: recv_config_of_def default_params_def warm_for_params_def DEFAULT_BLOCK_SIZE_def stats_new_def)
  obtain env st where new: "new_receiver 1 any_write_all_at (sum_crc 0) copy_dec sample_file ?c = Some (env, st)"
      and st: "rs_sink st = sample_file" "rs_control st = None" "st_hi_contig (rs_stats st) = 0" "re_total_blocks env = 0"
    using new_receiver_cold [of ?c 1 any_write_all_at "sum_crc 0" copy_dec sample_file] c by auto
  have run: "run_receiver env 1 True [] st = (Returned (Inr ()), st)"
    by (simp add: run_receiver_def system_start_def should_stop_def st recv_result_def)
  have v: "verify_pull sample_world ?ex 0 sample_file = Inr ()"
    using sample_check by (auto simp: verify_pull_def check_crc_def sample_exchange_def split: sum.splits option.splits if_splits)
  have w: "worker_count sample_world default_params = 1" "wd_crc sample_world = sum_crc" "wd_dec sample_world = copy_dec"
      "ex_stop ?ex = True" "ex_actions ?ex = []"
    by (simp_all add: worker_count_def default_params_def sample_world_def sample_exchange_def)
  show ?thesis
    by (simp only: recv_core_with_stream_def keys prod.case Let_def hs sum.case a max.idem nat_0 al d num_blocks_0 option.case)
       (simp add: pull_data_def w new run st(1) a v Let_def del: One_nat_def)
qed

theorem pull_is_verified_witness:
  "\<exists>a f. ex_ack (sample_exchange sample_ack) = Inr a \<and> a_ok a \<and>
     cr_sink (recv_core_with_stream sample_world (sample_exchange sample_ack) ''h:4000'' ''a'' sample_file default_params
       (stats_new 0) None None None) = Some (FileSink ''/srv/a'' f) \<and> wd_crc sample_world 0 (take (nat (a_size a)) (fsnk_file f)) = a_crc32c a"
proof -
  have "crc_incremental (wd_crc sample_world)" using sum_crc_incremental by (simp add: sample_world_def)
  from pull_is_verified [OF this refl sample_pull] show ?thesis by blast
qed

section \<open>Sessions\<close>

text \<open>The operations of a session as one type, and the exchange each of them makes.\<close>

datatype 'secret session_op =
    SendFrom "'secret exchange" any_source string transfer_params "stats option" "byte list option"
  | SendWithHandle "'secret exchange" any_source string transfer_params transfer_handle "byte list option"
  | RecvInto "'secret exchange" string any_sink transfer_params "stats option" "byte list option"
  | RecvWithHandle "'secret exchange" string any_sink transfer_params transfer_handle "byte list option"

primrec op_exchange :: "'secret session_op \<Rightarrow> 'secret exchange" where
  "op_exchange (SendFrom ex src name p progress token) = ex"
| "op_exchange (SendWithHandle ex src name p handle token) = ex"
| "op_exchange (RecvInto ex name sink p progress token) = ex"
| "op_exchange (RecvWithHandle ex name sink p handle token) = ex"

primrec op_params :: "'secret session_op \<Rightarrow> transfer_params" where
  "op_params (SendFrom ex src name p progress token) = p"
| "op_params (SendWithHandle ex src name p handle token) = p"
| "op_params (RecvInto ex name sink p progress token) = p"
| "op_params (RecvWithHandle ex name sink p handle token) = p"

primrec session_step :: "'secret world \<Rightarrow> 'secret session_op \<Rightarrow> client_session \<Rightarrow> client_run \<times> client_session" where
  "session_step w (SendFrom ex src name p progress token) s = session_send_from w ex src name p progress token s"
| "session_step w (SendWithHandle ex src name p handle token) s = session_send_from_with_handle w ex src name p handle token s"
| "session_step w (RecvInto ex name sink p progress token) s = session_recv_into w ex name sink p progress token s"
| "session_step w (RecvWithHandle ex name sink p handle token) s = session_recv_into_with_handle w ex name sink p handle token s"

lemma record_warm_start_tcp [simp]: "cs_tcp (record_warm_start p now st s) = cs_tcp s"
  by (simp add: record_warm_start_def Let_def)

lemma record_warm_start_fixed [simp]: "\<not> tp_adaptive p \<Longrightarrow> record_warm_start p now st s = s"
  by (simp add: record_warm_start_def)

text \<open>Every operation fails before it has a stream, or settles a run on one.\<close>

lemma session_step_cases:
  obtains (failed) e r where "cs_tcp s = None" and "ex_connect (op_exchange op) = Inl e"
      and "session_step w op s = (r, s)" and "cr_result r = Ended (Inl (Io e))"
  | (settled) stream r where "(case cs_tcp s of Some st \<Rightarrow> Inr st | None \<Rightarrow> ex_connect (op_exchange op)) = Inr stream"
      and "session_step w op s = settle (op_exchange op) (op_params op) stream r (s\<lparr>cs_tcp := None\<rparr>)"
proof -
  have none: "s\<lparr>cs_tcp := None\<rparr> = s" if "cs_tcp s = None" using that by (cases s) simp
  show thesis
  proof (cases "cs_tcp s")
    case (Some stream)
    then show ?thesis
      using settled [of stream]
      by (cases op) (auto simp: session_send_from_def session_send_from_with_handle_def session_recv_into_def
          session_recv_into_with_handle_def get_or_connect_def Let_def)
  next
    case None
    show ?thesis
    proof (cases "ex_connect (op_exchange op)")
      case (Inl e)
      then show ?thesis
        using failed [OF None Inl] None
        by (cases op) (auto simp: session_send_from_def session_send_from_with_handle_def session_recv_into_def
            session_recv_into_with_handle_def get_or_connect_def failed_run_def Let_def)
    next
      case (Inr stream)
      then show ?thesis
        using settled [of stream] None none [OF None]
        by (cases op) (auto simp: session_send_from_def session_send_from_with_handle_def session_recv_into_def
            session_recv_into_with_handle_def get_or_connect_def Let_def)
    qed
  qed
qed

text \<open>Property C18: a session keeps a control connection only while every transfer on it succeeds. After an
  operation that succeeded the pool holds the connection it ran on, the pooled one if there was one;
  after an operation that did not, the pool is empty and the next one connects anew. What a session
  remembers for a warm start changes only with a success in adaptive mode.\<close>

theorem failed_stream_is_dropped:
  assumes "session_step w op s = (r, s')"
  shows "(cr_result r = Ended (Inr ()) \<longrightarrow>
            cs_tcp s' \<noteq> None \<and> cs_tcp s' = (case cs_tcp s of Some st \<Rightarrow> Some st | None \<Rightarrow> Some (projr (ex_connect (op_exchange op))))) \<and>
         (cr_result r \<noteq> Ended (Inr ()) \<longrightarrow> cs_tcp s' = None) \<and>
         (cs_warm s' \<noteq> cs_warm s \<longrightarrow> cr_result r = Ended (Inr ()) \<and> tp_adaptive (op_params op))"
proof (cases rule: session_step_cases [of s op w])
  case (failed e r')
  then show ?thesis using assms by simp
next
  case (settled stream r')
  then show ?thesis
    using assms by (cases "tp_adaptive (op_params op)")
      (auto simp: settle_def put_stream_def split: if_splits option.splits)
qed

theorem failed_stream_is_dropped_witness:
  "\<exists>r s'. session_step sample_world (RecvInto (sample_exchange (ack_default\<lparr>a_err := ''busy''\<rparr>)) ''a'' sample_file default_params None None)
       (\<lparr>cs_server_addr = ''h:4000'', cs_tcp = Some 8, cs_warm = warm_default\<rparr>) = (r, s') \<and>
     cr_result r \<noteq> Ended (Inr ()) \<and> cs_tcp s' = None"
proof -
  let ?op = "RecvInto (sample_exchange (ack_default\<lparr>a_err := ''busy''\<rparr>)) ''a'' sample_file default_params None None"
  let ?s = "\<lparr>cs_server_addr = ''h:4000'', cs_tcp = Some 8, cs_warm = warm_default\<rparr>"
  obtain r s' where r: "session_step sample_world ?op ?s = (r, s')" by fastforce
  have "handshake sample_world (sample_exchange (ack_default\<lparr>a_err := ''busy''\<rparr>)) default_params None mac None =
      Inl (reject_error (ack_default\<lparr>a_err := ''busy''\<rparr>))" for mac
    by (simp add: handshake_def accept_ack_def sample_exchange_def ack_default_def)
  then have "cr_result r \<noteq> Ended (Inr ())"
    using r by (auto simp: session_recv_into_def get_or_connect_def settle_def recv_core_with_stream_def client_keys_def
        default_params_def Let_def)
  then show ?thesis using r failed_stream_is_dropped [OF r] by blast
qed

text \<open>Property C19: a session loses a failure to connect. When an operation of a session with a handle cannot
  connect, it returns the raw I/O error and leaves the handle in the phase \<open>Connecting\<close> with no
  error recorded, and a time-out is not reported as retryable; the plain entry point reports the same
  failure through the handle as failed, and a time-out as retryable.\<close>

theorem session_loses_connect_errors:
  assumes "cs_tcp s = None" and "ex_connect ex = Inl e"
    and "r = fst (session_send_from_with_handle w ex source name p handle token s)"
    and "r' = client_send_from_with_handle w ex (cs_server_addr s) source name p handle token"
  shows "cr_result r = Ended (Inl (Io e)) \<and> map_option phase_of (cr_handle r) = Some Connecting \<and>
         map_option th_last_error (cr_handle r) = Some None \<and>
         cr_result r' = Ended (Inl (from_io e)) \<and> map_option phase_of (cr_handle r') = Some Failed \<and>
         map_option th_last_error (cr_handle r') = Some (Some (display (wd_io_text w) (from_io e))) \<and>
         (e = TimedOut \<longrightarrow> \<not> is_retryable (Io e) \<and> is_retryable (from_io e))"
  using assms
  by (simp add: session_send_from_with_handle_def client_send_from_with_handle_def send_core_def get_or_connect_def failed_run_def
      mark_result_def mark_phase_def phase_of_def set_phase_def set_failed_def from_u8_def as_u8_def is_retryable_def from_io_def Let_def)

theorem session_loses_connect_errors_witness:
  "cr_result (fst (session_send_from_with_handle sample_world (sample_exchange sample_ack\<lparr>ex_connect := Inl TimedOut\<rparr>)
      (MemSource []) ''a'' default_params (handle_new 0) None (session_new ''h:4000''))) = Ended (Inl (Io TimedOut)) \<and>
   \<not> is_retryable (Io TimedOut)"
proof -
  have "cs_tcp (session_new ''h:4000'') = None" "ex_connect (sample_exchange sample_ack\<lparr>ex_connect := Inl TimedOut\<rparr>) = Inl TimedOut"
    by (simp_all add: session_new_def)
  from session_loses_connect_errors [OF this refl refl] show ?thesis by blast
qed

end
