(* ===== verification/Whole_Transfer.thy ===== *)
theory Whole_Transfer
  imports Client_Properties Receiver_Completion Server_Listener
begin

text \<open>
  The lemmas behind the end-to-end properties: what a sender that was started by \<open>run_send\<close> puts on
  the wire is genuine for the receiver of the same session, and a receiver that ends well on genuine
  datagrams holds the bytes of the source.
\<close>

section \<open>The sending end\<close>

lemma any_source_reads: "source_sized source \<Longrightarrow> source_reads (any_read_exact_at source) (source_bytes source)"
  using any_src.read_in_range any_src.read_past_end by (auto simp: source_reads_def)

text \<open>The sizes of a transfer of \<open>source\<close> in blocks of \<open>bs\<close> bytes.\<close>

definition fits :: "any_source \<Rightarrow> nat \<Rightarrow> bool" where
  "fits source bs \<longleftrightarrow> source_sized source \<and> length (source_bytes source) < 2 ^ 62 \<and> 0 < bs \<and> bs < 2 ^ 16"

lemma fits_blocks:
  assumes "fits source bs" and "num_blocks (int (length (source_bytes source))) bs = Some blocks"
  shows "unat (of_nat blocks :: u64) = blocks"
  using assms num_blocks_le [OF assms(2)] by (simp add: fits_def)

lemma fits_len: "fits source bs \<Longrightarrow> any_len source = length (source_bytes source)"
  using any_src.len_bytes by (simp add: fits_def)

lemma fits_size: "fits source bs \<Longrightarrow> sint (of_nat (any_len source) :: i64) = int (length (source_bytes source))"
  using sint_of_nat_small [of "length (source_bytes source)"] by (simp add: fits_len) (simp add: fits_def)

text \<open>A sender set up for the source, and the receiver it is set up with.\<close>

definition sends :: "any_source \<Rightarrow> send_config \<Rightarrow> bool" where
  "sends source conf \<longleftrightarrow> fits source (sc_block_size conf) \<and> sc_file_size conf = of_nat (length (source_bytes source)) \<and>
     num_blocks (int (length (source_bytes source))) (sc_block_size conf) = Some (unat (sc_total_blocks conf))"

definition pairs :: "'secret world \<Rightarrow> dec_fun \<Rightarrow> send_config \<Rightarrow> 'k recv_env \<Rightarrow> bool" where
  "pairs w dec conf env \<longleftrightarrow>
     re_crc env = wd_crc w 0 \<and> re_dec env = dec \<and> re_crypto env = sc_crypto conf \<and> re_session env = sc_session conf \<and>
     re_block_size env = sc_block_size conf \<and> re_total_blocks env = unat (sc_total_blocks conf)"

definition sending_env :: "'secret world \<Rightarrow> any_source \<Rightarrow> send_config \<Rightarrow> socket_addr \<Rightarrow> sender_env" where
  "sending_env w source conf peer = sender_env_of (any_read_exact_at source) (wd_crc w 0) (wd_enc w) (sender_new conf) peer"

lemma run_send_wire:
  assumes "run_send w source conf turns events now = (res, wire, st)" and "wire \<noteq> []"
  shows "\<exists>peer r st'. run_sender (sending_env w source conf peer) (buf_size (sending_env w source conf peer)) events
           (sender_start (sender_new conf) (buf_size (sending_env w source conf peer)) now) = Some (r, wire, st')"
  using assms unfolding run_send_def Let_def sending_env_def [symmetric]
  by (auto split: option.splits sum.splits prod.splits pace_result.splits)

lemma run_send_genuine:
  assumes "run_send w source conf turns events now = (res, wire, st)" and "sends source conf"
    and "aead_correct (wd_enc w) dec" and "dec_lengths dec" and "pairs w dec conf env"
  shows "\<forall>pkt \<in> set wire. genuine env (source_bytes source) pkt"
proof (cases "wire = []")
  case False
  then obtain peer r st' where r: "run_sender (sending_env w source conf peer) (buf_size (sending_env w source conf peer)) events
      (sender_start (sender_new conf) (buf_size (sending_env w source conf peer)) now) = Some (r, wire, st')"
    using run_send_wire [OF assms(1)] by blast
  let ?se = "sending_env w source conf peer"
  have for_source: "sender_for ?se dec (source_bytes source)"
    using assms(2,3) by (simp add: sender_for_def sends_def fits_def sending_env_def sender_env_of_def sender_new_def)
  have "linked ?se dec env"
    using assms(5) by (simp add: linked_def pairs_def sending_env_def sender_env_of_def sender_new_def)
  moreover have "source_reads (any_read_exact_at source) (source_bytes source)"
    using any_source_reads assms(2) by (simp add: sends_def fits_def)
  ultimately show ?thesis using sent_genuine [OF sending_env_def for_source _ r _ assms(4)] by blast
qed simp

section \<open>The receiving end\<close>

lemma receiver_completes:
  assumes "config_ok dec c" and "new_receiver n any_write_all_at crc dec sink c = Some (env, st)"
    and "run_receiver env n stop as st = (Returned (Inr ()), st')" and "\<not> should_stop stop (rv_control c)"
    and "sink_sized sink" and "length (sink_bytes sink) = length data" and "length data < 2 ^ 64"
    and "num_blocks (int (length data)) (rv_block_size c) = Some (rv_total_blocks c)"
    and "\<forall>a \<in> set as. genuine_action env data a"
  shows "sink_bytes (rs_sink st') = data"
proof -
  have v: "re_block_size env = rv_block_size c" "re_total_blocks env = rv_total_blocks c" "0 < rv_block_size c"
    using new_receiver_starts [of c n any_write_all_at crc dec sink n] assms(1,2) by (auto simp: config_ok_def)
  have "rs_control st' = rv_control c"
    using run_receiver_sink(2) [of "\<lambda>k. True", OF _ assms(3)] new_receiver_sink [OF assms(2)] by simp
  then have "rs_done st'"
    using assms(3,4) by (auto simp: run_receiver_def split: option.splits if_splits)
  moreover obtain bs s where s: "set bs \<subseteq> set as" "reaches any_write_all_at crc dec sink c n bs env s" "st' = sy_st s"
    using run_receiver_reaches [OF assms(2,3)] by blast
  moreover have "describes env data" using assms(7,8) v by (simp add: describes_def)
  ultimately show ?thesis
    using reaches_complete [OF any_snk.block_sink_axioms assms(1) s(2) assms(5,6)] assms(9) by blast
qed

text \<open>The environment of a new receiver, as the sender's counterpart.\<close>

lemma new_receiver_pairs:
  assumes "config_ok dec c" and "new_receiver n wr (wd_crc w 0) dec sink c = Some (env, st)"
    and "rv_crypto c = sc_crypto conf" and "rv_session c = sc_session conf" and "rv_block_size c = sc_block_size conf"
    and "rv_total_blocks c = unat (sc_total_blocks conf)"
  shows "pairs w dec conf env"
  using new_receiver_starts [of c n wr "wd_crc w 0" dec sink n] assms by (auto simp: config_ok_def pairs_def)

section \<open>A push\<close>

text \<open>The machines of both ends: the same primitives, which behave as documented.\<close>

definition compatible :: "'secret world \<Rightarrow> 'secret world \<Rightarrow> bool" where
  "compatible wc ws \<longleftrightarrow>
     same_crypto wc ws \<and> x25519_agrees (wd_pub_of wc) (wd_dh wc) \<and> wd_crc wc = wd_crc ws \<and>
     aead_correct (wd_enc wc) (wd_dec ws) \<and> aead_correct (wd_enc ws) (wd_dec wc) \<and>
     dec_lengths (wd_dec wc) \<and> dec_lengths (wd_dec ws)"

lemma prepare_sink_replies: "prepare_sink w sv h s = (r, s') \<Longrightarrow> sr_replies s' = sr_replies s"
  by (auto simp: prepare_sink_def open_sink_def split: sum.splits option.splits prod.splits)

lemma push_accepted:
  assumes "handle_request w sv peer_addr rq h s = (Next, s')" and "h_mode h = MODE_SEND"
    and "sr_replies s' = sr_replies s @ [a]" and "a_ok a"
  obtains auth sink s1 port enc cipher pub crypto where "validate_hello_limits h (sv_limits sv) = None"
    and "prepare_sink w sv h s = (Inr sink, s1)" and "negotiate w rq h = Inr (enc, cipher, pub, crypto)"
    and "a = ok_ack w rq h auth port 0 0 (enc, cipher, pub)"
    and "receive_push w rq h (request_params (sv_params sv) h) peer_addr crypto sink (reply a s1) = (Returned (Inr ()), s')"
proof -
  let ?p = "request_params (sv_params sv) h"
  obtain auth where v: "validate_hello_limits h (sv_limits sv) = None"
      and r: "recv_from_client w sv rq h ?p peer_addr auth s = (Returned (Inr ()), s')"
    using assms(1,2) by (auto simp: handle_request_def after_def Let_def split: if_splits option.splits sum.splits prod.splits outcome.splits)
  obtain out s1 where p: "prepare_sink w sv h s = (out, s1)" by fastforce
  note rep = prepare_sink_replies [OF p]
  have no_err: "s' \<noteq> ack_err msg f s1" for msg f
    using assms(3,4) rep by (auto simp: ack_err_def reply_def ack_default_def)
  obtain sink port enc cipher pub crypto where c: "out = Inr sink" "negotiate w rq h = Inr (enc, cipher, pub, crypto)"
      and rp: "receive_push w rq h ?p peer_addr crypto sink (reply (ok_ack w rq h auth port 0 0 (enc, cipher, pub)) s1) = (Returned (Inr ()), s')"
    using r p no_err by (auto simp: recv_from_client_def split: sum.splits option.splits)
  have "sr_replies s' = sr_replies s1 @ [ok_ack w rq h auth port 0 0 (enc, cipher, pub)]"
    using receive_push_stores [OF rp] by (auto simp: reply_def)
  then have "a = ok_ack w rq h auth port 0 0 (enc, cipher, pub)" using assms(3) rep by simp
  then show thesis using that [of sink s1 enc cipher pub crypto auth port] v p c rp by simp
qed

lemma prepare_sink_sized:
  assumes "sv_sink_resolver sv = None" and "prepare_sink w sv h s = (Inr sink, s')"
  shows "\<exists>b f. served_object_name (h_name h) = Inr b \<and> sink = FileSink (path_join (sv_dir sv) b) f \<and> sink_sized sink \<and>
           length (sink_bytes sink) = nat (h_size h)"
proof -
  obtain b path c files where b: "served_object_name (h_name h) = Inr b"
      and o: "open_served_sink (wd_denies w) (sr_files s) (sv_dir sv) b = Inr (path, c, files)"
      and a: "any_allocate (FileSink path (file_sink_from_file c)) (nat (max (h_size h) 0)) = Inr sink"
    using assms by (auto simp: prepare_sink_def open_sink_def split: sum.splits prod.splits)
  from a open_served_sink_frame(1) [OF o] b show ?thesis by (auto simp: file_allocate_def Let_def max_def)
qed

lemma receive_push_run:
  assumes "receive_push w rq h p peer_addr crypto sink s = (Returned (Inr ()), s')"
  obtains blocks env st st' where "num_blocks (h_size h) (tp_block_size p) = Some blocks"
    and "new_receiver (worker_count w p) any_write_all_at (wd_crc w 0) (wd_dec w) sink (push_config rq h p peer_addr crypto blocks) = Some (env, st)"
    and "run_receiver env (worker_count w p) (rq_run_stop rq) (rq_actions rq) st = (Returned (Inr ()), st')"
    and "sr_files s' = stored_in (rs_sink st') (sr_files s)"
proof -
  obtain blocks env st where n: "num_blocks (h_size h) (tp_block_size p) = Some blocks"
      "new_receiver (worker_count w p) any_write_all_at (wd_crc w 0) (wd_dec w) sink (push_config rq h p peer_addr crypto blocks) = Some (env, st)"
    using assms by (auto simp: receive_push_def bind_eq_Some_conv split: option.splits)
  obtain r st' where run: "run_receiver env (worker_count w p) (rq_run_stop rq) (rq_actions rq) st = (r, st')" by fastforce
  then have "r = Returned (Inr ()) \<and> sr_files s' = stored_in (rs_sink st') (sr_files s)"
    using assms n by (auto simp: receive_push_def Let_def split: outcome.splits sum.splits option.splits)
  then show thesis using that n run by blast
qed

text \<open>What the client sent: its request, and what of its datagrams followed an accepted reply.\<close>

lemma push_sent:
  assumes "r = send_core_with_stream w ex server_addr source name p stats handle warm token" and "cr_hello r = Some h"
  obtains priv pub crc mac where "client_keys w ex p = (priv, pub)"
    and "h = client_hello w MODE_SEND name (sint (of_nat (any_len source) :: i64)) crc p (warm_for_params p warm) pub mac"
    and "\<And>a. ex_ack ex = Inr a \<Longrightarrow> cr_wire r \<noteq> [] \<Longrightarrow> \<exists>crypto peer blocks res st.
       client_crypto (wd_dh w) (wd_hkdf w) (tp_encrypt p) (a_encrypt a) (opt_bytes (a_pub_key a)) (a_session a) (a_cipher a) priv = Inr crypto \<and>
       num_blocks (sint (of_nat (any_len source) :: i64)) (tp_block_size p) = Some blocks \<and>
       run_send w source (send_config_of a p peer crypto (sint (of_nat (any_len source) :: i64)) blocks stats handle (warm_for_params p warm))
         [] (ex_events ex) (ex_now ex) = (res, cr_wire r, st)"
proof -
  let ?sz = "sint (of_nat (any_len source) :: i64)"
  obtain priv pub where keys: "client_keys w ex p = (priv, pub)" by fastforce
  obtain crc where crc: "source_crc32c any_len any_read_exact_at (wd_crc w) source = Inr crc"
    using assms by (auto simp: send_core_with_stream_def Let_def split: sum.splits)
  let ?mac = "request_mac w token MODE_SEND name ?sz pub"
  have h: "h = client_hello w MODE_SEND name ?sz crc p (warm_for_params p warm) pub ?mac"
    using assms by (auto simp: send_core_with_stream_def crc keys push_data_def Let_def split: sum.splits prod.splits option.splits)
  have "\<exists>crypto peer blocks res st.
       client_crypto (wd_dh w) (wd_hkdf w) (tp_encrypt p) (a_encrypt a) (opt_bytes (a_pub_key a)) (a_session a) (a_cipher a) priv = Inr crypto \<and>
       num_blocks ?sz (tp_block_size p) = Some blocks \<and>
       run_send w source (send_config_of a p peer crypto ?sz blocks stats handle (warm_for_params p warm)) [] (ex_events ex) (ex_now ex) =
         (res, cr_wire r, st)" if ack: "ex_ack ex = Inr a" and wire: "cr_wire r \<noteq> []" for a
  proof -
    obtain a' crypto where hs: "handshake w ex p token ?mac priv = Inr (a', crypto)"
      using assms(1) wire by (auto simp: send_core_with_stream_def crc keys Let_def split: sum.splits prod.splits)
    obtain peer blocks where d: "data_path w ex server_addr a' = Inr peer" "num_blocks ?sz (tp_block_size p) = Some blocks"
      using assms(1) wire hs by (auto simp: send_core_with_stream_def crc keys Let_def split: sum.splits option.splits)
    obtain res wr st where run: "run_send w source (send_config_of a' p peer crypto ?sz blocks stats handle (warm_for_params p warm)) []
        (ex_events ex) (ex_now ex) = (res, wr, st)" using prod_cases3 by blast
    then have "cr_wire r = wr"
      using assms(1) hs d by (simp add: send_core_with_stream_def crc keys push_data_def Let_def)
    moreover have "a' = a" using handshake_accepts(2) [OF hs] ack by simp
    ultimately show ?thesis using run d(2) handshake_accepts(5) [OF hs] by blast
  qed
  then show thesis using that [OF keys h] by blast
qed

text \<open>Every datagram of the client is genuine for the receiver the server starts.\<close>

lemma push_genuine:
  assumes "compatible wc ws" and "fits source (tp_block_size p)"
    and "r = send_core_with_stream wc ex server_addr source name p stats handle warm token" and "cr_hello r = Some h" and "ex_ack ex = Inr a"
    and "negotiate ws rq h = Inr (enc, cipher, spub, crypto)" and "a = ok_ack ws rq h auth port 0 0 (enc, cipher, spub)"
    and "num_blocks (h_size h) (tp_block_size p) = Some blocks"
    and "re_crc env = wd_crc ws 0" and "re_dec env = wd_dec ws" and "re_crypto env = crypto" and "re_session env = rq_session rq"
    and "re_block_size env = tp_block_size p" and "re_total_blocks env = blocks"
  shows "\<forall>pkt \<in> set (cr_wire r). genuine env (source_bytes source) pkt"
proof (cases "cr_wire r = []")
  case False
  let ?sz = "sint (of_nat (any_len source) :: i64)"
  obtain priv pub crc mac where c: "client_keys wc ex p = (priv, pub)"
      "h = client_hello wc MODE_SEND name ?sz crc p (warm_for_params p warm) pub mac"
      and sent: "\<And>a. ex_ack ex = Inr a \<Longrightarrow> cr_wire r \<noteq> [] \<Longrightarrow> \<exists>crypto peer blocks res st.
       client_crypto (wd_dh wc) (wd_hkdf wc) (tp_encrypt p) (a_encrypt a) (opt_bytes (a_pub_key a)) (a_session a) (a_cipher a) priv = Inr crypto \<and>
       num_blocks ?sz (tp_block_size p) = Some blocks \<and>
       run_send wc source (send_config_of a p peer crypto ?sz blocks stats handle (warm_for_params p warm)) [] (ex_events ex) (ex_now ex) =
         (res, cr_wire r, st)"
    using push_sent [OF assms(3,4)] by blast
  obtain box peer blocks' res st where s:
      "client_crypto (wd_dh wc) (wd_hkdf wc) (tp_encrypt p) enc spub (rq_session rq) cipher priv = Inr box"
      "num_blocks ?sz (tp_block_size p) = Some blocks'"
      "run_send wc source (send_config_of a p peer box ?sz blocks' stats handle (warm_for_params p warm)) [] (ex_events ex) (ex_now ex) =
         (res, cr_wire r, st)"
    using sent [OF assms(5) False] assms(7) by auto
  have cx: "same_crypto wc ws" "x25519_agrees (wd_pub_of wc) (wd_dh wc)" using assms(1) by (simp_all add: compatible_def)
  have box: "box = crypto" using exchange_boxes [OF cx c(1) assms(6) [unfolded c(2)]] s(1) by simp
  have blocks: "blocks' = blocks" using assms(8) s(2) c(2) by simp
  let ?conf = "send_config_of a p peer box ?sz blocks' stats handle (warm_for_params p warm)"
  note sz = fits_size [OF assms(2)]
  have u: "unat (of_nat blocks' :: u64) = blocks'" using fits_blocks [OF assms(2)] s(2) sz by simp
  have "sends source ?conf" using assms(2) s(2) u sz by (simp add: sends_def send_config_of_def)
  moreover have "pairs wc (wd_dec ws) ?conf env"
    using assms(1,7,9-14) box blocks u by (simp add: pairs_def send_config_of_def compatible_def)
  ultimately show ?thesis
    using run_send_genuine [OF s(3), of "wd_dec ws" env] assms(1) by (simp add: compatible_def)
qed simp

lemma request_params_block [simp]:
  "fits source (tp_block_size p) \<Longrightarrow>
   tp_block_size (request_params sp (client_hello w mode name sz crc p warm pub mac)) = tp_block_size p"
  using sint_of_nat_small [of "tp_block_size p"] by (simp add: request_params_def fits_def)

text \<open>Whatever the datagrams, as long as those the receiver can open carry blocks of \<open>data\<close>.\<close>

lemma server_reassembles:
  assumes "handle_request w sv peer_addr rq h s = (Next, s')" and "h_mode h = MODE_SEND" and "sr_replies s' = sr_replies s @ [a]"
    and "a_ok a" and "sv_sink_resolver sv = None" and "p = request_params (sv_params sv) h" and "tp_max_bps p = 0 \<or> 64000 \<le> tp_max_bps p"
    and "0 < tp_block_size p" and "dec_lengths (wd_dec w)" and "h_size h = int (length data)" and "length data < 2 ^ 62"
    and "\<not> rq_run_stop rq"
    and gen: "\<And>auth port enc cipher pub crypto blocks (env :: any_sink recv_env).
      negotiate w rq h = Inr (enc, cipher, pub, crypto) \<Longrightarrow> a = ok_ack w rq h auth port 0 0 (enc, cipher, pub) \<Longrightarrow>
      num_blocks (h_size h) (tp_block_size p) = Some blocks \<Longrightarrow> re_crc env = wd_crc w 0 \<Longrightarrow> re_dec env = wd_dec w \<Longrightarrow>
      re_crypto env = crypto \<Longrightarrow> re_session env = rq_session rq \<Longrightarrow> re_block_size env = tp_block_size p \<Longrightarrow>
      re_total_blocks env = blocks \<Longrightarrow> \<forall>x \<in> set (rq_actions rq). genuine_action env data x"
  shows "\<exists>b. served_object_name (h_name h) = Inr b \<and> sr_files s' (path_join (sv_dir sv) b) = Some (Regular data)"
proof -
  obtain auth sink s1 port enc cipher pub crypto where ps: "prepare_sink w sv h s = (Inr sink, s1)"
      and neg: "negotiate w rq h = Inr (enc, cipher, pub, crypto)" and a: "a = ok_ack w rq h auth port 0 0 (enc, cipher, pub)"
      and rp: "receive_push w rq h p peer_addr crypto sink (reply a s1) = (Returned (Inr ()), s')"
    using push_accepted [OF assms(1-4)] assms(6) by metis
  obtain b f where b: "served_object_name (h_name h) = Inr b" "sink = FileSink (path_join (sv_dir sv) b) f" "sink_sized sink"
      "length (sink_bytes sink) = length data"
    using prepare_sink_sized [OF assms(5) ps] assms(10) by auto
  obtain blocks env st st' where run: "num_blocks (h_size h) (tp_block_size p) = Some blocks"
      "new_receiver (worker_count w p) any_write_all_at (wd_crc w 0) (wd_dec w) sink (push_config rq h p peer_addr crypto blocks) = Some (env, st)"
      "run_receiver env (worker_count w p) (rq_run_stop rq) (rq_actions rq) st = (Returned (Inr ()), st')"
      "sr_files s' = stored_in (rs_sink st') (sr_files (reply a s1))"
    by (rule receive_push_run [OF rp])
  let ?c = "push_config rq h p peer_addr crypto blocks"
  have ok: "config_ok (wd_dec w) ?c"
    using rate_bounds_params [OF assms(7)] num_blocks_le [OF run(1)] assms(8-11) by (simp add: config_ok_def push_config_def)
  have env: "re_crc env = wd_crc w 0" "re_dec env = wd_dec w" "re_crypto env = crypto" "re_session env = rq_session rq"
      "re_block_size env = tp_block_size p" "re_total_blocks env = blocks"
    using new_receiver_starts [of ?c "worker_count w p" any_write_all_at "wd_crc w 0" "wd_dec w" sink 0] ok run(2)
    by (auto simp: config_ok_def push_config_def)
  note gen = gen [OF neg a run(1) env]
  have "\<not> should_stop (rq_run_stop rq) (rv_control ?c)" using assms(12) by (simp add: should_stop_def push_config_def)
  then have bytes: "sink_bytes (rs_sink st') = data"
    using receiver_completes [OF ok run(2,3) _ b(3,4) _ _ gen] assms(8,10,11) run(1) by (simp add: push_config_def)
  have "sink_path (rs_sink st') = Some (path_join (sv_dir sv) b)"
    using run_receiver_sink(1) [of "\<lambda>k. sink_path k = Some (path_join (sv_dir sv) b)", OF _ run(3)] any_write_path
      new_receiver_sink [OF run(2)] b(2) by (metis sink_path.simps(1))
  then show ?thesis using b(1) bytes run(4) by (cases "rs_sink st'") auto
qed

lemma push_reassembled:
  assumes "compatible wc ws" and "fits source (tp_block_size p)" and "sv_sink_resolver sv = None"
    and "tp_max_bps (request_params (sv_params sv) h) = 0 \<or> 64000 \<le> tp_max_bps (request_params (sv_params sv) h)"
    and "r = send_core_with_stream wc ex server_addr source name p stats handle warm token" and "cr_hello r = Some h" and "ex_ack ex = Inr a"
    and "handle_request ws sv peer_addr rq h s = (Next, s')" and "sr_replies s' = sr_replies s @ [a]" and "a_ok a"
    and "\<not> rq_run_stop rq" and "\<forall>x \<in> set (rq_actions rq). delivers (set (cr_wire r)) x"
  shows "\<exists>b. served_object_name name = Inr b \<and> sr_files s' (path_join (sv_dir sv) b) = Some (Regular (source_bytes source))"
proof -
  let ?p = "request_params (sv_params sv) h" and ?data = "source_bytes source"
  obtain priv pub crc mac where h: "h = client_hello wc MODE_SEND name (sint (of_nat (any_len source) :: i64)) crc p (warm_for_params p warm) pub mac"
    using push_sent [OF assms(5,6)] by metis
  have hv: "h_mode h = MODE_SEND" "h_name h = name" "h_size h = int (length ?data)" "tp_block_size ?p = tp_block_size p"
    using fits_size [OF assms(2)] assms(2) unfolding h by simp_all
  have small: "length ?data < 2 ^ 62" "0 < tp_block_size ?p" using assms(2) hv(4) by (simp_all add: fits_def)
  have gen: "\<forall>x \<in> set (rq_actions rq). genuine_action env ?data x"
    if "negotiate ws rq h = Inr (enc, cipher, spub, crypto)" "a = ok_ack ws rq h auth port 0 0 (enc, cipher, spub)"
      "num_blocks (h_size h) (tp_block_size ?p) = Some blocks" "re_crc env = wd_crc ws 0" "re_dec env = wd_dec ws" "re_crypto env = crypto"
      "re_session env = rq_session rq" "re_block_size env = tp_block_size ?p" "re_total_blocks env = blocks"
    for auth port enc cipher spub crypto blocks and env :: "any_sink recv_env"
  proof -
    have "\<forall>pkt \<in> set (cr_wire r). genuine env ?data pkt"
      by (rule push_genuine [OF assms(1,2,5-7) that(1,2) that(3) [unfolded hv(4)] that(4-7) that(8) [unfolded hv(4)] that(9)])
    then show ?thesis using assms(12) delivers_genuine by blast
  qed
  have "dec_lengths (wd_dec ws)" using assms(1) by (simp add: compatible_def)
  then show ?thesis unfolding hv(2) [symmetric]
    by (rule server_reassembles [OF assms(8) hv(1) assms(9,10,3) refl assms(4) small(2) _ hv(3) small(1) assms(11)]) (rule gen)
qed

text \<open>An encrypted push: no datagram needs to come from the client.\<close>

lemma sealed_push_reassembled:
  assumes "handle_request w sv peer_addr rq h s = (Next, s')" and "h_mode h = MODE_SEND" and "sr_replies s' = sr_replies s @ [a]"
    and "a_ok a" and "sv_sink_resolver sv = None" and "p = request_params (sv_params sv) h" and "tp_max_bps p = 0 \<or> 64000 \<le> tp_max_bps p"
    and "0 < tp_block_size p" and "dec_lengths (wd_dec w)" and "h_size h = int (length data)" and "length data < 2 ^ 62"
    and "\<not> rq_run_stop rq" and "negotiate w rq h = Inr (enc, cipher, pub, Some box)"
    and "opens_only (wd_dec w) box data (tp_block_size p)"
  shows "\<exists>b. served_object_name (h_name h) = Inr b \<and> sr_files s' (path_join (sv_dir sv) b) = Some (Regular data)"
proof (rule server_reassembles [OF assms(1-12)])
  fix crypto and env :: "any_sink recv_env" and enc' cipher' pub'
  assume n: "negotiate w rq h = Inr (enc', cipher', pub', crypto)" and e: "re_dec env = wd_dec w" "re_crypto env = crypto"
      "re_block_size env = tp_block_size p"
  have g: "genuine env data pkt" for pkt
    using opens_only_genuine [of env box data pkt] n e assms(9,13,14) by simp
  have "genuine_action env data x" for x using g by (cases x) simp_all
  then show "\<forall>x \<in> set (rq_actions rq). genuine_action env data x" by blast
qed

section \<open>A pull\<close>

lemma prepare_source_file:
  assumes "sv_source_resolver sv = None" and "prepare_source w sv h s = (Inr (source, sz, crc), s')"
  shows "\<exists>b. served_object_name (h_name h) = Inr b \<and> sr_files s (path_join (sv_dir sv) b) = Some (Regular (source_bytes source)) \<and>
           source_sized source \<and> sz = length (source_bytes source) \<and> sz \<le> max_object_size (sv_limits sv)"
  using assms
  by (auto simp: prepare_source_def open_source_def open_served_source_def file_source_from_file_def Let_def
      split: sum.splits option.splits node.splits if_splits)

lemma pull_reassembled:
  assumes "compatible wc ws" and "0 < tp_block_size p" and "tp_block_size p < 2 ^ 16" and "tp_max_bps p = 0 \<or> 64000 \<le> tp_max_bps p"
    and "sv_source_resolver sv = None" and "max_object_size (sv_limits sv) < 2 ^ 62"
    and "r = recv_core_with_stream wc ex server_addr name (FileSink path k) p stats handle warm token"
    and "cr_result r = Ended (Inr ())" and "cr_hello r = Some h" and "ex_ack ex = Inr a"
    and "prepare_source ws sv h s = (Inr (source, sz, crc), s1)" and "negotiate ws rq h = Inr (enc, cipher, spub, crypto)"
    and "a = ok_ack ws rq h auth port (int sz) crc (enc, cipher, spub)"
    and "serve_pull ws rq h (request_params (sv_params sv) h) peer_addr crypto source sz = (res, wire)"
    and "\<not> should_stop (ex_stop ex) (map_option th_control handle)" and "\<forall>x \<in> set (ex_actions ex). delivers (set wire) x"
  shows "\<exists>b f. served_object_name name = Inr b \<and> sr_files s (path_join (sv_dir sv) b) = Some (Regular (fsnk_file f)) \<and>
           cr_sink r = Some (FileSink path f)"
proof -
  let ?sp = "request_params (sv_params sv) h"
  obtain a' priv pub box peer blocks f0 env st st' where a': "ex_ack ex = Inr a'" and keys: "client_keys wc ex p = (priv, pub)"
      and h0: "cr_hello r = Some (client_hello wc MODE_RECV name 0 0 p (warm_for_params p warm) pub (request_mac wc token MODE_RECV name 0 pub))"
      and box0: "client_crypto (wd_dh wc) (wd_hkdf wc) (tp_encrypt p) (a_encrypt a') (opt_bytes (a_pub_key a')) (a_session a') (a_cipher a') priv = Inr box"
      and bl0: "num_blocks (a_size a') (tp_block_size p) = Some blocks" and f00: "length (fsnk_file f0) = nat (a_size a')" "fsnk_len f0 = nat (a_size a')"
      and new0: "new_receiver (worker_count wc p) any_write_all_at (wd_crc wc 0) (wd_dec wc) (FileSink path f0)
           (recv_config_of a' p peer box blocks stats handle (warm_for_params p warm)) = Some (env, st)"
      and run: "run_receiver env (worker_count wc p) (ex_stop ex) (ex_actions ex) st = (Returned (Inr ()), st')"
      and sink: "cr_sink r = Some (rs_sink st')"
    by (rule pull_ran [OF assms(7,8)])
  have "a' = a" using a' assms(10) by simp
  note box = box0 [unfolded this] and bl = bl0 [unfolded this] and f0 = f00 [unfolded this] and new = new0 [unfolded this]
  have hh: "h = client_hello wc MODE_RECV name 0 0 p (warm_for_params p warm) pub (request_mac wc token MODE_RECV name 0 pub)"
    using h0 assms(9) by simp
  obtain b where b: "served_object_name name = Inr b" "sr_files s (path_join (sv_dir sv) b) = Some (Regular (source_bytes source))"
      "source_sized source" "sz = length (source_bytes source)" "sz \<le> max_object_size (sv_limits sv)"
    using prepare_source_file [OF assms(5,11)] hh by auto
  have fit: "fits source (tp_block_size p)" using assms(2,3,6) b(3-5) by (simp add: fits_def)
  have av: "a_size a = int sz" "a_session a = rq_session rq" using assms(13) by simp_all
  have bs: "tp_block_size ?sp = tp_block_size p" using fit hh by simp
  have cx: "same_crypto wc ws" "x25519_agrees (wd_pub_of wc) (wd_dh wc)" using assms(1) by (simp_all add: compatible_def)
  have eq: "box = crypto" using exchange_boxes [OF cx keys assms(12) [unfolded hh]] box assms(13) by simp
  let ?c = "recv_config_of a p peer box blocks stats handle (warm_for_params p warm)"
  let ?conf = "pull_config rq h ?sp peer_addr crypto sz blocks"
  have u: "unat (of_nat blocks :: u64) = blocks" using fits_blocks [OF fit] bl b(4) av(1) by simp
  have ok: "config_ok (wd_dec wc) ?c"
    using assms(1,2,6) rate_bounds_params [OF assms(4)] num_blocks_le [OF bl] b(5) av(1)
    by (simp add: config_ok_def recv_config_of_def compatible_def)
  have pr: "pairs ws (wd_dec wc) ?conf env"
    using new_receiver_pairs [OF ok, of "worker_count wc p" any_write_all_at ws "FileSink path f0" env st ?conf] new eq av(2) bs u assms(1)
    by (simp add: recv_config_of_def pull_config_def compatible_def)
  have "sends source ?conf" using fit bl b(4) av(1) bs u by (simp add: sends_def pull_config_def)
  moreover obtain rs st2 where "run_send ws source ?conf (rq_turns rq) (rq_events rq) (rq_now rq) = (rs, wire, st2)"
    using assms(14) bl bs av(1) by (auto simp: serve_pull_def split: prod.splits)
  ultimately have "\<forall>pkt \<in> set wire. genuine env (source_bytes source) pkt"
    using run_send_genuine [of ws source ?conf _ _ _ rs wire st2 "wd_dec wc" env] pr assms(1) by (simp add: compatible_def)
  then have gen: "\<forall>x \<in> set (ex_actions ex). genuine_action env (source_bytes source) x" using assms(16) delivers_genuine by blast
  have bytes: "sink_bytes (rs_sink st') = source_bytes source"
    using receiver_completes [OF ok new run _ _ _ _ _ gen] assms(15) f0 b(4,5) assms(6) av(1) bl by (simp add: recv_config_of_def)
  have "sink_path (rs_sink st') = Some path"
    using run_receiver_sink(1) [of "\<lambda>x. sink_path x = Some path", OF _ run] any_write_path new_receiver_sink [OF new]
    by (metis sink_path.simps(1))
  then obtain f where "rs_sink st' = FileSink path f" by (cases "rs_sink st'") auto
  then show ?thesis using b(1,2) bytes sink by auto
qed

section \<open>Sample transfers\<close>

text \<open>The end of a transfer of an empty object as the receiver sees it.\<close>

definition ending :: "action list" where
  "ending = Rx 0 0 (fin_bytes 7 0) (Some sample_peer) # eight_ticks"

lemma ending_delivered: "\<forall>x \<in> set ending. delivers sent x"
  by (auto simp: ending_def eight_ticks_def decode_data_header_def size_defs)

lemma empty_run:
  assumes "config_ok dec c" and "rv_total_blocks c = 0" and "rv_session c = 7" and "rv_expected_peer_ip c = Some (addr_ip sample_peer)"
    and "new_receiver 1 wr crc dec sink c = Some (env, st)"
  shows "\<exists>st'. run_receiver env 1 False ending st = (Returned (Inr ()), st')"
proof -
  have v: "re_session env = 7" "re_total_blocks env = 0" "re_expected_peer_ip env = Some (addr_ip sample_peer)" "rs_peer st = None"
      "rs_flushed st = 0" "\<not> rs_done st"
    using assms(2-5) by (auto simp: new_receiver_def with_recv_defaults_def Let_def bind_eq_Some_conv)
  let ?st = "st\<lparr>rs_peer := Some sample_peer, rs_all_sent := True\<rparr>" and ?start = "system_start env st 1"
  let ?s = "?start\<lparr>sy_st := ?st, sy_workers := [Idle]\<rparr>"
  have acc: "accept_packet env 0 (fin_bytes 7 0) (Some sample_peer) st = Some (None, ?st)"
    using accept_fin [of env sample_peer st 0] v by (simp add: wrong_host_def)
  then have "recv_step env (Rx 0 0 (fin_bytes 7 0) (Some sample_peer)) ?start ?s"
    using step_Rx [of 0 ?start env 0 "fin_bytes 7 0" "Some sample_peer" None ?st] by (simp add: system_start_def)
  then have r: "reaches wr crc dec sink c 1 [Rx 0 0 (fin_bytes 7 0) (Some sample_peer)] env ?s"
    using assms(5) run_Cons run_Nil unfolding reaches_def by blast
  have "\<exists>s'. recv_exec env eight_ticks ?s = Some s' \<and> rs_done (sy_st s') \<and> recv_result env (sy_st s') = Inr ()"
    by (rule ticks_finish [OF reaches_inv(2,1) [OF assms(1) r]]) (use v in \<open>simp_all add: finished_def eight_ticks_def list_all_iff\<close>)
  moreover have "recv_exec env ending ?start = recv_exec env eight_ticks ?s"
    unfolding ending_def using acc by (simp add: system_start_def)
  ultimately show ?thesis by (auto simp: run_receiver_def)
qed

definition sample_source :: any_source where
  "sample_source = MemSource []"

definition sample_pushed :: hello where
  "sample_pushed = client_hello sample_world MODE_SEND ''x/a'' 0 0 default_params None None None"

definition sample_push_request :: "nat request" where
  "sample_push_request = (sample_request sample_pushed)\<lparr>rq_actions := ending, rq_run_stop := False\<rparr>"

definition sample_push_ack :: ack where
  "sample_push_ack = ok_ack sample_world sample_push_request sample_pushed None 5000 0 0 (False, [], [])"

lemmas sample_pushed_defs = sample_pushed_def client_hello_def warm_default_def default_params_def DEFAULT_BLOCK_SIZE_def Let_def

lemma sample_pushed_fields:
  "h_version sample_pushed = PROTOCOL_VERSION" "h_mode sample_pushed = MODE_SEND" "h_name sample_pushed = ''x/a''" "h_size sample_pushed = 0"
  "h_crc32c sample_pushed = 0" "\<not> h_encrypt sample_pushed" "validate_hello_limits sample_pushed default_limits = None"
  by (simp_all add: sample_pushed_defs validate_hello_limits_def default_limits_def MAX_WARM_RTT_US_def MODE_SEND_def)

lemma compatible_sample: "compatible sample_world sample_world"
  using toy_agrees copy_aead_correct
  by (simp add: compatible_def same_crypto_def sample_world_def dec_lengths_def copy_dec_def)

text \<open>The same push with any opener of sealed blocks, and with whatever key material in the request.\<close>

definition sealed_world :: "dec_fun \<Rightarrow> nat world" where
  "sealed_world dec = sample_world\<lparr>wd_dec := dec\<rparr>"

definition sealed_push :: "bool \<Rightarrow> string list option \<Rightarrow> byte list option \<Rightarrow> hello" where
  "sealed_push enc ciphers pub = sample_pushed\<lparr>h_encrypt := enc, h_ciphers := ciphers, h_pub_key := pub\<rparr>"

definition sealed_request :: "hello \<Rightarrow> nat request" where
  "sealed_request h = (sample_request h)\<lparr>rq_actions := ending, rq_run_stop := False\<rparr>"

lemma sealed_push_fields [simp]:
  "h_version (sealed_push e cs k) = PROTOCOL_VERSION" "h_mode (sealed_push e cs k) = MODE_SEND" "h_name (sealed_push e cs k) = ''x/a''"
  "h_size (sealed_push e cs k) = 0" "h_crc32c (sealed_push e cs k) = 0" "h_encrypt (sealed_push e cs k) = e"
  "h_ciphers (sealed_push e cs k) = cs" "h_pub_key (sealed_push e cs k) = k" "validate_hello_limits (sealed_push e cs k) default_limits = None"
  by (simp_all add: sealed_push_def sample_pushed_fields)
     (simp add: sample_pushed_defs validate_hello_limits_def default_limits_def MAX_WARM_RTT_US_def MODE_SEND_def)

lemma sealed_received:
  assumes "dec_lengths dec"
  shows "\<exists>s'. receive_push (sealed_world dec) (sealed_request (sealed_push e cs k)) (sealed_push e cs k)
     (request_params default_params (sealed_push e cs k)) sample_peer crypto sample_file s = (Returned (Inr ()), s') \<and> sr_replies s' = sr_replies s"
proof -
  let ?h = "sealed_push e cs k" and ?p = "request_params default_params (sealed_push e cs k)"
  let ?c = "push_config (sealed_request ?h) ?h ?p sample_peer crypto 0"
  have fields: "rv_block_size ?c = 1400" "rv_total_blocks ?c = 0" "rv_warm_start ?c = None" "rv_session ?c = 7"
      "rv_expected_peer_ip ?c = Some (addr_ip sample_peer)" "rv_max_nacks_per_pdu ?c = 0" "tp_max_bps ?p = 10000000000"
      "rv_rate ?c = params_rate_config ?p (h_rate_bps ?h)"
    by (simp_all add: push_config_def request_params_def sealed_request_def sample_request_def sealed_push_def sample_pushed_defs
        warm_from_hello_def)
  have ok: "config_ok dec ?c"
    using rate_bounds_params [of ?p] fields assms by (simp add: config_ok_def)
  obtain env st where new: "new_receiver 1 any_write_all_at (sum_crc 0) dec sample_file ?c = Some (env, st)"
    using new_receiver_cold [of ?c 1 any_write_all_at "sum_crc 0" dec sample_file] fields by auto
  obtain st' where run: "run_receiver env 1 False ending st = (Returned (Inr ()), st')"
    using empty_run [OF ok fields(2,4,5) new] by blast
  have "holds_prefix ''/srv/a'' 0 (rs_sink st)" using new_receiver_sink [OF new] by (simp add: holds_prefix_def)
  then have "holds_prefix ''/srv/a'' 0 (rs_sink st')"
    using run_receiver_sink(1) [of "holds_prefix ''/srv/a'' 0", OF _ run] write_holds_prefix new_receiver_sink [OF new] by metis
  then obtain f where f: "rs_sink st' = FileSink ''/srv/a'' f" "fsnk_len f = 0" by (auto simp: holds_prefix_def)
  have "check_crc (sealed_world dec) 0 (rs_sink st') OtherIO = Inr ()"
    using f by (simp add: check_crc_def file_read_crc32c_def crc_loop.simps)
  then show ?thesis
    using new run
    by (simp add: receive_push_def worker_count_def sealed_world_def sample_world_def sealed_request_def sample_request_def request_params_def
        default_params_def Let_def del: One_nat_def)
qed

lemma sealed_handled:
  assumes "dec_lengths dec" and "h = sealed_push e cs k" and "negotiate (sealed_world dec) (sealed_request h) h = Inr (enc, cipher, pub, crypto)"
  shows "\<exists>s'. handle_request (sealed_world dec) sample_server sample_peer (sealed_request h) h sample_srv = (Next, s') \<and>
     sr_replies s' = [ok_ack (sealed_world dec) (sealed_request h) h None 5000 0 0 (enc, cipher, pub)]"
proof -
  let ?s1 = "sample_srv\<lparr>sr_files := [''/srv/a'' \<mapsto> Regular []]\<rparr>"
  let ?a = "ok_ack (sealed_world dec) (sealed_request h) h None 5000 0 0 (enc, cipher, pub)"
  have p: "prepare_sink (sealed_world dec) sample_server h sample_srv = (Inr sample_file, ?s1)"
    by (simp add: prepare_sink_def open_sink_def open_served_sink_def Let_def sample_server_defs sealed_world_def assms(2) sample_name
        sample_path sample_sized)
  have sv: "sv_limits sample_server = default_limits" "sv_params sample_server = default_params"
      "check_auth (sealed_world dec) sample_server h sample_peer = Inr None" "sv_udp_port_range sample_server = None"
      "rq_reply_fails (sealed_request h) = None" "wd_bind (sealed_world dec) = (\<lambda>port. Inr 5000)"
    by (simp_all add: sample_server_def server_new_def check_auth_def sealed_request_def sample_request_def sealed_world_def sample_world_def)
  have h: "h_version h = PROTOCOL_VERSION" "h_mode h = MODE_SEND" "validate_hello_limits h default_limits = None"
    using assms(2) by simp_all
  obtain s' where r: "receive_push (sealed_world dec) (sealed_request h) h (request_params default_params h) sample_peer
      crypto sample_file (reply ?a ?s1) = (Returned (Inr ()), s')" "sr_replies s' = sr_replies (reply ?a ?s1)"
    using sealed_received [OF assms(1)] assms(2) by blast
  have "handle_request (sealed_world dec) sample_server sample_peer (sealed_request h) h sample_srv = (Next, s')"
    by (simp add: handle_request_def h sv recv_from_client_def p bind_data_socket_def assms(3) r(1) after_def Let_def)
  then show ?thesis using r(2) by (simp add: reply_def sample_srv_def)
qed

lemma sample_pushed_handled:
  "\<exists>s'. handle_request sample_world sample_server sample_peer sample_push_request sample_pushed sample_srv = (Next, s') \<and>
     sr_replies s' = [sample_push_ack]"
proof -
  have h: "sample_pushed = sealed_push False None None" by (simp add: sealed_push_def sample_pushed_defs ciphers_if_def)
  have w: "sealed_world copy_dec = sample_world" "sealed_request sample_pushed = sample_push_request"
    by (simp_all add: sealed_world_def sample_world_def sealed_request_def sample_push_request_def)
  have "negotiate (sealed_world copy_dec) (sealed_request sample_pushed) sample_pushed = Inr (False, [], [], None)"
    by (simp add: negotiate_def negotiate_crypto_server_def h)
  from sealed_handled [OF _ h this] show ?thesis
    by (simp add: w sample_push_ack_def) (simp add: dec_lengths_def copy_dec_def)
qed

text \<open>An opener that accepts empty blocks only.\<close>

definition empty_dec :: dec_fun where
  "empty_dec box nonce ct tag = (if ct = [] then Some [] else None)"

lemma empty_dec_ok: "dec_lengths empty_dec" "opens_only empty_dec box [] bs"
  by (auto simp: dec_lengths_def opens_only_def empty_dec_def block_of_def)

definition sealed_sample :: hello where
  "sealed_sample = sealed_push True (Some [CIPHER_AES_GCM]) (Some (toy_pub 5))"

lemma sealed_negotiated:
  "negotiate (sealed_world empty_dec) (sealed_request sealed_sample) sealed_sample =
     Inr (True, CIPHER_AES_GCM, toy_pub 3, Some (Aes (15 # replicate 31 0)))"
  by (simp add: negotiate_def sealed_sample_def sealed_world_def sealed_request_def sample_world_def sample_request_def opt_bytes_def
      negotiate_crypto_server_def local_ciphers_def gen_keypair_def derive_aead_def toy_pub_def toy_dh_def toy_hkdf_def
      aead_new_def AEAD_KEY_LEN_def cipher_consts)

abbreviation sample_push_run :: client_run where
  "sample_push_run \<equiv> send_core_with_stream sample_world (sample_exchange sample_push_ack) ''h:4000'' sample_source ''x/a'' default_params
     (stats_new 0) None None None"

lemma sample_push_client: "cr_hello sample_push_run = Some sample_pushed" "cr_wire sample_push_run = []"
proof -
  let ?ex = "sample_exchange sample_push_ack"
  have crc: "source_crc32c any_len any_read_exact_at (wd_crc sample_world) sample_source = Inr 0"
    by (simp add: source_crc32c_def crc_loop.simps sample_source_def mem_len_def)
  have len: "any_len sample_source = 0" by (simp add: sample_source_def mem_len_def)
  have keys: "client_keys sample_world ?ex default_params = (None, None)" by (simp add: client_keys_def default_params_def)
  have warm: "warm_for_params default_params None = None" by (simp add: warm_for_params_def)
  have run: "fst (snd (run_send sample_world sample_source (send_config_of a p peer c sz b st hd wm) [] (ex_events ?ex) now)) = []"
    for a p peer c sz b st hd wm now
    by (simp add: run_send_def sample_exchange_def send_config_of_def sender_new_def Let_def)
  show "cr_hello sample_push_run = Some sample_pushed"
    by (auto simp: send_core_with_stream_def crc keys len warm request_mac_def push_data_def sample_pushed_def Let_def
        split: sum.split option.split prod.split)
  show "cr_wire sample_push_run = []"
    using run by (auto simp: send_core_with_stream_def crc keys push_data_def Let_def split: sum.split option.split prod.split)
      (metis fst_conv snd_conv)
qed

definition sample_pulled :: hello where
  "sample_pulled = client_hello sample_world MODE_RECV ''x/a'' 0 0 default_params None None None"

definition sample_pull_ack :: ack where
  "sample_pull_ack = ok_ack sample_world (sample_request sample_pulled) sample_pulled None 5000 0 0 (False, [], [])"

definition sample_pull_exchange :: "nat exchange" where
  "sample_pull_exchange = (sample_exchange sample_pull_ack)\<lparr>ex_actions := ending, ex_stop := False\<rparr>"

abbreviation sample_pull_run :: client_run where
  "sample_pull_run \<equiv> recv_core_with_stream sample_world sample_pull_exchange ''h:4000'' ''x/a'' sample_file default_params (stats_new 0)
     None None None"

lemma sample_pull_client:
  "cr_result sample_pull_run = Ended (Inr ())" "cr_hello sample_pull_run = Some sample_pulled"
proof -
  let ?ex = sample_pull_exchange
  have keys: "client_keys sample_world ?ex default_params = (None, None)" by (simp add: client_keys_def default_params_def)
  have warm: "warm_for_params default_params None = None" by (simp add: warm_for_params_def)
  have a: "a_ok sample_pull_ack" "a_encrypt sample_pull_ack = False" "a_size sample_pull_ack = 0" "a_crc32c sample_pull_ack = 0"
      "a_session sample_pull_ack = 7"
    by (simp_all add: sample_pull_ack_def sample_request_def)
  have hs: "handshake sample_world ?ex default_params None mac None = Inr (sample_pull_ack, None)" for mac
    using a by (simp add: handshake_def accept_ack_def verify_server_auth_def client_crypto_def sample_pull_exchange_def
        sample_exchange_def default_params_def)
  have d: "data_path sample_world ?ex ''h:4000'' sample_pull_ack = Inr sample_peer"
    by (simp add: data_path_def resolve_peer_def sample_world_def sample_pull_exchange_def sample_exchange_def)
  have al: "any_allocate sample_file 0 = Inr sample_file" by (simp add: file_allocate_def resize_def)
  let ?c = "recv_config_of sample_pull_ack default_params sample_peer None 0 (stats_new 0) None None"
  have c: "rv_block_size ?c = 1400" "rv_total_blocks ?c = 0" "rv_warm_start ?c = None" "rv_session ?c = 7"
      "rv_expected_peer_ip ?c = Some (addr_ip sample_peer)" "rv_max_nacks_per_pdu ?c = 0"
      "rv_rate ?c = params_rate_config default_params (tp_rate_bps default_params)" "tp_max_bps default_params = 10000000000"
    by (simp_all add: recv_config_of_def default_params_def DEFAULT_BLOCK_SIZE_def a)
  have ok: "config_ok copy_dec ?c"
    using rate_bounds_params [of default_params] c by (simp add: config_ok_def dec_lengths_def copy_dec_def)
  obtain env st where new: "new_receiver 1 any_write_all_at (sum_crc 0) copy_dec sample_file ?c = Some (env, st)"
    using new_receiver_cold [of ?c 1 any_write_all_at "sum_crc 0" copy_dec sample_file] c by auto
  obtain st' where run: "run_receiver env 1 False ending st = (Returned (Inr ()), st')"
    using empty_run [OF ok c(2,4,5) new] by blast
  have "holds_prefix ''/srv/a'' 0 (rs_sink st)" using new_receiver_sink [OF new] by (simp add: holds_prefix_def)
  then have "holds_prefix ''/srv/a'' 0 (rs_sink st')"
    using run_receiver_sink(1) [of "holds_prefix ''/srv/a'' 0", OF _ run] write_holds_prefix new_receiver_sink [OF new] by metis
  then obtain f where f: "rs_sink st' = FileSink ''/srv/a'' f" "fsnk_len f = 0" by (auto simp: holds_prefix_def)
  have v: "verify_pull sample_world ?ex 0 (rs_sink st') = Inr ()"
    using f by (simp add: verify_pull_def file_read_crc32c_def crc_loop.simps sample_pull_exchange_def sample_exchange_def)
  have w: "worker_count sample_world default_params = 1" "wd_crc sample_world = sum_crc" "wd_dec sample_world = copy_dec"
      "ex_stop ?ex = False" "ex_actions ?ex = ending"
    by (simp_all add: worker_count_def default_params_def sample_world_def sample_pull_exchange_def)
  show "cr_result sample_pull_run = Ended (Inr ())"
    by (simp only: recv_core_with_stream_def keys prod.case Let_def hs sum.case a max.idem nat_0 al d num_blocks_0 option.case warm)
       (simp add: pull_data_def w new run a v Let_def del: One_nat_def)
  show "cr_hello sample_pull_run = Some sample_pulled"
    by (simp only: recv_core_with_stream_def keys prod.case Let_def hs sum.case a max.idem nat_0 al d num_blocks_0 option.case warm)
       (simp add: pull_data_def w new run a v Let_def sample_pulled_def request_mac_def del: One_nat_def)
qed

definition sample_store :: srv where
  "sample_store = sample_srv\<lparr>sr_files := [''/srv/a'' \<mapsto> Regular []]\<rparr>"

lemma sample_prepared_source:
  "prepare_source sample_world sample_server sample_pulled sample_store = (Inr (FileSource (file_source_from_file []), 0, 0), sample_store)"
  by (simp add: prepare_source_def open_source_def open_served_source_def sample_store_def sample_server_defs sample_pulled_def sample_name
      sample_path file_source_from_file_def source_crc32c_def crc_loop.simps default_limits_def Let_def)

end
