(* ===== verification/Sender_Progress.thy ===== *)
theory Sender_Progress
  imports Sender_Properties
begin

text \<open>
  How a sender comes to the end of its file: as long as nothing is asked for again, each round of the
  prefetch thread and the pacing loop puts the next block on the wire, and the round after the last
  block announces FIN.
\<close>

text \<open>The prefetch thread fills one buffer, then the pacing loop takes a turn with these clock readings.\<close>

definition send_round :: "nat \<times> nat \<Rightarrow> sender_event list" where
  "send_round t = [EvPrefetch False, EvPace False (fst t) (snd t)]"

text \<open>The sender between two rounds: nothing is queued, nothing stops it, and a buffer is free.\<close>

definition coasting :: "sender_state \<Rightarrow> bool" where
  "coasting st \<longleftrightarrow> ss_ready st = [] \<and> ss_free st \<noteq> [] \<and> rq_heap (ss_rex st) = [] \<and> \<not> ss_done st \<and> \<not> ss_new_done st \<and>
     \<not> should_stop False (ss_control st) \<and> \<not> control_paused (ss_control st)"

lemma retune_frame:
  "ss_ready (retune env st) = ss_ready st" "ss_free (retune env st) = ss_free st" "ss_rex (retune env st) = ss_rex st"
  "ss_new_done (retune env st) = ss_new_done st" "ss_closed (retune env st) = ss_closed st" "ss_next (retune env st) = ss_next st"
  by (simp_all add: retune_def Let_def split: prod.split)

lemma pop_nothing: "rq_heap (ss_rex st) = [] \<Longrightarrow> pop_retransmit st = None"
  by (simp add: pop_retransmit_def)

lemma batch_of_one:
  assumes "rq_heap (ss_rex st) = []" and "\<not> ss_new_done st" and "\<not> ss_closed st" and "ss_ready st = [item]" and "0 < to_send"
    and "take_new now item batch_empty (st\<lparr>ss_ready := []\<rparr>) = Some (b, st')"
  shows "build_batch env bl now to_send 0 batch_empty st = Some (b, st')"
proof -
  obtain t where "st' = st\<lparr>ss_ready := [], ss_tick := t\<rparr>" using take_new_frame [OF assms(6)] by auto
  then have "build_batch env bl now to_send 1 b st' = Some (b, st')"
    using assms(1-3) by (subst build_batch.simps) (simp add: pop_nothing)
  then show ?thesis using assms by (subst build_batch.simps) (simp add: pop_nothing)
qed

lemma batch_of_none:
  assumes "rq_heap (ss_rex st) = []" and "\<not> ss_new_done st" and "ss_closed st" and "ss_ready st = []" and "0 < to_send"
  shows "build_batch env bl now to_send 0 batch_empty st = Some (batch_empty, st\<lparr>ss_new_done := True\<rparr>)"
proof -
  have "build_batch env bl now to_send 0 batch_empty (st\<lparr>ss_new_done := True\<rparr>) = Some (batch_empty, st\<lparr>ss_new_done := True\<rparr>)"
    using assms(1) by (subst build_batch.simps) (simp add: pop_nothing)
  then show ?thesis using assms by (subst build_batch.simps) (simp add: pop_nothing)
qed

lemma prefetch_next:
  assumes "sender_for env dec data" and "source_reads (se_read env) data" and "sender_inv True env dec data k st"
    and "coasting st" and "ss_next st < se_total_blocks env"
  shows "\<exists>item bufs. prefetch_step env False st = Some (st\<lparr>ss_free := bufs, ss_ready := [item], ss_next := ss_next st + 1\<rparr>) \<and> \<not> ss_closed st"
proof -
  let ?n = "unat (ss_next st)"
  obtain buf bufs where free: "ss_free st = buf # bufs" using assms(4) by (cases "ss_free st") (auto simp: coasting_def)
  have "length buf = buf_size env" using assms(3) free by (simp add: sender_inv_def)
  then obtain item where pb: "prefetch_block env buf (of_nat ?n) = Some (Some item)"
    using prefetch_block_ok [OF assms(1,2) _, of buf ?n] assms(5) by (auto simp: word_less_nat_alt)
  have unclosed: "\<not> ss_closed st" using assms(3-5) by (auto simp: sender_inv_def coasting_def)
  then have "prefetch_step env False st = Some (st\<lparr>ss_free := bufs, ss_ready := [item], ss_next := ss_next st + 1\<rparr>)"
    using assms(4,5) free pb by (simp add: prefetch_step_def coasting_def)
  then show ?thesis using unclosed by blast
qed

lemma pace_one:
  assumes "sender_inv True env dec data k st" and "ss_ready st = [item]" and "\<not> ss_closed st" and "coasting (st\<lparr>ss_ready := [], ss_free := [x]\<rparr>)"
  shows "\<exists>wire st'. pacing_step env (buf_size env) False t1 t2 st = Some (PaceGoOn, wire, st') \<and> coasting st' \<and> ss_next st' = ss_next st"
proof -
  define r where "r = retune env st"
  have r: "ss_ready r = [item]" "rq_heap (ss_rex r) = []" "\<not> ss_new_done r" "\<not> ss_closed r" "ss_next r = ss_next st" "\<not> ss_done r"
    using assms(2-4) retune_ok(2) [OF assms(1)] by (simp_all add: r_def retune_frame coasting_def)
  have inv: "sender_inv True env dec data k r" unfolding r_def by (rule retune_ok(1) [OF assms(1)])
  have one: "0 < as_u64 (ss_batch r)" using inv batch_size_bounds(1) by (auto simp: sender_inv_def Suc_le_eq)
  obtain t p buf where tn: "take_new (of_nat t1) item batch_empty (r\<lparr>ss_ready := []\<rparr>) = Some (batch_empty\<lparr>bt_bs := portable_add p (bt_bs batch_empty),
      bt_new_bytes := bt_new_bytes batch_empty + length p, bt_new_n := bt_new_n batch_empty + 1, bt_new_bufs := bt_new_bufs batch_empty @ [buf]\<rparr>,
      r\<lparr>ss_ready := [], ss_tick := t\<rparr>)" (is "_ = Some (?b, ?r)")
    using take_new_ok [OF sender_inv_take(1) [OF inv r(1)], of "of_nat t1" batch_empty "r\<lparr>ss_ready := []\<rparr>"] by auto
  define b where "b = ?b"
  have bufs: "bt_new_bufs b \<noteq> []" by (simp add: b_def)
  have bb: "build_batch env (buf_size env) (of_nat t1) (as_u64 (ss_batch r)) 0 batch_empty r = Some (b, ?r)"
    unfolding b_def by (rule batch_of_one [OF r(2-4,1) one tn])
  have fin: "announce_fin env (settle b ?r) = Some []" using r(3) by (simp add: announce_fin_def settle_def)
  define st' where "st' = (settle b ?r)\<lparr>ss_deadline := next_deadline t2 (ss_ipd_us (settle b ?r)) (ss_deadline (settle b ?r))\<rparr>"
  have ps: "pacing_step env (buf_size env) False t1 t2 st = Some (PaceGoOn, ps_pkts (bt_bs b), st')"
    using assms(4) bb fin by (simp add: pacing_step_def coasting_def flip: r_def st'_def)
  have "coasting st'"
    using assms(4) r bufs pacing_step_control [OF ps] by (simp add: coasting_def st'_def settle_def)
  then show ?thesis using ps r(5) by (simp add: st'_def settle_def)
qed

lemma unat_next:
  fixes x y :: u64
  assumes "x < y"
  shows "unat (x + 1) = Suc (unat x)"
proof -
  have "unat x < unat y" "unat y < 2 ^ 64" using assms unsigned_less [of y] by (simp_all add: word_less_nat_alt)
  then show ?thesis using unat_of_nat_small [of "Suc (unat x)"] by (simp add: add.commute)
qed

lemma round_sends:
  assumes "sender_for env dec data" and "source_reads (se_read env) data" and "sender_inv True env dec data k st"
    and "coasting st" and "ss_next st < se_total_blocks env"
  shows "\<exists>st1 wire st' k'. prefetch_step env False st = Some st1 \<and>
     pacing_step env (buf_size env) False t1 t2 st1 = Some (PaceGoOn, wire, st') \<and> sender_inv True env dec data k' st' \<and> coasting st' \<and>
     unat (ss_next st') = Suc (unat (ss_next st))"
proof -
  obtain item bufs where p: "prefetch_step env False st = Some (st\<lparr>ss_free := bufs, ss_ready := [item], ss_next := ss_next st + 1\<rparr>)"
      and unclosed: "\<not> ss_closed st"
    using prefetch_next [OF assms] by (elim exE conjE)
  define st1 where "st1 = st\<lparr>ss_free := bufs, ss_ready := [item], ss_next := ss_next st + 1\<rparr>"
  have f: "ss_ready st1 = [item]" "\<not> ss_closed st1" "coasting (st1\<lparr>ss_ready := [], ss_free := [[]]\<rparr>)"
    using assms(4) unclosed by (simp_all add: st1_def coasting_def)
  have inv1: "sender_inv True env dec data k st1"
    using prefetch_step_ok [OF assms(1-3), of False] assms(4) p by (simp add: st1_def coasting_def)
  obtain wire st' where ps: "pacing_step env (buf_size env) False t1 t2 st1 = Some (PaceGoOn, wire, st')" "coasting st'" "ss_next st' = ss_next st1"
    using pace_one [OF inv1 f, of t1 t2] by (elim exE conjE)
  obtain k' where inv': "sender_inv True env dec data k' st'" using pacing_step_ok [OF assms(1,2) inv1, of False t1 t2] ps(1) by auto
  have "unat (ss_next st') = Suc (unat (ss_next st))" using unat_next [OF assms(5)] by (simp add: ps(3) st1_def)
  then show ?thesis using p [folded st1_def] ps(1,2) inv' by blast
qed

lemma round_announces:
  assumes "sender_inv True env dec data k st" and "coasting st" and "ss_next st = se_total_blocks env" and "fin_pdu env = Some fin"
  shows "\<exists>st1 wire st'. prefetch_step env False st = Some st1 \<and> sender_inv True env dec data k st1 \<and>
     pacing_step env (buf_size env) False t1 t2 st1 = Some (PaceGoOn, wire, st') \<and> fin \<in> set wire \<and> ss_control st1 = ss_control st"
proof -
  define st1 where "st1 = st\<lparr>ss_closed := True\<rparr>"
  have p: "prefetch_step env False st = Some st1" using assms(3) by (cases st) (simp add: prefetch_step_def st1_def)
  have inv1: "sender_inv True env dec data k st1" using assms(1,3) by (simp add: sender_inv_def st1_def)
  define r where "r = retune env st1"
  have r: "ss_ready r = []" "rq_heap (ss_rex r) = []" "\<not> ss_new_done r" "ss_closed r"
    using assms(2) by (simp_all add: r_def retune_frame coasting_def st1_def)
  have "0 < as_u64 (ss_batch r)"
    using retune_ok(1) [OF inv1] batch_size_bounds(1) by (auto simp: sender_inv_def Suc_le_eq r_def)
  note bb = batch_of_none [OF r(2,3,4,1) this, of env "buf_size env" "of_nat t1"]
  have fin: "announce_fin env (settle batch_empty (r\<lparr>ss_new_done := True\<rparr>)) = Some [fin]"
    using r(2) assms(4) by (simp add: announce_fin_def settle_def rex_len_def)
  have "\<exists>st'. pacing_step env (buf_size env) False t1 t2 st1 = Some (PaceGoOn, ps_pkts (bt_bs batch_empty) @ [fin], st')"
    using assms(2) bb fin by (simp add: pacing_step_def coasting_def st1_def Let_def flip: r_def [unfolded st1_def])
  then obtain st' where "pacing_step env (buf_size env) False t1 t2 st1 = Some (PaceGoOn, ps_pkts (bt_bs batch_empty) @ [fin], st')" ..
  moreover have "fin \<in> set (ps_pkts (bt_bs batch_empty) @ [fin])" "ss_control st1 = ss_control st" by (simp_all add: st1_def)
  ultimately show ?thesis using p inv1 by blast
qed

lemma rounds_announce:
  assumes "sender_for env dec data" and "source_reads (se_read env) data" and "fin_pdu env = Some fin"
  shows "sender_inv True env dec data k st \<Longrightarrow> coasting st \<Longrightarrow> unat (se_total_blocks env) < unat (ss_next st) + length ts \<Longrightarrow>
    \<exists>res wire st'. run_sender env (buf_size env) (concat (map send_round ts)) st = Some (res, wire, st') \<and> fin \<in> set wire"
proof (induction ts arbitrary: st k)
  case Nil
  then show ?case by (simp add: sender_inv_def)
next
  case (Cons t ts)
  let ?es = "concat (map send_round ts)"
  show ?case
  proof (cases "ss_next st < se_total_blocks env")
    case True
    obtain st1 wire st' k' where s: "prefetch_step env False st = Some st1"
        "pacing_step env (buf_size env) False (fst t) (snd t) st1 = Some (PaceGoOn, wire, st')" "sender_inv True env dec data k' st'"
        "coasting st'" "unat (ss_next st') = Suc (unat (ss_next st))"
      using round_sends [OF assms(1,2) Cons.prems(1,2) True, of "fst t" "snd t"] by (elim exE conjE)
    have "unat (se_total_blocks env) < unat (ss_next st') + length ts" using Cons.prems(3) s(5) by simp
    from Cons.IH [OF s(3,4) this] s(1,2) show ?thesis by (auto simp: send_round_def [of t])
  next
    case False
    then have "ss_next st = se_total_blocks env"
      using Cons.prems(1) by (simp add: sender_inv_def word_le_nat_alt [symmetric])
    then obtain st1 wire st' where s: "prefetch_step env False st = Some st1" "sender_inv True env dec data k st1"
        "pacing_step env (buf_size env) False (fst t) (snd t) st1 = Some (PaceGoOn, wire, st')" "fin \<in> set wire" "ss_control st1 = ss_control st"
      using round_announces [OF Cons.prems(1,2) _ assms(3), of "fst t" "snd t"] by (elim meta_impE exE conjE)
    obtain k' where inv: "sender_inv True env dec data k' st'" using pacing_step_ok [OF assms(1,2) s(2), of False "fst t" "snd t"] s(3) by auto
    have "\<not> should_stop False (ss_control st')" using pacing_step_control [OF s(3)] s(5) Cons.prems(2) by (simp add: coasting_def)
    moreover have "list_all quiet ?es" by (auto simp: list_all_iff send_round_def)
    ultimately obtain res wire' st'' where "run_sender env (buf_size env) ?es st' = Some (res, wire', st'')"
      using run_sender_ok [OF assms(1,2) inv, of ?es] by blast
    then show ?thesis using s(1,3,4) by (simp add: send_round_def [of t])
  qed
qed

lemma carried_no_fin: "carries env dec rex p seq payload \<Longrightarrow> fin_pdu env \<noteq> Some p"
  by (auto simp: data_pdu_def fin_pdu_def encode_fin_eq subslice_def data_header_bytes_def PDU_DATA_def PDU_FIN_def)

lemma log_fin_last:
  "wire_log True env dec data k wire k' \<Longrightarrow> p \<in> set wire \<Longrightarrow> fin_pdu env = Some p \<Longrightarrow> k' = unat (se_total_blocks env)"
proof (induction rule: wire_log.induct)
  case (log_Rex k ps k' q seq payload)
  then show ?case using carried_no_fin [OF log_Rex.hyps(2)] by auto
next
  case (log_New k ps k' q)
  then show ?case using carried_no_fin [OF log_New.hyps(3)] by auto
qed auto

text \<open>Property C9: a sender that nobody disturbs sends everything. From the start of a transfer that is neither
  stopped nor paused, one round more than the file has blocks suffices, at whatever times the rounds are taken:
  the wire then shows every block of the file, each new block once and in order, and the FIN.\<close>

theorem undisturbed_sender_announces:
  assumes "env = sender_env_of read crc enc (sender_new conf) peer" and "sender_for env dec data" and "source_reads read data"
    and "\<not> should_stop False (sc_control conf)" and "\<not> control_paused (sc_control conf)" and "unat (se_total_blocks env) < length ts"
  shows "\<exists>res wire st. run_sender env (buf_size env) (concat (map send_round ts)) (sender_start (sender_new conf) (buf_size env) now) =
           Some (res, wire, st) \<and> wire_log True env dec data 0 wire (unat (se_total_blocks env)) \<and> (\<exists>fin \<in> set wire. fin_pdu env = Some fin)"
proof -
  let ?st = "sender_start (sender_new conf) (buf_size env) now" and ?es = "concat (map send_round ts)"
  obtain fin where fin: "fin_pdu env = Some fin" using fin_pdu_eq by blast
  have rd: "source_reads (se_read env) data" using assms(1,3) by (simp add: sender_env_of_def)
  have inv: "sender_inv True env dec data 0 ?st" by (rule sender_start_inv [OF assms(2,1)]) (use assms(4) in simp)
  have c: "coasting ?st" using assms(4,5) by (simp add: coasting_def sender_start_def Let_def split: prod.split)
  have q: "True \<longrightarrow> list_all quiet ?es \<and> \<not> should_stop False (ss_control ?st)" using assms(4) by (auto simp: list_all_iff send_round_def)
  obtain res wire st where r: "run_sender env (buf_size env) ?es ?st = Some (res, wire, st)" "fin \<in> set wire"
    using rounds_announce [OF assms(2) rd fin inv c, of ts] assms(6) by auto
  obtain k where "wire_log True env dec data 0 wire k" using run_sender_ok [OF assms(2) rd inv q] r(1) by auto
  then show ?thesis using r fin log_fin_last by blast
qed

theorem undisturbed_sender_announces_witness:
  "\<exists>res wire st. run_sender sample_env (buf_size sample_env) (concat (map send_round [(1, 2), (3, 4), (5, 6), (7, 8)]))
       (sender_start (sender_new sample_conf) (buf_size sample_env) 0) = Some (res, wire, st) \<and>
     wire_log True sample_env copy_dec sample_data 0 wire (unat (se_total_blocks sample_env)) \<and> (\<exists>fin \<in> set wire. fin_pdu sample_env = Some fin)"
  by (rule undisturbed_sender_announces [OF sample_env_def sample_for sample_reads])
    (simp_all add: sample_conf_def sample_env_def sender_env_of_def sender_new_def should_stop_def control_paused_def)

end
