(* ===== verification/Loss_Free.thy ===== *)
theory Loss_Free
  imports Data_Path Receiver_Completion Sender_Progress
begin

text \<open>
  Progress of the two data planes together: when the network loses nothing, a receiver that is given what its
  sender has put on the wire, up to the FIN, comes to its result, and the result is the file.
\<close>

section \<open>A datagram of the sender is taken\<close>

lemma apply_tick_peer: "apply_tick now h st = Some st' \<Longrightarrow> rs_peer st' = rs_peer st \<and> rs_all_sent st' = rs_all_sent st"
  by (auto simp: apply_tick_def Let_def bind_eq_Some_conv split: if_splits)

lemma claim_block_peer: "claim_block now h p st = Some (blk, st') \<Longrightarrow> rs_peer st' = rs_peer st \<and> rs_all_sent st' = rs_all_sent st"
  by (auto simp: claim_block_def Let_def bind_eq_Some_conv dest!: apply_tick_peer split: if_splits)

text \<open>The source of the datagrams: the host that is expected, and the peer once it is known.\<close>

definition from_peer :: "'k recv_env \<Rightarrow> socket_addr \<Rightarrow> 'k recv_state \<Rightarrow> bool" where
  "from_peer env a st \<longleftrightarrow> \<not> wrong_host (re_expected_peer_ip env) a \<and> (rs_peer st = None \<or> rs_peer st = Some a)"

lemma learn_from_peer:
  assumes "from_peer env a st"
  shows "learn_peer env (Some a) st = (True, st\<lparr>rs_peer := Some a\<rparr>)"
proof -
  have "st\<lparr>rs_peer := Some a\<rparr> = st" if "rs_peer st = Some a" using that by (cases st) simp
  then show ?thesis using assms by (auto simp: from_peer_def learn_peer_def)
qed

lemma open_carried:
  assumes "data_body (re_crc env) (re_dec env) (re_crypto env) h body payload" and "dec_lengths (re_dec env)"
    and "unat (dh_payload_len h) = length payload"
  shows "open_payload env h (data_header_bytes h @ body) = Some (Some (Some payload))"
proof (cases "re_crypto env")
  case None
  then show ?thesis using assms(1,3) open_payload_plain [OF None, of h "data_header_bytes h @ body"] by (simp add: data_body_def Let_def)
next
  case (Some c)
  then show ?thesis
    using assms(1,3) open_payload_crypto [OF assms(2) _ Some, of "data_header_bytes h @ body" h] by (auto simp: data_body_def Let_def)
qed

lemma accept_carried:
  assumes "data_pdu (re_crc env) (re_dec env) (re_crypto env) (re_session env) rex pkt seq payload" and "env_ok env"
    and "rtt_ok (rs_path st)" and "rtt_ok (rs_net st)" and "re_total_blocks env \<le> bm_cap (rs_bm st)" and "from_peer env a st"
    and "unat seq < re_total_blocks env" and "length payload \<le> re_block_size env"
  shows "\<exists>st'. accept_packet env now pkt (Some a) st =
       Some (if unat seq \<in> bm_seqs (rs_bm st) then None else Some (unat seq, payload), st') \<and>
     rs_peer st' = Some a \<and> rs_all_sent st' = rs_all_sent st"
proof -
  obtain h body where pkt: "pkt = data_header_bytes h @ body" and h: "dh_session h = re_session env" "dh_block_seq h = seq"
      "length payload < 2 ^ 16" "dh_payload_len h = of_nat (length payload)"
      and body: "data_body (re_crc env) (re_dec env) (re_crypto env) h body payload"
    using assms(1) by (auto simp: data_pdu_def)
  have len: "unat (dh_payload_len h) = length payload" using h(3,4) by (simp add: unat_of_nat)
  let ?st = "st\<lparr>rs_peer := Some a\<rparr>"
  have "rtt_ok (rs_path ?st)" "rtt_ok (rs_net ?st)" "unat (dh_block_seq h) < bm_cap (rs_bm ?st)" using assms(3-5,7) h(2) by simp_all
  from claim_block_ok [OF this, of now payload] obtain blk st' where c: "claim_block now h payload ?st = Some (blk, st')"
      "blk = (if unat seq \<in> bm_seqs (rs_bm st) then None else Some (unat seq, payload))"
    unfolding h(2) by (elim exE conjE) (simp split: if_splits)
  have t: "pdu_type (data_header_bytes h @ body) = Some PDU_DATA" by (simp add: pdu_type_def index_at_def data_header_bytes_def)
  have "PDU_DATA \<noteq> PDU_FIN" by (simp add: PDU_DATA_def PDU_FIN_def)
  then have "accept_packet env now pkt (Some a) st = Some (blk, st')"
    using h(1,2) len assms(6,7,8) open_carried [OF body _ len] learn_from_peer [OF assms(6)] c(1) assms(2)
    by (simp add: accept_packet_def t accept_data_def pkt decode_data_header_bytes from_peer_def env_ok_def)
  then show ?thesis using c(2) claim_block_peer [OF c(1)] by (auto split: if_splits)
qed

lemma accept_outside:
  assumes "data_pdu crc dec crypto (re_session env) rex pkt seq payload" and "re_total_blocks env \<le> unat seq"
  shows "accept_packet env now pkt addr st = Some (None, st)"
proof -
  obtain h body where pkt: "pkt = data_header_bytes h @ body" and h: "dh_session h = re_session env" "dh_block_seq h = seq"
    using assms(1) by (auto simp: data_pdu_def)
  have t: "pdu_type (data_header_bytes h @ body) = Some PDU_DATA" by (simp add: pdu_type_def index_at_def data_header_bytes_def)
  have "PDU_DATA \<noteq> PDU_FIN" by (simp add: PDU_DATA_def PDU_FIN_def)
  then show ?thesis using h assms(2) by (simp add: accept_packet_def t accept_data_def pkt decode_data_header_bytes)
qed


section \<open>A receiver that takes one datagram after the other\<close>

text \<open>A worker receives a datagram, stores what it claims and publishes it.\<close>

definition turn :: "socket_addr \<Rightarrow> nat \<times> byte list \<Rightarrow> action list" where
  "turn a x = [Rx 0 (fst x) (snd x) (Some a), Store 0, Publish 0]"

text \<open>Between two turns the first worker is idle and every block that was claimed is published.\<close>

definition settled :: "any_sink recv_env \<Rightarrow> byte list \<Rightarrow> socket_addr \<Rightarrow> any_sink system \<Rightarrow> bool" where
  "settled env data a s \<longleftrightarrow>
     ctl_inv env s \<and> data_ok sink_bytes sink_sized env data s \<and> 0 < length (sy_workers s) \<and> sy_workers s ! 0 = Idle \<and>
     from_peer env a (sy_st s) \<and> \<not> rs_done (sy_st s) \<and> bm_seqs (rs_bm (sy_st s)) \<subseteq> bm_seqs (rs_ready_bm (sy_st s))"

lemma store_in_range:
  assumes "data_ok sink_bytes sink_sized env data s" and "describes env data" and "re_write env = any_write_all_at"
    and "seq < re_total_blocks env" and "p = block_of data (re_block_size env) seq" and "rs_sink st = rs_sink (sy_st s)"
  shows "\<exists>st'. store_block env seq p st = (True, st')"
proof -
  have "seq * re_block_size env < length data" using describes_in_file [OF assms(2)] assms(4) by simp
  then obtain k' where "any_write_all_at (rs_sink st) (seq * re_block_size env) p = Inr k'"
    using block_sink.write_one [OF any_snk.block_sink_axioms, of "re_block_size env" data "rs_sink st" seq] assms(1,2,5,6) by (auto simp: data_ok_def describes_def)
  then show ?thesis using assms(3) by (simp add: store_block_def)
qed

lemma store_block_frame:
  "store_block env seq p st = (ok, st') \<Longrightarrow> rs_bm st' = rs_bm st \<and> rs_ready_bm st' = rs_ready_bm st \<and> rs_peer st' = rs_peer st \<and>
     rs_all_sent st' = rs_all_sent st \<and> rs_done st' = rs_done st"
  by (auto simp: store_block_def split: if_splits sum.splits)


lemma exec_keeps:
  assumes "recv_exec env as s = Some s'" and "ctl_inv env s" and "data_ok sink_bytes sink_sized env data s" and "env_ok env"
    and "describes env data" and "re_write env = any_write_all_at" and "\<forall>x \<in> set as. genuine_action env data x"
  shows "ctl_inv env s'" and "data_ok sink_bytes sink_sized env data s'"
proof -
  obtain bs where bs: "set bs \<subseteq> set as" "recv_run env bs s s'" using recv_exec_runs [OF assms(1)] by blast
  show "ctl_inv env s'" using ctl_inv_run [OF bs(2) assms(2,4)] .
  show "data_ok sink_bytes sink_sized env data s'"
    using block_sink.data_ok_run [OF any_snk.block_sink_axioms bs(2) assms(3,2,4-6)] bs(1) assms(7) by blast
qed

lemma turn_nothing:
  assumes "0 < length (sy_workers s)" and "sy_workers s ! 0 = Idle" and "accept_packet env now pkt (Some a) (sy_st s) = Some (None, st)"
  shows "recv_exec env (turn a (now, pkt)) s = Some (s\<lparr>sy_st := st\<rparr>)"
  using assms list_update_id [of "sy_workers s" 0] by (simp add: turn_def)

lemma turn_block:
  assumes "0 < length (sy_workers s)" and "sy_workers s ! 0 = Idle"
    and "accept_packet env now pkt (Some a) (sy_st s) = Some (Some (seq, p), st1)"
    and "store_block env seq p st1 = (True, st2)" and "publish seq st2 = Some st3"
  shows "recv_exec env (turn a (now, pkt)) s = Some (s\<lparr>sy_st := st3\<rparr>)"
  using assms list_update_id [of "sy_workers s" 0] by (simp add: turn_def)

lemma turn_genuine: "genuine env data pkt \<Longrightarrow> \<forall>x \<in> set (turn a (now, pkt)). genuine_action env data x"
  by (simp add: turn_def)

lemma turn_settles:
  assumes "settled env data a s" and "env_ok env" and "describes env data" and "re_write env = any_write_all_at"
    and "genuine env data pkt" and "recv_exec env (turn a (now, pkt)) s = Some (s\<lparr>sy_st := st\<rparr>)"
    and "from_peer env a st" and "\<not> rs_done st" and "bm_seqs (rs_bm st) \<subseteq> bm_seqs (rs_ready_bm st)"
  shows "settled env data a (s\<lparr>sy_st := st\<rparr>)"
  using exec_keeps [OF assms(6) _ _ assms(2-4) turn_genuine [OF assms(5)]] assms(1,7-9) by (simp add: settled_def)

lemma turn_data:
  assumes "settled env data a s" and "env_ok env" and "describes env data" and "re_write env = any_write_all_at"
    and "data_pdu (re_crc env) (re_dec env) (re_crypto env) (re_session env) rex pkt seq payload"
    and "unat seq < re_total_blocks env" and "payload = block_of data (re_block_size env) (unat seq)"
  shows "\<exists>s'. recv_exec env (turn a (now, pkt)) s = Some s' \<and> settled env data a s' \<and> rs_peer (sy_st s') = Some a \<and>
     rs_all_sent (sy_st s') = rs_all_sent (sy_st s) \<and>
     bm_seqs (rs_ready_bm (sy_st s')) = insert (unat seq) (bm_seqs (rs_ready_bm (sy_st s)))"
proof -
  let ?st = "sy_st s"
  note set = assms(1) [unfolded settled_def]
  have ctl: "ctl_inv env s" and host: "\<not> wrong_host (re_expected_peer_ip env) a" using set by (simp_all add: from_peer_def)
  have gen: "genuine env data pkt" using data_pdu_genuine [OF assms(5)] assms(2,7) by (simp add: env_ok_def)
  have "length payload \<le> re_block_size env" by (simp add: assms(7) block_of_def)
  then obtain st1 where st1: "accept_packet env now pkt (Some a) ?st =
      Some (if unat seq \<in> bm_seqs (rs_bm ?st) then None else Some (unat seq, payload), st1)"
      "rs_peer st1 = Some a" "rs_all_sent st1 = rs_all_sent ?st"
    using accept_carried [OF assms(5,2) _ _ _ _ assms(6), of ?st a now] set by (auto simp: ctl_inv_def)
  then have acc: "accepted env pkt ?st (if unat seq \<in> bm_seqs (rs_bm ?st) then None else Some (unat seq, payload)) st1"
    using ctl_inv_accept_packet [OF ctl assms(2), of now pkt "Some a"] by auto
  have q: "rs_ready_bm st1 = rs_ready_bm ?st" "rs_done st1 = rs_done ?st" "rs_sink st1 = rs_sink ?st"
    using acc by (simp_all add: accepted_def quiet_update_def)
  show ?thesis
  proof (cases "unat seq \<in> bm_seqs (rs_bm ?st)")
    case True
    have bm: "bm_seqs (rs_bm st1) = bm_seqs (rs_bm ?st)" using acc True by (simp add: accepted_def)
    have e: "recv_exec env (turn a (now, pkt)) s = Some (s\<lparr>sy_st := st1\<rparr>)" using turn_nothing [of s] set st1(1) True by simp
    have "settled env data a (s\<lparr>sy_st := st1\<rparr>)"
      by (rule turn_settles [OF assms(1-4) gen e]) (use set st1(2) q bm host in \<open>simp_all add: from_peer_def\<close>)
    then show ?thesis using e st1(2,3) q(1) set True by (auto simp: insert_absorb)
  next
    case False
    have bm: "bm_seqs (rs_bm st1) = insert (unat seq) (bm_seqs (rs_bm ?st))" using acc False by (simp add: accepted_def)
    obtain st2 where st2: "store_block env (unat seq) payload st1 = (True, st2)"
      using store_in_range [OF _ assms(3,4,6,7) q(3)] set by blast
    note f = store_block_frame [OF st2]
    obtain ready where r: "publish (unat seq) st2 = Some (st2\<lparr>rs_ready_bm := ready\<rparr>)"
        "bm_seqs ready = insert (unat seq) (bm_seqs (rs_ready_bm ?st))"
      using publish_ok [of "unat seq" st2] f q(1) ctl assms(6) by (auto simp: ctl_inv_def)
    let ?st' = "st2\<lparr>rs_ready_bm := ready\<rparr>"
    have e: "recv_exec env (turn a (now, pkt)) s = Some (s\<lparr>sy_st := ?st'\<rparr>)"
      using turn_block [OF _ _ _ st2 r(1), of s now pkt a] set st1(1) False by simp
    have "settled env data a (s\<lparr>sy_st := ?st'\<rparr>)"
      by (rule turn_settles [OF assms(1-4) gen e]) (use set st1(2) q f bm r(2) host in \<open>auto simp: from_peer_def\<close>)
    then show ?thesis using e st1(2,3) f r(2) by auto
  qed
qed

lemma turn_outside:
  assumes "settled env data a s" and "data_pdu crc dec crypto (re_session env) rex pkt seq payload" and "re_total_blocks env \<le> unat seq"
  shows "recv_exec env (turn a (now, pkt)) s = Some s"
  using turn_nothing [of s env now pkt a "sy_st s"] accept_outside [OF assms(2,3)] assms(1) by (simp add: settled_def)

lemma linked_fin: "linked se dec env \<Longrightarrow> fin_pdu se = Some p \<longleftrightarrow> p = fin_bytes (re_session env) (re_total_blocks env)"
  by (auto simp: linked_def fin_pdu_def encode_fin_eq subslice_def)

lemma turn_fin:
  assumes "settled env data a s" and "env_ok env" and "describes env data" and "re_write env = any_write_all_at"
    and "linked se dec env" and "fin_pdu se = Some pkt"
  shows "\<exists>s'. recv_exec env (turn a (now, pkt)) s = Some s' \<and> settled env data a s' \<and> rs_peer (sy_st s') = Some a \<and>
     rs_all_sent (sy_st s') \<and> bm_seqs (rs_ready_bm (sy_st s')) = bm_seqs (rs_ready_bm (sy_st s))"
proof -
  let ?st = "(sy_st s)\<lparr>rs_peer := Some a, rs_all_sent := True\<rparr>"
  have "accept_packet env now pkt (Some a) (sy_st s) = Some (None, ?st)"
    using accept_fin [of env a "sy_st s" now] assms(1,2,5,6) linked_fin [OF assms(5), of pkt] by (simp add: settled_def from_peer_def env_ok_def)
  then have e: "recv_exec env (turn a (now, pkt)) s = Some (s\<lparr>sy_st := ?st\<rparr>)" using turn_nothing [of s] assms(1) by (simp add: settled_def)
  have "settled env data a (s\<lparr>sy_st := ?st\<rparr>)"
    by (rule turn_settles [OF assms(1-4) fin_genuine [OF assms(6)] e]) (use assms(1) in \<open>simp_all add: settled_def from_peer_def\<close>)
  then show ?thesis using e by auto
qed

lemma recv_exec_append: "recv_exec env (as @ bs) s = Option.bind (recv_exec env as s) (recv_exec env bs)"
proof (induction as arbitrary: s)
  case (Cons a as)
  then show ?case by (cases "recv_do env a s") simp_all
qed simp

text \<open>A log of the sender that is delivered whole: every new block is published, and with the FIN
  the end is announced.\<close>

definition taken :: "sender_env \<Rightarrow> byte list list \<Rightarrow> nat \<Rightarrow> socket_addr \<Rightarrow> any_sink system \<Rightarrow> bool" where
  "taken se wire k a s \<longleftrightarrow> {..<k} \<subseteq> bm_seqs (rs_ready_bm (sy_st s)) \<and>
     ((\<exists>p \<in> set wire. fin_pdu se = Some p) \<longrightarrow> rs_all_sent (sy_st s) \<and> rs_peer (sy_st s) = Some a)"

lemma log_taken:
  assumes "wire_log True se dec data k0 wire k" and "linked se dec env" and "env_ok env" and "describes env data"
    and "re_write env = any_write_all_at" and "settled env data a s" and "k0 = 0"
  shows "map snd xs = wire \<Longrightarrow> \<exists>s'. recv_exec env (concat (map (turn a) xs)) s = Some s' \<and> settled env data a s' \<and> taken se wire k a s'"
  using assms(1,7)
proof (induction arbitrary: xs)
  case (log_Nil k)
  then show ?case using assms(6) by (simp add: taken_def)
next
  case (log_Rex k ps k' p seq payload)
  obtain ys now where xs: "xs = ys @ [(now, p)]" "map snd ys = ps" using log_Rex.prems(1) by (auto simp: map_eq_append_conv)
  obtain s1 where s1: "recv_exec env (concat (map (turn a) ys)) s = Some s1" "settled env data a s1" "taken se ps k' a s1"
    using log_Rex.IH [OF xs(2) log_Rex.prems(2)] by blast
  have pdu: "data_pdu (re_crc env) (re_dec env) (re_crypto env) (re_session env) True p seq payload"
    using log_Rex.hyps(2) assms(2) by (simp add: linked_def)
  obtain s2 where "recv_exec env (turn a (now, p)) s1 = Some s2" "settled env data a s2" "taken se ps k' a s2"
  proof (cases "unat seq < re_total_blocks env")
    case True
    then have "payload = block_of data (re_block_size env) (unat seq)" using log_Rex.hyps(3) assms(2) by (simp add: linked_def)
    from turn_data [OF s1(2) assms(3-5) pdu True this, of now] that s1(3) show thesis by (auto simp: taken_def)
  next
    case False
    then show thesis using turn_outside [OF s1(2) pdu, of now] that s1(2,3) by simp
  qed
  then show ?case using s1(1) xs(1) carried_no_fin [OF log_Rex.hyps(2)] by (auto simp: recv_exec_append taken_def)
next
  case (log_New k ps k' p)
  obtain ys now where xs: "xs = ys @ [(now, p)]" "map snd ys = ps" using log_New.prems(1) by (auto simp: map_eq_append_conv)
  obtain s1 where s1: "recv_exec env (concat (map (turn a) ys)) s = Some s1" "settled env data a s1" "taken se ps k' a s1"
    using log_New.IH [OF xs(2) log_New.prems(2)] by blast
  have n: "unat (of_nat k' :: u64) = k'"
    using log_New.hyps(2) unsigned_less [of "se_total_blocks se", where 'a = nat] by (simp add: unat_of_nat)
  have pdu: "data_pdu (re_crc env) (re_dec env) (re_crypto env) (re_session env) False p (of_nat k') (block_of data (re_block_size env) k')"
    using log_New.hyps(3) assms(2) by (simp add: linked_def)
  obtain s2 where "recv_exec env (turn a (now, p)) s1 = Some s2" "settled env data a s2"
      "taken se ps (Suc k') a s2"
    using turn_data [OF s1(2) assms(3-5) pdu, of now] log_New.hyps(2) n assms(2) s1(3) by (auto simp: linked_def taken_def lessThan_Suc)
  then show ?case using s1(1) xs(1) carried_no_fin [OF log_New.hyps(3)] by (auto simp: recv_exec_append taken_def)
next
  case (log_Fin k ps k' p)
  obtain ys now where xs: "xs = ys @ [(now, p)]" "map snd ys = ps" using log_Fin.prems(1) by (auto simp: map_eq_append_conv)
  obtain s1 where s1: "recv_exec env (concat (map (turn a) ys)) s = Some s1" "settled env data a s1" "taken se ps k' a s1"
    using log_Fin.IH [OF xs(2) log_Fin.prems(2)] by blast
  from turn_fin [OF s1(2) assms(3-5,2) log_Fin.hyps(2), of now] s1(1,3) xs(1) log_Fin.hyps(3)
  show ?case by (auto simp: recv_exec_append taken_def)
qed

section \<open>The end of the transfer\<close>

lemma flushes_finish:
  "ctl_inv env s \<Longrightarrow> all_ready env s \<Longrightarrow> re_total_blocks env \<le> rs_flushed (sy_st s) + m \<Longrightarrow>
     \<exists>s'. recv_exec env (replicate m Flush) s = Some s' \<and> ctl_inv env s' \<and> rs_flushed (sy_st s') = re_total_blocks env \<and>
       rs_all_sent (sy_st s') = rs_all_sent (sy_st s) \<and> rs_peer (sy_st s') = rs_peer (sy_st s) \<and> rs_done (sy_st s') = rs_done (sy_st s)"
proof (induction m arbitrary: s)
  case 0
  then show ?case by (auto simp: ctl_inv_def)
next
  case (Suc m)
  show ?case
  proof (cases rule: flush_step_cases [OF Suc.prems(1)])
    case 1
    have "rs_flushed (sy_st s) \<le> re_total_blocks env" using Suc.prems(1) by (simp add: ctl_inv_def)
    then have "rs_flushed (sy_st s) = re_total_blocks env" using Suc.prems(2) 1(2) by (auto simp: all_ready_def le_less)
    then show ?thesis using Suc.IH [OF Suc.prems(1,2)] 1(1) by simp
  next
    case 2
    let ?s = "s\<lparr>sy_st := flush_block env (sy_st s)\<rparr>"
    obtain stage free sink where f: "flush_block env (sy_st s) = (sy_st s)\<lparr>rs_stage := stage, rs_free := free, rs_sink := sink,
        rs_flushed := rs_flushed (sy_st s) + 1\<rparr>"
      using flush_block_frame [of env "sy_st s"] by (elim exE)
    have "all_ready env ?s" "re_total_blocks env \<le> rs_flushed (sy_st ?s) + m" using Suc.prems(2,3) by (simp_all add: all_ready_def f)
    from Suc.IH [OF ctl_inv_flush [OF Suc.prems(1) 2(2,3)] this] show ?thesis using 2(1) by (simp add: f)
  qed
qed

lemma new_receiver_settled:
  assumes "config_ok dec c" and "new_receiver n any_write_all_at crc dec sink c = Some (env, st)" and "0 < n"
    and "\<not> wrong_host (re_expected_peer_ip env) a" and "sink_sized sink" and "length (sink_bytes sink) = length data"
  shows "settled env data a (system_start env st n)" and "env_ok env" and "re_write env = any_write_all_at"
proof -
  have r: "reaches any_write_all_at crc dec sink c n [] env (system_start env st n)" using assms(2) run_Nil unfolding reaches_def by blast
  show "env_ok env" "re_write env = any_write_all_at" using reaches_inv [OF assms(1) r] by simp_all
  have f: "rs_peer st = None" "\<not> rs_done st" "rs_bm st = rs_ready_bm st" "rs_sink st = sink" "rs_stage st = Map.empty"
      "bm_seqs (rs_ready_bm st) = {}"
    using assms(2) by (auto simp: new_receiver_def with_recv_defaults_def Let_def bind_eq_Some_conv)
  then have "data_ok sink_bytes sink_sized env data (system_start env st n)"
    using assms(5,6) by (simp add: data_ok_def system_start_def stored_def)
  then show "settled env data a (system_start env st n)"
    using reaches_inv(1) [OF assms(1) r] assms(3,4) f by (simp add: settled_def system_start_def from_peer_def)
qed

lemma taken_completes:
  assumes "settled env data a s" and "env_ok env" and "taken se wire (re_total_blocks env) a s" and "\<exists>p \<in> set wire. fin_pdu se = Some p"
    and "length ticks = 8" and "list_all is_tick ticks"
  shows "\<exists>s'. recv_exec env (replicate (re_total_blocks env) Flush @ ticks) s = Some s' \<and> rs_done (sy_st s') \<and> recv_result env (sy_st s') = Inr ()"
proof -
  have t: "all_ready env s" "rs_all_sent (sy_st s)" "rs_peer (sy_st s) = Some a" using assms(3,4) by (auto simp: taken_def all_ready_def)
  have c: "ctl_inv env s" "\<not> rs_done (sy_st s)" using assms(1) by (simp_all add: settled_def)
  obtain s1 where s1: "recv_exec env (replicate (re_total_blocks env) Flush) s = Some s1" "ctl_inv env s1" "finished env s1" "\<not> rs_done (sy_st s1)"
    using flushes_finish [OF c(1) t(1), of "re_total_blocks env"] t(2,3) c(2) by (auto simp: finished_def)
  obtain s' where "recv_exec env ticks s1 = Some s'" "rs_done (sy_st s')" "recv_result env (sy_st s') = Inr ()"
    using ticks_finish [OF assms(2) s1(2-4) assms(6)] assms(5) by fastforce
  then show ?thesis using s1(1) by (simp add: recv_exec_append)
qed

text \<open>Property C4: without losses a transfer completes. When an undisturbed sender has announced its FIN and the
  network has brought the receiver what was sent, in the order it was sent and at whatever times, then the flusher's
  turns and eight ticks of the feedback thread bring the receiver to its end: it reports success, and
  its sink holds the file. The datagrams may be sealed, may repeat blocks, and may number blocks outside the file.\<close>

theorem loss_free_transfer_completes:
  assumes "se = sender_env_of read crc enc (sender_new conf) peer" and "sender_for se dec data" and "source_reads read data"
    and "run_sender se (buf_size se) es (sender_start (sender_new conf) (buf_size se) now) = Some (res, wire, sst)"
    and "list_all quiet es" and "\<not> should_stop False (sc_control conf)" and "\<exists>fin \<in> set wire. fin_pdu se = Some fin"
    and "config_ok dec c" and "new_receiver n any_write_all_at crc' dec sink c = Some (env, st)" and "0 < n" and "linked se dec env"
    and "sink_sized sink" and "length (sink_bytes sink) = length data" and "\<not> wrong_host (re_expected_peer_ip env) a"
    and "map snd arrivals = wire" and "length ticks = 8" and "list_all is_tick ticks"
  shows "\<exists>st'. run_receiver env n stop (concat (map (turn a) arrivals) @ replicate (re_total_blocks env) Flush @ ticks) st =
           (Returned (Inr ()), st') \<and> sink_bytes (rs_sink st') = data"
proof -
  let ?s = "system_start env st n" and ?ts = "concat (map (turn a) arrivals)" and ?fs = "replicate (re_total_blocks env) Flush @ ticks"
  have rd: "source_reads (se_read se) data" using assms(1,3) by (simp add: sender_env_of_def)
  have "sender_inv True se dec data 0 (sender_start (sender_new conf) (buf_size se) now)"
    by (rule sender_start_inv [OF assms(2,1)]) (use assms(6) in simp)
  from run_sender_ok [OF assms(2) rd this, of es] obtain k where log: "wire_log True se dec data 0 wire k" using assms(4-6) by auto
  have d: "describes env data" by (rule linked_describes [OF assms(11,2)])
  note new = new_receiver_settled [OF assms(8-10,14,12,13)]
  have "k = re_total_blocks env" using assms(7,11) log_fin_last [OF log] by (auto simp: linked_def)
  then obtain s1 where s1: "recv_exec env ?ts ?s = Some s1" "settled env data a s1" "taken se wire (re_total_blocks env) a s1"
    using log_taken [OF log assms(11) new(2) d new(3,1) refl assms(15)] by blast
  obtain s2 where s2: "recv_exec env ?fs s1 = Some s2" "rs_done (sy_st s2)" "recv_result env (sy_st s2) = Inr ()"
    using taken_completes [OF s1(2) new(2) s1(3) assms(7,16,17)] by blast
  have gen: "\<forall>x \<in> set ?fs. genuine_action env data x"
    using assms(17) by (auto simp: list_all_iff) (metis genuine_action.simps(5) is_tick.elims(2))
  have k: "ctl_inv env s2" "data_ok sink_bytes sink_sized env data s2"
    using exec_keeps [OF s2(1) _ _ new(2) d new(3) gen] s1(2) by (simp_all add: settled_def)
  then have "sink_bytes (rs_sink (sy_st s2)) = data" using data_ok_complete [OF k(2,1) d] s2(2) by (simp add: ctl_inv_def)
  then show ?thesis using s1(1) s2 by (simp add: run_receiver_def recv_exec_append)
qed

text \<open>A feedback datagram of the session that says DONE ends the sender at its next turn.\<close>

lemma decoded_feedback_type: "decode_feedback pkt = Some (Some x) \<Longrightarrow> pdu_type pkt = Some PDU_FEEDBACK"
  by (auto simp: decode_feedback_def pdu_type_def size_defs bind_eq_Some_conv split: if_splits)

lemma done_ends_sender:
  assumes "done_feedback se (EvFeedback False t pkt addr)" and "\<not> should_stop False (ss_control st)"
  shows "\<exists>st'. run_sender se bl [EvFeedback False t pkt addr, EvPace False t1 t2] st = Some (PaceOk, [], st')"
proof -
  obtain fh nacks where d: "decode_feedback pkt = Some (Some (fh, nacks))" "fh_session fh = se_session se" "fh_done fh" "addr = se_peer se"
    using assms(1) by auto
  obtain st' where "feedback_step se False t pkt addr st = Some st'" "ss_done st'"
    using d assms(2) decoded_feedback_type [OF d(1)] by (cases "ss_done st") (auto simp: feedback_step_def Let_def)
  then show ?thesis by (simp add: pacing_step_def)
qed

text \<open>Property C23: the end of the receiver is the end of the sender. Every tick of a receiver that has all blocks
  flushed and has seen the FIN sends a datagram, and the sender of the session that receives it, in whatever state of its
  run, returns success at the next turn of its pacing loop without sending anything more.\<close>

theorem completion_ends_the_sender:
  assumes "config_ok dec c" and "reaches wr crc dec sink c n as env s" and "finished env s" and "linked se dec env"
    and "\<not> should_stop False (ss_control sst)"
  shows "\<exists>pdu a fl st sst'. feedback_iter env now now2 now3 sent_ok (sy_fl s) (sy_st s) = Some (Some (pdu, a), fl, st) \<and>
           run_sender se bl [EvFeedback False t pdu (se_peer se), EvPace False t1 t2] sst = Some (PaceOk, [], sst')"
proof -
  obtain out fl st where it: "feedback_iter env now now2 now3 sent_ok (sy_fl s) (sy_st s) = Some (out, fl, st)"
      "case out of None \<Rightarrow> rs_peer (sy_st s) = None | Some (pdu, a) \<Rightarrow> rs_peer (sy_st s) = Some a \<and> feedback_sound env (sy_st s) pdu"
    using feedback_iter_ok [OF reaches_inv(1,2) [OF assms(1,2)], of now now2 now3 sent_ok] by (elim exE conjE)
  then obtain pdu a where out: "out = Some (pdu, a)" "feedback_sound env (sy_st s) pdu"
    using assms(3) by (cases out) (auto simp: finished_def)
  have "done_feedback se (EvFeedback False t pdu (se_peer se))"
    using out(2) assms(3,4) by (auto simp: feedback_sound_def finished_def linked_def)
  from done_ends_sender [OF this assms(5), of bl t1 t2] it(1) out(1) show ?thesis by blast
qed

section \<open>A sample transfer\<close>

text \<open>Five bytes in blocks of two, to a file of five zeros.\<close>

definition copy_recv :: recv_config where
  "copy_recv = sample_recv\<lparr>rv_file_size := 5, rv_total_blocks := 3\<rparr>"

definition blank_file :: any_sink where
  "blank_file = FileSink ''/dst'' \<lparr>fsnk_file = replicate 5 0, fsnk_len = 5\<rparr>"

lemma copy_recv_ok: "config_ok copy_dec copy_recv"
  using sample_recv_ok by (auto simp: config_ok_def copy_recv_def sample_recv_def dec_lengths_def copy_dec_def)

lemma copy_recv_linked:
  assumes "new_receiver 1 any_write_all_at (sum_crc 0) copy_dec blank_file copy_recv = Some (env, st)"
  shows "linked sample_env copy_dec env" and "re_expected_peer_ip env = None" and "re_total_blocks env = 3"
  using assms by (auto simp: linked_def new_receiver_def with_recv_defaults_def copy_recv_def sample_recv_def sample_env_def sender_env_of_def
      sample_conf_def sender_new_def Let_def bind_eq_Some_conv)

theorem loss_free_transfer_completes_witness:
  "\<exists>wire env st st'. new_receiver 1 any_write_all_at (sum_crc 0) copy_dec blank_file copy_recv = Some (env, st) \<and>
     run_receiver env 1 False (concat (map (turn sample_peer) (map (Pair 0) wire)) @ replicate 3 Flush @ eight_ticks) st =
       (Returned (Inr ()), st') \<and> sink_bytes (rs_sink st') = [1, 2, 3, 4, 5]"
proof -
  let ?ts = "[(1, 2), (3, 4), (5, 6), (7, 8)] :: (nat \<times> nat) list"
  let ?s0 = "sender_start (sender_new sample_conf) (buf_size sample_env) 0"
  obtain fin where fin: "fin_pdu sample_env = Some fin" using fin_pdu_eq by blast
  have rd: "source_reads (se_read sample_env) sample_data" using sample_reads by (simp add: sample_env_def sender_env_of_def)
  have ctl: "\<not> should_stop False (sc_control sample_conf)" "\<not> control_paused (sc_control sample_conf)"
    by (simp_all add: sample_conf_def should_stop_def control_paused_def)
  have inv: "sender_inv True sample_env copy_dec sample_data 0 ?s0" by (rule sender_start_inv [OF sample_for sample_env_def]) (use ctl in simp)
  have c: "coasting ?s0" using ctl by (simp add: coasting_def sender_start_def Let_def split: prod.split)
  have n: "unat (se_total_blocks sample_env) < unat (ss_next ?s0) + length ?ts"
    by (simp add: sample_env_def sender_env_of_def sample_conf_def sender_new_def)
  obtain res wire sst where run: "run_sender sample_env (buf_size sample_env) (concat (map send_round ?ts)) ?s0 = Some (res, wire, sst)"
      "fin \<in> set wire"
    using rounds_announce [OF sample_for rd fin inv c n] by blast
  obtain env st where new: "new_receiver 1 any_write_all_at (sum_crc 0) copy_dec blank_file copy_recv = Some (env, st)"
    using new_receiver_cold [of copy_recv 1 any_write_all_at "sum_crc 0" copy_dec blank_file] by (auto simp: copy_recv_def sample_recv_def)
  note l = copy_recv_linked [OF new]
  have "\<exists>st'. run_receiver env 1 False (concat (map (turn sample_peer) (map (Pair 0) wire)) @ replicate (re_total_blocks env) Flush @ eight_ticks) st =
      (Returned (Inr ()), st') \<and> sink_bytes (rs_sink st') = sample_data"
    by (rule loss_free_transfer_completes [OF sample_env_def sample_for sample_reads run(1) _ ctl(1) _ copy_recv_ok new _ l(1)])
      (use run(2) fin l(2) in \<open>auto simp: send_round_def blank_file_def sample_data_def wrong_host_def eight_ticks_def comp_def list_all_iff\<close>)
  then show ?thesis using new l(3) by (auto simp: sample_data_def)
qed

definition empty_sender :: sender_env where
  "empty_sender = sender_env_of (mem_read_exact_at []) (sum_crc 0) copy_enc (sample_conf\<lparr>sc_file_size := 0, sc_total_blocks := 0\<rparr>) sample_peer"

theorem completion_ends_the_sender_witness:
  "\<exists>env s pdu a fl st sst'. reaches file_write_all_at (sum_crc 0) copy_all sample_sink empty_recv 1 [Rx 0 0 (fin_bytes 7 0) (Some sample_peer)] env s \<and>
     feedback_iter env 0 0 0 True (sy_fl s) (sy_st s) = Some (Some (pdu, a), fl, st) \<and>
     run_sender empty_sender 38 [EvFeedback False 0 pdu sample_peer, EvPace False 1 2] (sender_start sample_conf 38 0) = Some (PaceOk, [], sst')"
proof -
  obtain env s where r: "reaches file_write_all_at (sum_crc 0) copy_all sample_sink empty_recv 1 [Rx 0 0 (fin_bytes 7 0) (Some sample_peer)] env s"
      "finished env s"
    using empty_finished by blast
  have "linked empty_sender copy_all env"
    using r(1) by (auto simp: reaches_def linked_def new_receiver_def with_recv_defaults_def empty_recv_def sample_recv_def empty_sender_def
        sender_env_of_def sample_conf_def Let_def bind_eq_Some_conv)
  moreover have "\<not> should_stop False (ss_control (sender_start sample_conf 38 0))" by (simp add: sample_conf_def should_stop_def)
  moreover have "se_peer empty_sender = sample_peer" by (simp add: empty_sender_def sender_env_of_def)
  moreover have "config_ok copy_all empty_recv" using sample_recv_ok by (simp add: config_ok_def empty_recv_def)
  ultimately show ?thesis
    using completion_ends_the_sender [OF _ r, of empty_sender "sender_start sample_conf 38 0" 0 0 0 True 38 0 1 2] r(1) by metis
qed

end
