(* ===== verification/Registered_IO.thy ===== *)
theory Registered_IO
  imports Net_Batch Wire
begin

text \<open>
  The Windows receive backend of \<open>src/src/sys/rio.rs\<close>: \<open>RioCore\<close> with its registered regions,
  request queue and completion queues, the harvester \<open>BatchReceiver\<close> and the feedback sender.

  Registered I/O itself is the operating system's. Its documented behaviour is the kernel part of the
  state (which receives are posted, what the completion queues hold, whether a notification is armed and
  the event set) and the events \<open>Landed\<close>, \<open>Failed\<close> and \<open>SendDone\<close>: a posted receive completes
  once, into the buffers of its descriptors; \<open>RIODequeueCompletion\<close> gives the oldest results, as many
  as fit; \<open>RIONotify\<close> is one-shot and fires at once when results are waiting. Whether a call fails is
  an argument. A completion that lands while the harvester is between two calls is an event of its own;
  one that lands inside \<open>recv\<close> commutes with the re-posts, so it is listed before the call or, when
  the harvester waits, in the events of the wait. Raw pointer accesses are bounds-checked: \<open>None\<close> is
  an access outside the registered region (or a panic).
\<close>

section \<open>The core\<close>

definition NSLOTS :: nat where "NSLOTS = 4096"
definition DEQ :: nat where "DEQ = 512"
definition ADDR_SLOT :: nat where "ADDR_SLOT = 32"
definition SEND_RING :: nat where "SEND_RING = 16"
definition SEND_CTX :: nat where "SEND_CTX = 2 ^ 64 - 1"

lemmas rio_consts = NSLOTS_def DEQ_def ADDR_SLOT_def SEND_RING_def SEND_CTX_def

datatype rio_handle =
    DataBuffer | AddrBuffer | SendDataBuffer | SendAddrBuffer | CompletionEvent | RecvQueue | SendQueue | RequestQueue

text \<open>\<open>RIO_BUF\<close> without its buffer identifier, and \<open>RIORESULT\<close>.\<close>

record rio_buf =
  rb_offset :: u32
  rb_length :: u32

record rio_result =
  rr_status :: int
  rr_bytes :: nat
  rr_ctx :: nat

record rio_core =
  rc_buf_len :: nat
  rc_data :: "byte list"
  rc_addr :: "byte list"
  rc_data_descs :: "rio_buf list"
  rc_addr_descs :: "rio_buf list"
  rc_send_data :: "byte list"
  rc_send_addr :: "byte list"
  rc_next :: nat
  rc_posted :: "nat list"
  rc_cq :: "rio_result list"
  rc_sends :: "(rio_buf \<times> rio_buf) list"
  rc_send_cq :: "rio_result list"
  rc_notify :: bool
  rc_event :: bool

definition rio_post_recv :: "bool \<Rightarrow> nat \<Rightarrow> rio_core \<Rightarrow> rio_core io may_panic" where
  "rio_post_recv ok idx core = do {
     d \<leftarrow> index_at (rc_data_descs core) idx;
     a \<leftarrow> index_at (rc_addr_descs core) idx;
     Some (if ok then Inr (core\<lparr>rc_posted := rc_posted core @ [idx]\<rparr>) else Inl OtherIO)
   }"

definition rio_arm_notify :: "bool \<Rightarrow> rio_core \<Rightarrow> rio_core io" where
  "rio_arm_notify ok core =
     (if \<not> ok then Inl OtherIO
      else if rc_cq core \<noteq> [] then Inr (core\<lparr>rc_event := True\<rparr>)
      else Inr (core\<lparr>rc_notify := True\<rparr>))"

text \<open>What the system answers while the core is set up.\<close>

record rio_setup =
  ra_table :: bool
  ra_data :: bool
  ra_addr :: bool
  ra_send_data :: bool
  ra_send_addr :: bool
  ra_event :: bool
  ra_cq :: bool
  ra_send_cq :: bool
  ra_rq :: bool
  ra_posts :: "nat \<Rightarrow> bool"
  ra_notify :: bool

definition rio_descs :: "nat \<Rightarrow> rio_buf list" where
  "rio_descs len = map (\<lambda>i. \<lparr>rb_offset = of_nat (i * len), rb_length = of_nat len\<rparr>) [0..<NSLOTS]"

definition rio_fresh :: "nat \<Rightarrow> rio_core" where
  "rio_fresh buf_len =
     \<lparr>rc_buf_len = buf_len, rc_data = replicate (NSLOTS * buf_len) 0, rc_addr = replicate (NSLOTS * ADDR_SLOT) 0,
      rc_data_descs = rio_descs buf_len, rc_addr_descs = rio_descs ADDR_SLOT,
      rc_send_data = replicate (SEND_RING * buf_len) 0, rc_send_addr = replicate (SEND_RING * ADDR_SLOT) 0,
      rc_next = 0, rc_posted = [], rc_cq = [], rc_sends = [], rc_send_cq = [], rc_notify = False, rc_event = False\<rparr>"

text \<open>The loop that posts slots \<open>i, ..., n - 1\<close>.\<close>

function rio_post_all :: "(nat \<Rightarrow> bool) \<Rightarrow> nat \<Rightarrow> nat \<Rightarrow> rio_core \<Rightarrow> rio_core io may_panic" where
  "rio_post_all oks n i core =
     (if i < n then do {
        r \<leftarrow> rio_post_recv (oks i) i core;
        (case r of Inl e \<Rightarrow> Some (Inl e) | Inr core \<Rightarrow> rio_post_all oks n (Suc i) core)
      } else Some (Inr core))"
  by auto
termination
  by (relation "measure (\<lambda>(oks, n, i, core). n - i)") auto

declare rio_post_all.simps [simp del]

text \<open>\<open>Drop for RioCore\<close>: the handles that stay open. The request queue goes with the socket.\<close>

definition rio_drop :: "rio_handle list \<Rightarrow> rio_handle list" where
  "rio_drop open_handles =
     filter (\<lambda>h. h \<notin> {RecvQueue, SendQueue, DataBuffer, AddrBuffer, SendDataBuffer, SendAddrBuffer, CompletionEvent}) open_handles"

text \<open>\<open>RioCore::new\<close>, with the handles that are open when it returns.\<close>

definition rio_core_new :: "rio_setup \<Rightarrow> nat \<Rightarrow> (rio_core io \<times> rio_handle list) may_panic" where
  "rio_core_new ra buf_len =
     (let bufs = [DataBuffer, AddrBuffer, SendDataBuffer, SendAddrBuffer];
          queues = bufs @ [CompletionEvent, RecvQueue, SendQueue, RequestQueue]
      in if \<not> ra_table ra then Some (Inl OtherIO, [])
         else if \<not> ra_data ra then Some (Inl OtherIO, [])
         else if \<not> ra_addr ra then Some (Inl OtherIO, [DataBuffer])
         else if \<not> ra_send_data ra \<or> \<not> ra_send_addr ra then
           Some (Inl OtherIO, [DataBuffer, AddrBuffer] @ (if ra_send_data ra then [SendDataBuffer] else []) @
             (if ra_send_addr ra then [SendAddrBuffer] else []))
         else if \<not> ra_event ra then Some (Inl OtherIO, bufs)
         else if \<not> ra_cq ra then Some (Inl OtherIO, bufs @ [CompletionEvent])
         else if \<not> ra_send_cq ra then Some (Inl OtherIO, bufs @ [CompletionEvent, RecvQueue])
         else if \<not> ra_rq ra then Some (Inl OtherIO, bufs @ [CompletionEvent, RecvQueue, SendQueue])
         else do {
           r \<leftarrow> rio_post_all (ra_posts ra) NSLOTS 0 (rio_fresh buf_len);
           (case r of
              Inl e \<Rightarrow> Some (Inl e, rio_drop queues)
            | Inr core \<Rightarrow>
                (case rio_arm_notify (ra_notify ra) core of
                   Inl e \<Rightarrow> Some (Inl e, rio_drop queues)
                 | Inr core \<Rightarrow> Some (Inr core, queues)))
         })"

section \<open>The feedback path\<close>

text \<open>\<open>write_sockaddr\<close>: the Windows layout, in which \<open>AF_INET6\<close> is 23.\<close>

fun write_sockaddr :: "socket_addr \<Rightarrow> byte list" where
  "write_sockaddr (V4 a p) = le_bytes 2 (2 :: u16) @ rev (le_bytes 2 p) @ a @ replicate 8 0"
| "write_sockaddr (V6 a p f s) = le_bytes 2 (23 :: u16) @ rev (le_bytes 2 p) @ le_bytes 4 f @ a @ le_bytes 4 s"

text \<open>The loop over \<open>RIODequeueCompletion\<close> on the send queue: it ends when nothing is left, or at once
  when the queue is reported corrupt.\<close>

function rio_reap_sends :: "bool \<Rightarrow> rio_result list \<Rightarrow> rio_result list" where
  "rio_reap_sends corrupt q = (if corrupt \<or> take SEND_RING q = [] then q else rio_reap_sends corrupt (drop SEND_RING q))"
  by auto
termination
  by (relation "measure (\<lambda>(corrupt, q). length q)") (auto simp: SEND_RING_def)

declare rio_reap_sends.simps [simp del]

definition rio_send_to :: "bool \<Rightarrow> bool \<Rightarrow> byte list \<Rightarrow> socket_addr \<Rightarrow> rio_core \<Rightarrow> (nat io \<times> rio_core) may_panic" where
  "rio_send_to corrupt ok buf peer core = do {
     let len = min (length buf) (rc_buf_len core);
     let core = core\<lparr>rc_send_cq := rio_reap_sends corrupt (rc_send_cq core)\<rparr>;
     let slot = rc_next core;
     let core = core\<lparr>rc_next := (slot + 1) mod SEND_RING\<rparr>;
     let doff = slot * rc_buf_len core;
     data \<leftarrow> write_at (rc_send_data core) doff (take len buf);
     let data_desc = \<lparr>rb_offset = of_nat doff, rb_length = of_nat len\<rparr>;
     let aoff = slot * ADDR_SLOT;
     addr \<leftarrow> write_at (rc_send_addr core) aoff (replicate ADDR_SLOT 0);
     addr \<leftarrow> write_at addr aoff (write_sockaddr peer);
     let addr_desc = \<lparr>rb_offset = of_nat aoff, rb_length = of_nat ADDR_SLOT\<rparr>;
     let core = core\<lparr>rc_send_data := data, rc_send_addr := addr\<rparr>;
     Some (if ok then (Inr len, core\<lparr>rc_sends := rc_sends core @ [(data_desc, addr_desc)]\<rparr>) else (Inl OtherIO, core))
   }"

section \<open>The harvester\<close>

record rio_receiver =
  rh_batch :: "(nat \<times> nat) list"
  rh_pending :: "nat list"
  rh_armed :: bool

definition rio_worker :: rio_receiver where
  "rio_worker = \<lparr>rh_batch = [], rh_pending = [], rh_armed = True\<rparr>"

text \<open>The system's side: a receive completes with a datagram, or fails; a send completes.\<close>

datatype rio_event =
    Landed nat "byte list" socket_addr
  | Failed nat int nat
  | SendDone
  | Feedback bool bool "byte list" socket_addr

definition rio_complete :: "rio_result \<Rightarrow> rio_core \<Rightarrow> rio_core" where
  "rio_complete r core =
     core\<lparr>rc_posted := remove1 (rr_ctx r) (rc_posted core), rc_cq := rc_cq core @ [r],
          rc_event := rc_event core \<or> rc_notify core, rc_notify := False\<rparr>"

definition rio_store :: "nat \<Rightarrow> byte list \<Rightarrow> socket_addr \<Rightarrow> rio_core \<Rightarrow> rio_core" where
  "rio_store idx d a core =
     (let dd = rc_data_descs core ! idx; ad = rc_addr_descs core ! idx
      in core\<lparr>rc_data := overwrite (rc_data core) (unat (rb_offset dd)) (take (unat (rb_length dd)) d),
              rc_addr := overwrite (rc_addr core) (unat (rb_offset ad)) (take (unat (rb_length ad)) (write_sockaddr a))\<rparr>)"

fun rio_kernel :: "rio_event \<Rightarrow> rio_core \<Rightarrow> rio_core may_panic" where
  "rio_kernel (Landed idx d a) core =
     Some (if idx \<in> set (rc_posted core)
           then rio_complete \<lparr>rr_status = 0, rr_bytes = min (length d) (unat (rb_length (rc_data_descs core ! idx))), rr_ctx = idx\<rparr>
                  (rio_store idx d a core)
           else core)"
| "rio_kernel (Failed idx status n) core =
     Some (if idx \<in> set (rc_posted core) \<and> status \<noteq> 0
           then rio_complete \<lparr>rr_status = status, rr_bytes = n, rr_ctx = idx\<rparr> core else core)"
| "rio_kernel SendDone core =
     Some (case rc_sends core of
             [] \<Rightarrow> core
           | s # ss \<Rightarrow> core\<lparr>rc_sends := ss,
                 rc_send_cq := rc_send_cq core @ [\<lparr>rr_status = 0, rr_bytes = unat (rb_length (fst s)), rr_ctx = SEND_CTX\<rparr>]\<rparr>)"
| "rio_kernel (Feedback corrupt ok buf peer) core = map_option snd (rio_send_to corrupt ok buf peer core)"

fun rio_kernels :: "rio_event list \<Rightarrow> rio_core \<Rightarrow> rio_core may_panic" where
  "rio_kernels [] core = Some core"
| "rio_kernels (e # es) core = rio_kernel e core \<bind> rio_kernels es"

text \<open>\<open>self.pending.retain(...)\<close>: a slot whose post fails stays pending.\<close>

fun rio_repost :: "bool list \<Rightarrow> nat list \<Rightarrow> rio_core \<Rightarrow> (nat list \<times> rio_core) may_panic" where
  "rio_repost oks [] core = Some ([], core)"
| "rio_repost oks (idx # rest) core = do {
     r \<leftarrow> rio_post_recv (oks \<noteq> [] \<and> hd oks) idx core;
     (case r of
        Inr core \<Rightarrow> rio_repost (tl oks) rest core
      | Inl e \<Rightarrow> map_option (\<lambda>(keep, core). (idx # keep, core)) (rio_repost (tl oks) rest core))
   }"

text \<open>The loop over the dequeued results.\<close>

fun rio_harvest :: "rio_result list \<Rightarrow> rio_receiver \<Rightarrow> rio_receiver" where
  "rio_harvest [] h = h"
| "rio_harvest (r # rs) h =
     (if rr_ctx r = SEND_CTX then rio_harvest rs h
      else rio_harvest rs (h\<lparr>rh_batch := rh_batch h @ [(rr_ctx r, if rr_status r = 0 then rr_bytes r else 0)],
                             rh_pending := rh_pending h @ [rr_ctx r]\<rparr>))"

definition rio_dequeue :: "bool \<Rightarrow> rio_receiver \<Rightarrow> rio_core \<Rightarrow> nat io \<times> rio_receiver \<times> rio_core" where
  "rio_dequeue corrupt h core =
     (if corrupt then (Inl OtherIO, h, core)
      else let rs = take DEQ (rc_cq core);
               core = core\<lparr>rc_cq := drop DEQ (rc_cq core)\<rparr>
           in if rs = [] then (Inl WouldBlock, h, core)
              else let h = rio_harvest rs h in (Inr (length (rh_batch h)), h, core))"

text \<open>\<open>recv\<close>: \<open>oks\<close> answers the re-posts, \<open>es\<close> happens during the wait on the event.\<close>

definition rio_recv ::
  "bool list \<Rightarrow> bool \<Rightarrow> bool \<Rightarrow> rio_event list \<Rightarrow> bool \<Rightarrow> rio_receiver \<Rightarrow> rio_core \<Rightarrow> (nat io \<times> rio_receiver \<times> rio_core) may_panic"
where
  "rio_recv oks corrupt1 arm_ok es corrupt2 h core = do {
     (keep, core) \<leftarrow> rio_repost oks (rh_pending h) core;
     let h = h\<lparr>rh_pending := keep, rh_batch := []\<rparr>;
     if corrupt1 \<or> rc_cq core \<noteq> [] then Some (rio_dequeue corrupt1 h core)
     else (case (if rh_armed h then Inr core else rio_arm_notify arm_ok core) of
             Inl e \<Rightarrow> Some (Inl e, h, core)
           | Inr core \<Rightarrow> do {
               let h = h\<lparr>rh_armed := True\<rparr>;
               core \<leftarrow> rio_kernels es core;
               Some (if rc_event core
                     then rio_dequeue corrupt2 (h\<lparr>rh_armed := False\<rparr>) (core\<lparr>rc_event := False\<rparr>)
                     else (Inl WouldBlock, h, core))
             })
   }"

text \<open>\<open>parse_addr\<close> and the view of a harvested datagram.\<close>

definition rio_sockaddr :: "byte list \<Rightarrow> socket_addr option" where
  "rio_sockaddr ss =
     (let family = unat (le_word (take 2 ss) :: u16);
          port = le_word (rev (take 2 (drop 2 ss)))
      in if family = 2 then Some (V4 (take 4 (drop 4 ss)) port)
         else if family = 23 then
           Some (V6 (take 16 (drop 8 ss)) port (le_word (take 4 (drop 4 ss))) (le_word (take 4 (drop 24 ss))))
         else None)"

definition rio_parse_addr :: "nat \<Rightarrow> rio_core \<Rightarrow> socket_addr option may_panic" where
  "rio_parse_addr idx core = map_option rio_sockaddr (subslice (rc_addr core) (idx * ADDR_SLOT) (idx * ADDR_SLOT + ADDR_SLOT))"

definition rio_message_mut :: "rio_receiver \<Rightarrow> rio_core \<Rightarrow> nat \<Rightarrow> (byte list \<times> socket_addr option) may_panic" where
  "rio_message_mut h core i = do {
     (idx, bytes) \<leftarrow> index_at (rh_batch h) i;
     let n = min bytes (rc_buf_len core);
     let off = idx * rc_buf_len core;
     addr \<leftarrow> rio_parse_addr idx core;
     data \<leftarrow> subslice (rc_data core) off (off + n);
     Some (data, addr)
   }"

text \<open>The caller may rewrite a datagram it was shown (decryption in place).\<close>

definition rio_rewrite :: "nat \<Rightarrow> byte list \<Rightarrow> rio_receiver \<Rightarrow> rio_core \<Rightarrow> rio_core may_panic" where
  "rio_rewrite i bs h core = do {
     (idx, bytes) \<leftarrow> index_at (rh_batch h) i;
     data \<leftarrow> write_at (rc_data core) (idx * rc_buf_len core) (take (min bytes (rc_buf_len core)) bs);
     Some (core\<lparr>rc_data := data\<rparr>)
   }"

section \<open>Runs\<close>

text \<open>The datagrams that land during an event, and during the wait of a receive.\<close>

type_synonym datagram = "byte list \<times> socket_addr option"

fun rio_landed :: "rio_event \<Rightarrow> rio_core \<Rightarrow> datagram list" where
  "rio_landed (Landed idx d a) core = (if idx \<in> set (rc_posted core) then [(take (rc_buf_len core) d, Some a)] else [])"
| "rio_landed e core = []"

fun rio_landeds :: "rio_event list \<Rightarrow> rio_core \<Rightarrow> datagram list" where
  "rio_landeds [] core = []"
| "rio_landeds (e # es) core = rio_landed e core @ (case rio_kernel e core of None \<Rightarrow> [] | Some core' \<Rightarrow> rio_landeds es core')"

definition rio_arrivals :: "bool list \<Rightarrow> bool \<Rightarrow> bool \<Rightarrow> rio_event list \<Rightarrow> rio_receiver \<Rightarrow> rio_core \<Rightarrow> datagram list" where
  "rio_arrivals oks corrupt1 arm_ok es h core =
     (case rio_repost oks (rh_pending h) core of
        None \<Rightarrow> []
      | Some (keep, core) \<Rightarrow>
          if corrupt1 \<or> rc_cq core \<noteq> [] then []
          else case (if rh_armed h then Inr core else rio_arm_notify arm_ok core) of
                 Inl e \<Rightarrow> []
               | Inr core \<Rightarrow> rio_landeds es core)"

fun event_ok :: "rio_event \<Rightarrow> bool" where
  "event_ok (Landed idx d a) \<longleftrightarrow> addr_ok a"
| "event_ok (Feedback corrupt ok buf peer) \<longleftrightarrow> addr_ok peer"
| "event_ok e \<longleftrightarrow> True"

text \<open>\<open>rio_run bl landed delivered h core\<close>: an engine for buffers of \<open>bl\<close> bytes and its harvester after some
  sequence of calls and events, with what landed and what the harvester showed to its caller.\<close>

inductive rio_run :: "nat \<Rightarrow> datagram list \<Rightarrow> datagram list \<Rightarrow> rio_receiver \<Rightarrow> rio_core \<Rightarrow> bool" where
  run_new: "rio_core_new ra bl = Some (Inr core, hs) \<Longrightarrow> rio_run bl [] [] rio_worker core"
| run_event: "rio_run bl ld dl h core \<Longrightarrow> event_ok e \<Longrightarrow> rio_kernel e core = Some core' \<Longrightarrow>
    rio_run bl (ld @ rio_landed e core) dl h core'"
| run_rewrite: "rio_run bl ld dl h core \<Longrightarrow> rio_rewrite i bs h core = Some core' \<Longrightarrow> rio_run bl ld dl h core'"
| run_idle: "rio_run bl ld dl h core \<Longrightarrow> \<forall>e \<in> set es. event_ok e \<Longrightarrow>
    rio_recv oks c1 arm_ok es c2 h core = Some (Inl err, h', core') \<Longrightarrow>
    rio_run bl (ld @ rio_arrivals oks c1 arm_ok es h core) dl h' core'"
| run_recv: "rio_run bl ld dl h core \<Longrightarrow> \<forall>e \<in> set es. event_ok e \<Longrightarrow>
    rio_recv oks c1 arm_ok es c2 h core = Some (Inr n, h', core') \<Longrightarrow>
    rio_run bl (ld @ rio_arrivals oks c1 arm_ok es h core) (dl @ map (\<lambda>i. the (rio_message_mut h' core' i)) [0..<n]) h' core'"

section \<open>Invariants\<close>

definition rio_geometry :: "rio_core \<Rightarrow> bool" where
  "rio_geometry core \<longleftrightarrow>
     NSLOTS * rc_buf_len core < 2 ^ 32 \<and> length (rc_data core) = NSLOTS * rc_buf_len core \<and>
     length (rc_addr core) = NSLOTS * ADDR_SLOT \<and> rc_data_descs core = rio_descs (rc_buf_len core) \<and>
     rc_addr_descs core = rio_descs ADDR_SLOT \<and> length (rc_send_data core) = SEND_RING * rc_buf_len core \<and>
     length (rc_send_addr core) = SEND_RING * ADDR_SLOT \<and> rc_next core < SEND_RING"

text \<open>Every receive slot is posted, completed or pending, and in one of these places only.\<close>

definition rio_slots :: "nat list \<Rightarrow> rio_core \<Rightarrow> bool" where
  "rio_slots pending core \<longleftrightarrow> mset (rc_posted core) + mset (map rr_ctx (rc_cq core)) + mset pending = mset [0..<NSLOTS]"

definition rio_wakes :: "bool \<Rightarrow> rio_core \<Rightarrow> bool" where
  "rio_wakes armed core \<longleftrightarrow>
     (rc_notify core \<longrightarrow> rc_cq core = [] \<and> \<not> rc_event core) \<and> (armed \<longleftrightarrow> rc_notify core \<or> rc_event core)"

definition rio_inv :: "rio_receiver \<Rightarrow> rio_core \<Rightarrow> bool" where
  "rio_inv h core \<longleftrightarrow> rio_geometry core \<and> rio_slots (rh_pending h) core \<and> rio_wakes (rh_armed h) core \<and>
     fst ` set (rh_batch h) \<subseteq> set (rh_pending h)"

lemma rio_descs_nth:
  assumes "idx < NSLOTS" and "NSLOTS * len < 2 ^ 32"
  shows "unat (rb_offset (rio_descs len ! idx)) = idx * len" "unat (rb_length (rio_descs len ! idx)) = len"
proof -
  have "idx * len \<le> NSLOTS * len" "len \<le> NSLOTS * len" using assms(1) by (simp_all add: NSLOTS_def)
  then have "idx * len < 2 ^ 32" "len < 2 ^ 32" using assms(2) by linarith+
  then show "unat (rb_offset (rio_descs len ! idx)) = idx * len" "unat (rb_length (rio_descs len ! idx)) = len"
    using assms(1) by (simp_all add: rio_descs_def unat_of_nat del: of_nat_mult)
qed

lemma addr_slots_fit: "NSLOTS * ADDR_SLOT < 2 ^ 32"
  by (simp add: rio_consts)

lemma rio_slots_mem:
  assumes "rio_slots pending core"
  shows "idx \<in> set (rc_posted core) \<Longrightarrow> idx < NSLOTS" "idx \<in> set pending \<Longrightarrow> idx < NSLOTS"
    "r \<in> set (rc_cq core) \<Longrightarrow> rr_ctx r < NSLOTS"
    "idx \<in> set (rc_posted core) \<Longrightarrow> r \<in> set (rc_cq core) \<Longrightarrow> rr_ctx r \<noteq> idx"
    "idx \<in> set pending \<Longrightarrow> r \<in> set (rc_cq core) \<Longrightarrow> rr_ctx r \<noteq> idx"
    "distinct (map rr_ctx (rc_cq core))" "length (rc_posted core) + length (rc_cq core) + length pending = NSLOTS"
proof -
  have e: "mset (rc_posted core @ map rr_ctx (rc_cq core) @ pending) = mset [0..<NSLOTS]"
    using assms by (simp add: rio_slots_def ac_simps)
  then have s: "set (rc_posted core @ map rr_ctx (rc_cq core) @ pending) = {0..<NSLOTS}"
    by (metis set_mset_mset set_upt)
  have d: "distinct (rc_posted core @ map rr_ctx (rc_cq core) @ pending)"
    using e by (metis distinct_upt mset_eq_imp_distinct_iff)
  show "idx \<in> set (rc_posted core) \<Longrightarrow> idx < NSLOTS" "idx \<in> set pending \<Longrightarrow> idx < NSLOTS"
    "r \<in> set (rc_cq core) \<Longrightarrow> rr_ctx r < NSLOTS"
    using s by auto
  show "idx \<in> set (rc_posted core) \<Longrightarrow> r \<in> set (rc_cq core) \<Longrightarrow> rr_ctx r \<noteq> idx"
    "idx \<in> set pending \<Longrightarrow> r \<in> set (rc_cq core) \<Longrightarrow> rr_ctx r \<noteq> idx" "distinct (map rr_ctx (rc_cq core))"
    using d by auto
  show "length (rc_posted core) + length (rc_cq core) + length pending = NSLOTS"
    using mset_eq_length [OF e] by simp
qed

lemma slot_in: "idx < NSLOTS \<Longrightarrow> n \<le> len \<Longrightarrow> idx * len + n \<le> NSLOTS * (len :: nat)"
  using mult_le_mono1 [of "Suc idx" NSLOTS len] by simp

section \<open>Views\<close>

text \<open>The datagram a completed receive holds.\<close>

definition rio_view :: "rio_core \<Rightarrow> rio_result \<Rightarrow> datagram" where
  "rio_view core r =
     (take (if rr_status r = 0 then min (rr_bytes r) (rc_buf_len core) else 0) (drop (rr_ctx r * rc_buf_len core) (rc_data core)),
      rio_sockaddr (take ADDR_SLOT (drop (rr_ctx r * ADDR_SLOT) (rc_addr core))))"

definition rio_queue :: "rio_core \<Rightarrow> datagram list" where
  "rio_queue core = map (rio_view core) (rc_cq core)"

lemma rio_sockaddr_roundtrip: "addr_ok a \<Longrightarrow> rio_sockaddr (write_sockaddr a @ rest) = Some a"
  by (cases a) (simp_all add: rio_sockaddr_def Let_def)

lemma length_write_sockaddr: "addr_ok a \<Longrightarrow> length (write_sockaddr a) \<le> ADDR_SLOT"
  by (cases a) (simp_all add: ADDR_SLOT_def)

lemma take_drop_overwrite_other:
  assumes "off + length b \<le> length xs" and "lo + n \<le> off \<or> off + length b \<le> lo" and "lo + n \<le> length xs"
  shows "take n (drop lo (overwrite xs off b)) = take n (drop lo xs)"
  using assms by (intro nth_equalityI) (auto simp: nth_overwrite)

lemma slot_overwrite_other:
  assumes "length xs = NSLOTS * len" and "i < NSLOTS" and "j < NSLOTS" and "i \<noteq> j" and "length b \<le> len" and "n \<le> len"
  shows "take n (drop (i * len) (overwrite xs (j * len) b)) = take n (drop (i * len) xs)"
proof (rule take_drop_overwrite_other)
  show "j * len + length b \<le> length xs" "i * len + n \<le> length xs" using slot_in assms by simp_all
  show "i * len + n \<le> j * len \<or> j * len + length b \<le> i * len"
    using assms(4-6) mult_le_mono1 [of "Suc i" j len] mult_le_mono1 [of "Suc j" i len] by (cases i j rule: linorder_cases) auto
qed

lemma slot_overwrite_same:
  assumes "length xs = NSLOTS * len" and "i < NSLOTS" and "length b \<le> len"
  shows "drop (i * len) (overwrite xs (i * len) b) = b @ drop (i * len + length b) xs"
proof -
  have "length (take (i * len) xs) = i * len" using slot_in [OF assms(2,3)] assms(1) by simp
  then show ?thesis by (simp add: overwrite_def)
qed

section \<open>Preservation\<close>

lemma rio_store_ok:
  assumes "rio_geometry core" and "idx < NSLOTS" and "addr_ok a"
  shows "rio_geometry (rio_store idx d a core)"
    "rio_view (rio_store idx d a core) \<lparr>rr_status = 0, rr_bytes = min (length d) (rc_buf_len core), rr_ctx = idx\<rparr> =
       (take (rc_buf_len core) d, Some a)"
    "rr_ctx r \<noteq> idx \<Longrightarrow> rr_ctx r < NSLOTS \<Longrightarrow> rio_view (rio_store idx d a core) r = rio_view core r"
proof -
  let ?bl = "rc_buf_len core"
  have g: "length (rc_data core) = NSLOTS * ?bl" "length (rc_addr core) = NSLOTS * ADDR_SLOT" using assms(1) by (simp_all add: rio_geometry_def)
  have e: "rio_store idx d a core = core\<lparr>rc_data := overwrite (rc_data core) (idx * ?bl) (take ?bl d),
      rc_addr := overwrite (rc_addr core) (idx * ADDR_SLOT) (write_sockaddr a)\<rparr>"
    using assms(1) rio_descs_nth [OF assms(2), of ?bl] rio_descs_nth [OF assms(2) addr_slots_fit] length_write_sockaddr [OF assms(3)]
    by (simp add: rio_store_def rio_geometry_def Let_def)
  note lens = slot_in [OF assms(2), of "min (length d) ?bl" ?bl] slot_in [OF assms(2) length_write_sockaddr [OF assms(3)]]
  show "rio_geometry (rio_store idx d a core)" using assms(1) lens g by (simp add: e rio_geometry_def)
  show "rio_view (rio_store idx d a core) \<lparr>rr_status = 0, rr_bytes = min (length d) ?bl, rr_ctx = idx\<rparr> = (take ?bl d, Some a)"
    using slot_overwrite_same [OF g(1) assms(2), of "take ?bl d"] slot_overwrite_same [OF g(2) assms(2) length_write_sockaddr [OF assms(3)]]
      length_write_sockaddr [OF assms(3)]
    by (simp add: e rio_view_def rio_sockaddr_roundtrip [OF assms(3)]) (simp add: min_def)
  show "rio_view (rio_store idx d a core) r = rio_view core r" if "rr_ctx r \<noteq> idx" "rr_ctx r < NSLOTS"
    using slot_overwrite_other [OF g(1) that(2) assms(2) that(1), of "take ?bl d"]
      slot_overwrite_other [OF g(2) that(2) assms(2) that(1) length_write_sockaddr [OF assms(3)]]
    by (simp add: e rio_view_def)
qed

lemma rio_complete_slots:
  assumes "rio_slots pending core" and "rr_ctx r \<in> set (rc_posted core)"
  shows "rio_slots pending (rio_complete r core)"
  using assms by (simp add: rio_slots_def rio_complete_def)

lemma rio_complete_wakes: "rio_wakes armed core \<Longrightarrow> rio_wakes armed (rio_complete r core)"
  by (auto simp: rio_wakes_def rio_complete_def)

lemma rio_complete_fields [simp]:
  "rio_geometry (rio_complete r core) = rio_geometry core" "rio_view (rio_complete r core) = rio_view core"
  "rc_cq (rio_complete r core) = rc_cq core @ [r]"
  by (simp_all add: rio_complete_def rio_geometry_def rio_view_def fun_eq_iff)

lemma rio_queue_updates [simp]:
  "rio_view (core\<lparr>rc_sends := ss\<rparr>) = rio_view core" "rio_view (core\<lparr>rc_send_cq := q\<rparr>) = rio_view core"
  "rio_view (core\<lparr>rc_posted := ps\<rparr>) = rio_view core" "rio_view (core\<lparr>rc_cq := cq\<rparr>) = rio_view core"
  "rio_view (core\<lparr>rc_notify := b\<rparr>) = rio_view core" "rio_view (core\<lparr>rc_event := b\<rparr>) = rio_view core"
  "rio_geometry (core\<lparr>rc_sends := ss\<rparr>) = rio_geometry core" "rio_geometry (core\<lparr>rc_send_cq := q\<rparr>) = rio_geometry core"
  "rio_geometry (core\<lparr>rc_posted := ps\<rparr>) = rio_geometry core" "rio_geometry (core\<lparr>rc_cq := cq\<rparr>) = rio_geometry core"
  "rio_geometry (core\<lparr>rc_notify := b\<rparr>) = rio_geometry core" "rio_geometry (core\<lparr>rc_event := b\<rparr>) = rio_geometry core"
  by (simp_all add: rio_view_def rio_geometry_def fun_eq_iff)

lemma rio_store_fields [simp]:
  "rc_posted (rio_store idx d a core) = rc_posted core" "rc_cq (rio_store idx d a core) = rc_cq core"
  "rc_notify (rio_store idx d a core) = rc_notify core" "rc_event (rio_store idx d a core) = rc_event core"
  "rc_buf_len (rio_store idx d a core) = rc_buf_len core"
  by (simp_all add: rio_store_def Let_def)

lemma rio_send_ok:
  assumes "rio_geometry core" and "addr_ok peer"
  shows "\<exists>r core'. rio_send_to corrupt ok buf peer core = Some (r, core') \<and> rio_geometry core' \<and> rio_view core' = rio_view core \<and>
     rc_posted core' = rc_posted core \<and> rc_cq core' = rc_cq core \<and> rc_notify core' = rc_notify core \<and> rc_event core' = rc_event core \<and>
     rc_buf_len core' = rc_buf_len core"
proof -
  let ?n = "rc_next core" and ?bl = "rc_buf_len core" and ?b = "take (min (length buf) (rc_buf_len core)) buf"
  have n: "?n < SEND_RING" and g: "length (rc_send_data core) = SEND_RING * ?bl" "length (rc_send_addr core) = SEND_RING * ADDR_SLOT"
    using assms(1) by (simp_all add: rio_geometry_def)
  have fit: "?n * len + k \<le> SEND_RING * len" if "k \<le> len" for k len
    using mult_le_mono1 [of "Suc ?n" SEND_RING len] n that by simp
  obtain data where d: "write_at (rc_send_data core) (?n * ?bl) ?b = Some data"
    using write_at_Some_iff [of "rc_send_data core" "?n * ?bl" ?b] fit [of "length ?b" ?bl] g(1) by auto
  obtain a1 where a1: "write_at (rc_send_addr core) (?n * ADDR_SLOT) (replicate ADDR_SLOT 0) = Some a1"
    using write_at_Some_iff [of "rc_send_addr core" "?n * ADDR_SLOT" "replicate ADDR_SLOT 0"] fit [of ADDR_SLOT ADDR_SLOT] g(2) by auto
  obtain a2 where a2: "write_at a1 (?n * ADDR_SLOT) (write_sockaddr peer) = Some a2"
    using write_at_Some_iff [of a1 "?n * ADDR_SLOT" "write_sockaddr peer"] fit [OF length_write_sockaddr [OF assms(2)]] g(2)
      length_write_at [OF a1] by auto
  have "(?n + 1) mod SEND_RING < SEND_RING" by (simp add: SEND_RING_def)
  then show ?thesis
    using assms(1) d a1 a2 length_write_at [OF d] length_write_at [OF a1] length_write_at [OF a2]
    by (simp add: rio_send_to_def Let_def rio_geometry_def rio_view_def fun_eq_iff)
qed

text \<open>An event of the system keeps the invariant and adds what landed to the queue.\<close>

definition rio_quiet :: "nat list \<Rightarrow> bool \<Rightarrow> rio_core \<Rightarrow> bool" where
  "rio_quiet pending armed core \<longleftrightarrow> rio_geometry core \<and> rio_slots pending core \<and> rio_wakes armed core"

definition shown :: "datagram list \<Rightarrow> datagram list" where
  "shown ds = filter (\<lambda>(d, a). d \<noteq> []) ds"

lemma shown_append [simp]: "shown (xs @ ys) = shown xs @ shown ys" "shown [] = []"
  by (simp_all add: shown_def)

lemma rio_kernel_ok:
  assumes "rio_quiet pending armed core" and "event_ok e"
  shows "\<exists>core'. rio_kernel e core = Some core' \<and> rio_quiet pending armed core' \<and> rc_buf_len core' = rc_buf_len core \<and>
     shown (rio_queue core') = shown (rio_queue core) @ shown (rio_landed e core)"
proof (cases e)
  case (Landed idx d a)
  show ?thesis
  proof (cases "idx \<in> set (rc_posted core)")
    case True
    have g: "rio_geometry core" and sl: "rio_slots pending core" and w: "rio_wakes armed core" using assms(1) by (simp_all add: rio_quiet_def)
    have i: "idx < NSLOTS" using rio_slots_mem(1) [OF sl True] .
    have a: "addr_ok a" using assms(2) Landed by simp
    let ?r = "\<lparr>rr_status = 0, rr_bytes = min (length d) (rc_buf_len core), rr_ctx = idx\<rparr>"
    have len: "unat (rb_length (rc_data_descs core ! idx)) = rc_buf_len core"
      using rio_descs_nth [OF i, of "rc_buf_len core"] g by (simp add: rio_geometry_def)
    have "rio_slots pending (rio_store idx d a core)" "rio_wakes armed (rio_store idx d a core)"
      using sl w by (simp_all add: rio_slots_def rio_wakes_def)
    then have "rio_quiet pending armed (rio_complete ?r (rio_store idx d a core))"
      using rio_store_ok(1) [OF g i a] rio_complete_slots rio_complete_wakes True by (simp add: rio_quiet_def)
    moreover have "rio_queue (rio_complete ?r (rio_store idx d a core)) = rio_queue core @ [(take (rc_buf_len core) d, Some a)]"
      using rio_store_ok(2,3) [OF g i a] rio_slots_mem(3,4) [OF sl] True by (simp add: rio_queue_def)
    ultimately show ?thesis using Landed True len by (simp add: rio_complete_def)
  qed (use assms Landed in \<open>simp add: shown_def\<close>)
next
  case (Failed idx status n)
  then show ?thesis
    using assms rio_complete_slots [of pending core "\<lparr>rr_status = status, rr_bytes = n, rr_ctx = idx\<rparr>"] rio_complete_wakes
    by (auto simp: rio_quiet_def rio_queue_def shown_def rio_view_def) (simp_all add: rio_complete_def)
next
  case SendDone
  then show ?thesis using assms
    by (auto simp: rio_quiet_def rio_queue_def shown_def rio_slots_def rio_wakes_def split: list.splits)
next
  case (Feedback corrupt ok buf peer)
  then obtain r core' where "rio_send_to corrupt ok buf peer core = Some (r, core') \<and> rio_geometry core' \<and> rio_view core' = rio_view core \<and>
     rc_posted core' = rc_posted core \<and> rc_cq core' = rc_cq core \<and> rc_notify core' = rc_notify core \<and> rc_event core' = rc_event core \<and>
     rc_buf_len core' = rc_buf_len core"
    using rio_send_ok [of core peer corrupt ok buf] assms by (auto simp: rio_quiet_def)
  then show ?thesis using Feedback assms(1) by (simp add: rio_quiet_def rio_slots_def rio_wakes_def rio_queue_def shown_def)
qed

lemma rio_kernels_ok:
  assumes "rio_quiet pending armed core" and "\<forall>e \<in> set es. event_ok e"
  shows "\<exists>core'. rio_kernels es core = Some core' \<and> rio_quiet pending armed core' \<and> rc_buf_len core' = rc_buf_len core \<and>
     shown (rio_queue core') = shown (rio_queue core) @ shown (rio_landeds es core)"
  using assms
proof (induction es arbitrary: core)
  case (Cons e es)
  then obtain core1 where c: "rio_kernel e core = Some core1" "rio_quiet pending armed core1" "rc_buf_len core1 = rc_buf_len core"
      "shown (rio_queue core1) = shown (rio_queue core) @ shown (rio_landed e core)"
    using rio_kernel_ok [of pending armed core e] by auto
  then show ?case using Cons.IH [OF c(2)] Cons.prems(2) by auto
qed (simp add: shown_def)

lemma rio_post_ok:
  assumes "rio_geometry core" and "idx < NSLOTS"
  shows "rio_post_recv ok idx core = Some (if ok then Inr (core\<lparr>rc_posted := rc_posted core @ [idx]\<rparr>) else Inl OtherIO)"
  using assms by (simp add: rio_post_recv_def rio_geometry_def rio_descs_def index_at_def)

lemma rio_repost_ok:
  assumes "rio_quiet (old @ pending) armed core"
  shows "\<exists>keep core'. rio_repost oks pending core = Some (keep, core') \<and> rio_quiet (old @ keep) armed core' \<and>
     rio_queue core' = rio_queue core \<and> rc_cq core' = rc_cq core \<and> rc_buf_len core' = rc_buf_len core \<and> rio_view core' = rio_view core \<and>
     (length pending \<le> length oks \<and> list_all (\<lambda>b. b) oks \<longrightarrow> keep = [])"
  using assms
proof (induction pending arbitrary: oks old core)
  case (Cons idx rest)
  have g: "rio_geometry core" and sl: "rio_slots (old @ idx # rest) core" using Cons.prems by (simp_all add: rio_quiet_def)
  have i: "idx < NSLOTS" using rio_slots_mem(2) [OF sl] by simp
  show ?case
  proof (cases "oks \<noteq> [] \<and> hd oks")
    case True
    let ?c = "core\<lparr>rc_posted := rc_posted core @ [idx]\<rparr>"
    have "rio_quiet (old @ rest) armed ?c" using Cons.prems by (simp add: rio_quiet_def rio_slots_def rio_wakes_def)
    from Cons.IH [OF this, of "tl oks"] obtain keep core' where "rio_repost (tl oks) rest ?c = Some (keep, core') \<and>
       rio_quiet (old @ keep) armed core' \<and> rio_queue core' = rio_queue ?c \<and> rc_cq core' = rc_cq ?c \<and> rc_buf_len core' = rc_buf_len ?c \<and>
       rio_view core' = rio_view ?c \<and> (length rest \<le> length (tl oks) \<and> list_all (\<lambda>b. b) (tl oks) \<longrightarrow> keep = [])" by blast
    then show ?thesis using rio_post_ok [OF g i, of True] True by (cases oks) (simp_all add: rio_queue_def)
  next
    case False
    have "rio_quiet ((old @ [idx]) @ rest) armed core" using Cons.prems by simp
    from Cons.IH [OF this, of "tl oks"] obtain keep core' where "rio_repost (tl oks) rest core = Some (keep, core') \<and>
       rio_quiet ((old @ [idx]) @ keep) armed core' \<and> rio_queue core' = rio_queue core \<and> rc_cq core' = rc_cq core \<and>
       rc_buf_len core' = rc_buf_len core \<and> rio_view core' = rio_view core" by blast
    then show ?thesis using rio_post_ok [OF g i, of "oks \<noteq> [] \<and> hd oks"] False by (cases oks) auto
  qed
qed simp

lemma rio_arm_ok:
  assumes "rio_quiet pending False core"
  shows "rio_arm_notify ok core = Inl OtherIO \<or>
     (\<exists>core'. rio_arm_notify ok core = Inr core' \<and> rio_quiet pending True core' \<and> rio_queue core' = rio_queue core \<and> rc_cq core' = rc_cq core \<and>
        rc_buf_len core' = rc_buf_len core)"
  using assms by (auto simp: rio_arm_notify_def rio_quiet_def rio_slots_def rio_wakes_def rio_queue_def)

lemma rio_harvest_eq:
  "\<forall>r \<in> set rs. rr_ctx r < NSLOTS \<Longrightarrow>
   rio_harvest rs h = h\<lparr>rh_batch := rh_batch h @ map (\<lambda>r. (rr_ctx r, if rr_status r = 0 then rr_bytes r else 0)) rs,
                        rh_pending := rh_pending h @ map rr_ctx rs\<rparr>"
  by (induction rs h rule: rio_harvest.induct) (auto simp: rio_consts)

lemma rio_message_view:
  assumes "rio_geometry core" and "rh_batch h = map (\<lambda>r. (rr_ctx r, if rr_status r = 0 then rr_bytes r else 0)) rs"
    and "\<forall>r \<in> set rs. rr_ctx r < NSLOTS" and "i < length rs"
  shows "rio_message_mut h core i = Some (rio_view core (rs ! i))"
proof -
  let ?r = "rs ! i" and ?bl = "rc_buf_len core"
  have r: "rr_ctx ?r < NSLOTS" using assms(3,4) by simp
  have "rr_ctx ?r * ADDR_SLOT + ADDR_SLOT \<le> length (rc_addr core)"
    "rr_ctx ?r * ?bl + min n ?bl \<le> length (rc_data core)" for n
    using slot_in [OF r, of ADDR_SLOT ADDR_SLOT] slot_in [OF r, of "min n ?bl" ?bl] assms(1) by (simp_all add: rio_geometry_def)
  then show ?thesis
    using assms(2,4) by (simp add: rio_message_mut_def rio_parse_addr_def rio_view_def index_in_range subslice_in_range Let_def)
qed

text \<open>What one dequeue does, for a harvester whose batch is empty.\<close>

lemma rio_dequeue_ok:
  assumes "rio_quiet (rh_pending h) (rh_armed h) core" and "rh_batch h = []" and "rio_dequeue corrupt h core = (r, h', core')"
  shows "rio_inv h' core' \<and> rc_buf_len core' = rc_buf_len core \<and>
     (case r of Inl e \<Rightarrow> rio_queue core' = rio_queue core \<and> rh_batch h' = [] \<and> (e = WouldBlock \<longrightarrow> rc_cq core' = [])
      | Inr n \<Rightarrow> n = length (rh_batch h') \<and> n \<le> DEQ \<and> (\<forall>i < n. \<exists>m. rio_message_mut h' core' i = Some m) \<and>
          map (\<lambda>i. the (rio_message_mut h' core' i)) [0..<n] @ rio_queue core' = rio_queue core)"
proof -
  let ?rs = "take DEQ (rc_cq core)" and ?c = "core\<lparr>rc_cq := drop DEQ (rc_cq core)\<rparr>"
  have g: "rio_geometry core" and sl: "rio_slots (rh_pending h) core" and w: "rio_wakes (rh_armed h) core"
    using assms(1) by (simp_all add: rio_quiet_def)
  have ctx: "\<forall>r \<in> set ?rs. rr_ctx r < NSLOTS" using rio_slots_mem(3) [OF sl] by (meson in_set_takeD)
  note hv = rio_harvest_eq [OF ctx, of h]
  show ?thesis
  proof (cases "corrupt \<or> ?rs = []")
    case True
    have "?c = core" if "rc_cq core = []" using that by (cases core) simp
    then have "r \<in> {Inl OtherIO, Inl WouldBlock}" "h' = h" "core' = core" "r = Inl WouldBlock \<longrightarrow> rc_cq core = []"
      using True assms(3) by (auto simp: rio_dequeue_def DEQ_def Let_def split: if_splits)
    then show ?thesis using assms(1,2) by (auto simp: rio_inv_def rio_quiet_def)
  next
    case False
    then have e: "r = Inr (length ?rs)" "h' = rio_harvest ?rs h" "core' = ?c"
      using assms(2,3) hv by (auto simp: rio_dequeue_def Let_def)
    have b: "rh_batch h' = map (\<lambda>r. (rr_ctx r, if rr_status r = 0 then rr_bytes r else 0)) ?rs" "rh_pending h' = rh_pending h @ map rr_ctx ?rs"
      using e(2) hv assms(2) by simp_all
    have split: "mset (rc_cq core) = mset ?rs + mset (drop DEQ (rc_cq core))" by (metis append_take_drop_id mset_append)
    have "rio_slots (rh_pending h') ?c" using sl b(2) by (simp add: rio_slots_def split ac_simps)
    moreover have "rio_wakes (rh_armed h') ?c" using w e(2) hv by (auto simp: rio_wakes_def)
    moreover have "fst ` set (rh_batch h') \<subseteq> set (rh_pending h')" using b by auto
    ultimately have "rio_inv h' core'" using g e(3) by (simp add: rio_inv_def)
    moreover have m: "rio_message_mut h' core' i = Some (rio_view core' (?rs ! i))" if "i < length ?rs" for i
      using rio_message_view [OF _ b(1) ctx that] g e(3) by simp
    moreover have "map (\<lambda>i. the (rio_message_mut h' core' i)) [0..<length ?rs] = map (rio_view core) ?rs"
      using m e(3) by (intro nth_equalityI) simp_all
    moreover have "map (rio_view core) ?rs @ rio_queue core' = rio_queue core"
      using e(3) by (simp add: rio_queue_def flip: map_append)
    ultimately show ?thesis using e(1,3) b(1) by simp
  qed
qed

definition rio_balance :: "rio_receiver \<Rightarrow> rio_core \<Rightarrow> nat io \<Rightarrow> datagram list" where
  "rio_balance h core r =
     (case r of Inl e \<Rightarrow> [] | Inr n \<Rightarrow> map (\<lambda>i. the (rio_message_mut h core i)) [0..<n]) @ rio_queue core"

definition rio_served :: "rio_receiver \<Rightarrow> rio_core \<Rightarrow> nat io \<Rightarrow> bool" where
  "rio_served h core r \<longleftrightarrow>
     (case r of Inl e \<Rightarrow> e = WouldBlock \<longrightarrow> rc_cq core = []
      | Inr n \<Rightarrow> n \<le> DEQ \<and> (\<forall>i < n. \<exists>m. rio_message_mut h core i = Some m))"

lemma rio_dequeue_balance:
  assumes "rio_quiet (rh_pending h) (rh_armed h) core" and "rh_batch h = []" and "rio_dequeue corrupt h core = (r, h', core')"
  shows "rio_inv h' core'" "rc_buf_len core' = rc_buf_len core" "rio_balance h' core' r = rio_queue core" "rio_served h' core' r"
  using rio_dequeue_ok [OF assms] by (simp_all add: rio_balance_def rio_served_def split: sum.splits)

lemma rio_wakes_consumed:
  "rio_wakes True core \<Longrightarrow> rc_event core \<Longrightarrow> rio_wakes False (core\<lparr>rc_event := False\<rparr>)"
  by (auto simp: rio_wakes_def)

lemma rio_wait_ok:
  assumes "rio_quiet (rh_pending h) True core" and "rh_batch h = []" and "\<forall>e \<in> set es. event_ok e" and "rh_armed h"
  shows "\<exists>r h' core' core1. rio_kernels es core = Some core1 \<and>
     (if rc_event core1 then rio_dequeue corrupt (h\<lparr>rh_armed := False\<rparr>) (core1\<lparr>rc_event := False\<rparr>) else (Inl WouldBlock, h, core1)) =
       (r, h', core') \<and>
     rio_inv h' core' \<and> rc_buf_len core' = rc_buf_len core \<and>
     shown (rio_balance h' core' r) = shown (rio_queue core) @ shown (rio_landeds es core) \<and> rio_served h' core' r"
proof -
  obtain core1 where k: "rio_kernels es core = Some core1" "rio_quiet (rh_pending h) True core1" "rc_buf_len core1 = rc_buf_len core"
      "shown (rio_queue core1) = shown (rio_queue core) @ shown (rio_landeds es core)"
    using rio_kernels_ok [OF assms(1,3)] by blast
  show ?thesis
  proof (cases "rc_event core1")
    case True
    let ?c = "core1\<lparr>rc_event := False\<rparr>" and ?h = "h\<lparr>rh_armed := False\<rparr>"
    have q: "rio_quiet (rh_pending ?h) (rh_armed ?h) ?c"
      using k(2) rio_wakes_consumed [OF _ True] by (simp add: rio_quiet_def rio_slots_def)
    obtain r h' core' where d: "rio_dequeue corrupt ?h ?c = (r, h', core')" using prod_cases3 by blast
    have "rh_batch ?h = []" using assms(2) by simp
    note b = rio_dequeue_balance [OF q this d]
    have "rio_queue ?c = rio_queue core1" by (simp add: rio_queue_def)
    then have "rio_inv h' core' \<and> rc_buf_len core' = rc_buf_len core \<and>
        shown (rio_balance h' core' r) = shown (rio_queue core) @ shown (rio_landeds es core) \<and> rio_served h' core' r"
      using b k(3,4) by simp
    then show ?thesis using k(1) True d by (intro exI [of _ r] exI [of _ h'] exI [of _ core'] exI [of _ core1]) simp
  next
    case False
    then have "rc_cq core1 = []" using k(2) by (auto simp: rio_quiet_def rio_wakes_def)
    then have "rio_inv h core1 \<and> rc_buf_len core1 = rc_buf_len core \<and>
        shown (rio_balance h core1 (Inl WouldBlock)) = shown (rio_queue core) @ shown (rio_landeds es core) \<and> rio_served h core1 (Inl WouldBlock)"
      using k assms(2,4) by (simp add: rio_inv_def rio_quiet_def rio_balance_def rio_served_def)
    then show ?thesis using k(1) False by auto
  qed
qed

lemma rio_recv_ok:
  assumes "rio_inv h core" and "\<forall>e \<in> set es. event_ok e"
  shows "\<exists>r h' core'. rio_recv oks c1 arm_ok es c2 h core = Some (r, h', core') \<and> rio_inv h' core' \<and> rc_buf_len core' = rc_buf_len core \<and>
     shown (rio_balance h' core' r) = shown (rio_queue core) @ shown (rio_arrivals oks c1 arm_ok es h core) \<and> rio_served h' core' r"
proof -
  have "rio_quiet ([] @ rh_pending h) (rh_armed h) core" using assms(1) by (simp add: rio_inv_def rio_quiet_def)
  from rio_repost_ok [OF this, of oks] obtain keep core1 where p: "rio_repost oks (rh_pending h) core = Some (keep, core1)"
      "rio_quiet keep (rh_armed h) core1" "rio_queue core1 = rio_queue core" "rc_buf_len core1 = rc_buf_len core"
    by auto
  let ?h = "h\<lparr>rh_pending := keep, rh_batch := []\<rparr>"
  show ?thesis
  proof (cases "c1 \<or> rc_cq core1 \<noteq> []")
    case True
    obtain r h' core' where d: "rio_dequeue c1 ?h core1 = (r, h', core')" using prod_cases3 by blast
    have "rio_quiet (rh_pending ?h) (rh_armed ?h) core1" "rh_batch ?h = []" using p(2) by simp_all
    from rio_dequeue_balance [OF this d] show ?thesis using p True d by (simp add: rio_recv_def rio_arrivals_def shown_def)
  next
    case False
    show ?thesis
    proof (cases "rh_armed h \<or> arm_ok")
      case True
      obtain core2 where c2: "(if rh_armed h then Inr core1 else rio_arm_notify arm_ok core1) = Inr core2" "rio_quiet keep True core2"
          "rio_queue core2 = rio_queue core1" "rc_buf_len core2 = rc_buf_len core1"
        using True p(2) rio_arm_ok [of keep core1 True] by (cases "rh_armed h") (auto simp: rio_arm_notify_def split: if_splits)
      let ?g = "?h\<lparr>rh_armed := True\<rparr>"
      have "rio_quiet (rh_pending ?g) True core2" "rh_batch ?g = []" "rh_armed ?g" using c2(2) by simp_all
      from rio_wait_ok [OF this(1,2) assms(2) this(3), of c2] obtain r h' core' core3 where w: "rio_kernels es core2 = Some core3"
          "(if rc_event core3 then rio_dequeue c2 (?g\<lparr>rh_armed := False\<rparr>) (core3\<lparr>rc_event := False\<rparr>) else (Inl WouldBlock, ?g, core3)) = (r, h', core')"
          "rio_inv h' core'" "rc_buf_len core' = rc_buf_len core2"
          "shown (rio_balance h' core' r) = shown (rio_queue core2) @ shown (rio_landeds es core2)" "rio_served h' core' r"
        by (elim exE conjE)
      have "rio_recv oks c1 arm_ok es c2 h core = Some (r, h', core')"
        using p(1) False c2(1) w(1,2) by (simp add: rio_recv_def Let_def)
      moreover have "rio_arrivals oks c1 arm_ok es h core = rio_landeds es core2"
        using p(1) False c2(1) by (simp add: rio_arrivals_def)
      ultimately show ?thesis using w(3-6) c2(3,4) p(3,4) by simp
    next
      case arm: False
      then have "rio_recv oks c1 arm_ok es c2 h core = Some (Inl OtherIO, ?h, core1)" "rio_arrivals oks c1 arm_ok es h core = []"
        using p(1) False by (simp_all add: rio_recv_def rio_arrivals_def rio_arm_notify_def)
      then show ?thesis using p by (simp add: rio_inv_def rio_quiet_def rio_balance_def rio_served_def shown_def)
    qed
  qed
qed

lemma rio_post_all_eq:
  assumes "rio_geometry core" and "i \<le> n" and "n \<le> NSLOTS"
  shows "rio_post_all oks n i core =
     Some (if \<forall>j \<in> {i..<n}. oks j then Inr (core\<lparr>rc_posted := rc_posted core @ [i..<n]\<rparr>) else Inl OtherIO)"
  using assms
proof (induction oks n i core rule: rio_post_all.induct)
  case (1 oks n i core)
  show ?case
  proof (cases "i < n")
    case True
    have r: "rio_post_recv (oks i) i core = Some (if oks i then Inr (core\<lparr>rc_posted := rc_posted core @ [i]\<rparr>) else Inl OtherIO)"
      using rio_post_ok [OF "1.prems"(1)] True "1.prems"(3) by simp
    show ?thesis
    proof (cases "oks i")
      case ok: True
      let ?c = "core\<lparr>rc_posted := rc_posted core @ [i]\<rparr>"
      have IH: "rio_post_all oks n (Suc i) ?c =
          Some (if \<forall>j \<in> {Suc i..<n}. oks j then Inr (?c\<lparr>rc_posted := rc_posted ?c @ [Suc i..<n]\<rparr>) else Inl OtherIO)"
        using "1.IH" [OF True, of "Inr ?c" ?c] "1.prems" True r ok by simp
      have "(\<forall>j \<in> {i..<n}. oks j) \<longleftrightarrow> (\<forall>j \<in> {Suc i..<n}. oks j)" using ok True by (auto simp: Suc_le_eq le_less)
      then show ?thesis using r ok IH True by (subst rio_post_all.simps) (simp add: upt_conv_Cons)
    qed (use r True in \<open>subst rio_post_all.simps, auto\<close>)
  qed (use "1.prems" in \<open>subst rio_post_all.simps, simp\<close>)
qed

lemma rio_fresh_geometry: "NSLOTS * bl < 2 ^ 32 \<Longrightarrow> rio_geometry (rio_fresh bl)"
  by (simp add: rio_geometry_def rio_fresh_def) (simp add: SEND_RING_def)

text \<open>A core that \<open>new\<close> returns has every slot posted and its notification armed.\<close>

lemma rio_new_ok:
  assumes "NSLOTS * bl < 2 ^ 32" and "rio_core_new ra bl = Some (Inr core, hs)"
  shows "core = (rio_fresh bl)\<lparr>rc_posted := [0..<NSLOTS], rc_notify := True\<rparr>"
    "hs = [DataBuffer, AddrBuffer, SendDataBuffer, SendAddrBuffer, CompletionEvent, RecvQueue, SendQueue, RequestQueue]"
proof -
  have p: "rc_posted (rio_fresh bl) = []" "rc_cq (rio_fresh bl) = []" by (simp_all add: rio_fresh_def)
  note all = rio_post_all_eq [OF rio_fresh_geometry [OF assms(1)], of 0 NSLOTS "ra_posts ra"]
  show "core = (rio_fresh bl)\<lparr>rc_posted := [0..<NSLOTS], rc_notify := True\<rparr>"
    "hs = [DataBuffer, AddrBuffer, SendDataBuffer, SendAddrBuffer, CompletionEvent, RecvQueue, SendQueue, RequestQueue]"
    using assms(2) all p by (auto simp: rio_core_new_def rio_arm_notify_def Let_def split: if_splits sum.splits)
qed

lemma rio_new_inv:
  assumes "NSLOTS * bl < 2 ^ 32" and "rio_core_new ra bl = Some (Inr core, hs)"
  shows "rio_inv rio_worker core" "rc_buf_len core = bl" "rio_queue core = []"
  using rio_new_ok(1) [OF assms] rio_fresh_geometry [OF assms(1)]
  by (simp_all add: rio_inv_def rio_slots_def rio_wakes_def rio_worker_def rio_queue_def) (simp_all add: rio_fresh_def)

lemma rio_rewrite_ok:
  assumes "rio_inv h core" and "rio_rewrite i bs h core = Some core'"
  shows "rio_inv h core'" "rc_buf_len core' = rc_buf_len core" "rio_queue core' = rio_queue core"
proof -
  let ?bl = "rc_buf_len core"
  obtain idx bytes data where b: "index_at (rh_batch h) i = Some (idx, bytes)"
      and d: "write_at (rc_data core) (idx * ?bl) (take (min bytes ?bl) bs) = Some data" and c: "core' = core\<lparr>rc_data := data\<rparr>"
    using assms(2) by (auto simp: rio_rewrite_def bind_eq_Some_conv split: prod.splits)
  have g: "rio_geometry core" and sl: "rio_slots (rh_pending h) core" using assms(1) by (simp_all add: rio_inv_def)
  have "idx \<in> fst ` set (rh_batch h)"
    using b by (auto simp: index_at_def split: if_splits) (metis fst_conv image_eqI nth_mem)
  then have p: "idx \<in> set (rh_pending h)" using assms(1) by (auto simp: rio_inv_def)
  have i: "idx < NSLOTS" using rio_slots_mem(2) [OF sl p] .
  have data: "data = overwrite (rc_data core) (idx * ?bl) (take (min bytes ?bl) bs)"
    using d by (simp add: write_at_def overwrite_def split: if_splits)
  have len: "length (rc_data core) = NSLOTS * ?bl" using g by (simp add: rio_geometry_def)
  show "rc_buf_len core' = ?bl" using c by simp
  show "rio_inv h core'"
    using assms(1) length_write_at [OF d] by (simp add: c rio_inv_def rio_geometry_def rio_slots_def rio_wakes_def)
  have "rio_view core' r = rio_view core r" if "r \<in> set (rc_cq core)" for r
    using slot_overwrite_other [OF len rio_slots_mem(3) [OF sl that] i rio_slots_mem(5) [OF sl p that], of "take (min bytes ?bl) bs"]
    by (simp add: rio_view_def c data)
  then show "rio_queue core' = rio_queue core" by (simp add: rio_queue_def c)
qed

lemma rio_run_inv:
  assumes "rio_run bl ld dl h core" and "NSLOTS * bl < 2 ^ 32"
  shows "rio_inv h core \<and> rc_buf_len core = bl \<and> shown (dl @ rio_queue core) = shown ld"
  using assms
proof (induction rule: rio_run.induct)
  case (run_new ra bl core hs)
  then show ?case using rio_new_inv [OF run_new(2,1)] by simp
next
  case (run_event bl ld dl h core e core')
  then have "rio_quiet (rh_pending h) (rh_armed h) core" by (simp add: rio_inv_def rio_quiet_def)
  from rio_kernel_ok [OF this run_event(2)] show ?case using run_event by (auto simp: rio_inv_def rio_quiet_def)
next
  case (run_rewrite bl ld dl h core i bs core')
  then show ?case using rio_rewrite_ok [of h core i bs core'] by simp
next
  case (run_idle bl ld dl h core es oks c1 arm_ok c2 err h' core')
  then show ?case using rio_recv_ok [of h core es oks c1 arm_ok c2] by (simp add: rio_balance_def)
next
  case (run_recv bl ld dl h core es oks c1 arm_ok c2 n h' core')
  then show ?case using rio_recv_ok [of h core es oks c1 arm_ok c2] by (simp add: rio_balance_def)
qed

lemma rio_new_works:
  assumes "NSLOTS * bl < 2 ^ 32"
    and "ra_table ra" "ra_data ra" "ra_addr ra" "ra_send_data ra" "ra_send_addr ra" "ra_event ra" "ra_cq ra" "ra_send_cq ra" "ra_rq ra"
      "ra_posts ra = (\<lambda>i. True)" "ra_notify ra"
  shows "\<exists>core hs. rio_core_new ra bl = Some (Inr core, hs)"
  using rio_post_all_eq [OF rio_fresh_geometry [OF assms(1)], of 0 NSLOTS "ra_posts ra"] assms
  by (auto simp: rio_core_new_def rio_arm_notify_def Let_def split: sum.splits)

section \<open>The properties\<close>

definition sample_setup :: rio_setup where
  "sample_setup = \<lparr>ra_table = True, ra_data = True, ra_addr = True, ra_send_data = True, ra_send_addr = True, ra_event = True,
     ra_cq = True, ra_send_cq = True, ra_rq = True, ra_posts = (\<lambda>i. True), ra_notify = True\<rparr>"

lemma sample_engine:
  assumes b: "NSLOTS * bl < 2 ^ 32"
  shows "\<exists>core. rio_run bl [] [] rio_worker core \<and> rc_posted core = [0..<NSLOTS] \<and> rc_buf_len core = bl"
proof -
  obtain core hs where c: "rio_core_new sample_setup bl = Some (Inr core, hs)"
    using rio_new_works [OF b, of sample_setup] by (auto simp: sample_setup_def)
  then show ?thesis using run_new [OF c] rio_new_ok(1) [OF b c] by (auto simp: rio_fresh_def)
qed



text \<open>Property C35: the Windows backend is a first-in first-out queue of datagrams. After any sequence of calls and
  completions, with any failures in between and with any rewriting of the datagrams already shown, what the harvester
  has shown to its caller followed by what is still queued is what has landed, each datagram once, in order, cut at the
  buffer length and with its source address (a failed receive shows up as an empty datagram and is ignored).\<close>

theorem rio_delivers_in_order:
  assumes "rio_run bl ld dl h core" and "NSLOTS * bl < 2 ^ 32"
  shows "filter (\<lambda>(d, a). d \<noteq> []) (dl @ rio_queue core) = filter (\<lambda>(d, a). d \<noteq> []) ld"
  using rio_run_inv [OF assms] by (simp add: shown_def)

theorem rio_delivers_in_order_witness:
  "\<exists>core. rio_run 1500 [([1, 2], Some (V4 [127, 0, 0, 1] 7400))] [] rio_worker core \<and>
     filter (\<lambda>(d, a). d \<noteq> []) (rio_queue core) = [([1, 2], Some (V4 [127, 0, 0, 1] 7400))]"
proof -
  let ?e = "Landed 5 [1, 2] (V4 [127, 0, 0, 1] 7400)"
  obtain core where c: "rio_run 1500 [] [] rio_worker core" "rc_posted core = [0..<NSLOTS]" "rc_buf_len core = 1500"
    using sample_engine [of 1500] by (auto simp: NSLOTS_def)
  obtain core' where k: "rio_kernel ?e core = Some core'" by (simp add: c)
  have "rio_run 1500 ([] @ rio_landed ?e core) [] rio_worker core'" by (rule run_event [OF c(1) _ k]) simp
  then have r: "rio_run 1500 [([1, 2], Some (V4 [127, 0, 0, 1] 7400))] [] rio_worker core'" using c(2,3) by (simp add: NSLOTS_def)
  have "NSLOTS * 1500 < 2 ^ 32" by (simp add: NSLOTS_def)
  then show ?thesis using rio_delivers_in_order [OF r] r by auto
qed

text \<open>Property C36: no wake-up is lost. A receive that reports that nothing arrived leaves an empty completion queue: every
  datagram that landed before the wait ended is shown by that call. And the one-shot notification is armed only
  when none is outstanding.\<close>

theorem rio_no_lost_wakeup:
  assumes "rio_run bl ld dl h core" and "NSLOTS * bl < 2 ^ 32" and "\<forall>e \<in> set es. event_ok e"
    and "rio_recv oks c1 arm_ok es c2 h core = Some (r, h', core')"
  shows "(r = Inl WouldBlock \<longrightarrow> rc_cq core' = []) \<and> (\<not> rh_armed h' \<longrightarrow> \<not> rc_notify core' \<and> \<not> rc_event core')"
proof -
  have "rio_inv h core" using rio_run_inv [OF assms(1,2)] by simp
  from rio_recv_ok [OF this assms(3), of oks c1 arm_ok c2] assms(4) have "rio_served h' core' r" "rio_inv h' core'" by auto
  then show ?thesis by (auto simp: rio_served_def rio_inv_def rio_wakes_def)
qed

theorem rio_no_lost_wakeup_witness:
  "\<exists>core r h' core'. rio_recv [] False True [Landed 5 [1, 2] (V4 [127, 0, 0, 1] 7400)] False rio_worker core = Some (r, h', core') \<and>
     (r = Inl WouldBlock \<longrightarrow> rc_cq core' = []) \<and> (\<not> rh_armed h' \<longrightarrow> \<not> rc_notify core' \<and> \<not> rc_event core')"
proof -
  let ?es = "[Landed 5 [1, 2] (V4 [127, 0, 0, 1] 7400)]"
  have b: "NSLOTS * 1500 < 2 ^ 32" by (simp add: NSLOTS_def)
  obtain core where c: "rio_run 1500 [] [] rio_worker core" using sample_engine [OF b] by blast
  have e: "\<forall>e \<in> set ?es. event_ok e" by simp
  have "rio_inv rio_worker core" using rio_run_inv [OF c b] by simp
  then obtain r h' core' where r: "rio_recv [] False True ?es False rio_worker core = Some (r, h', core')"
    using rio_recv_ok [OF _ e] by blast
  show ?thesis using rio_no_lost_wakeup [OF c b e r] r by blast
qed

text \<open>The bytes a posted send points to.\<close>

definition rio_payload :: "rio_core \<Rightarrow> rio_buf \<Rightarrow> byte list" where
  "rio_payload core d = take (unat (rb_length d)) (drop (unat (rb_offset d)) (rc_send_data core))"

lemma rio_send_posts:
  assumes "rio_geometry core" and "addr_ok peer"
  shows "\<exists>core' d a. rio_send_to corrupt True buf peer core = Some (Inr (min (length buf) (rc_buf_len core)), core') \<and>
     rc_sends core' = rc_sends core @ [(d, a)] \<and> rio_payload core' d = take (rc_buf_len core) buf"
proof -
  let ?n = "rc_next core" and ?bl = "rc_buf_len core" and ?len = "min (length buf) (rc_buf_len core)"
  obtain r core' where s: "rio_send_to corrupt True buf peer core = Some (r, core')" using rio_send_ok [OF assms] by blast
  have n: "?n < SEND_RING" and b: "NSLOTS * ?bl < 2 ^ 32" using assms(1) by (simp_all add: rio_geometry_def)
  have "?n * ?bl \<le> NSLOTS * ?bl" "?len \<le> NSLOTS * ?bl" using n by (simp_all add: rio_consts min_le_iff_disj)
  then have w: "?n * ?bl < 2 ^ 32" "?len < 2 ^ 32" using b by linarith+
  obtain data where d: "write_at (rc_send_data core) (?n * ?bl) (take ?len buf) = Some data"
      and e: "r = Inr ?len" "rc_send_data core' = data"
        "rc_sends core' = rc_sends core @ [(\<lparr>rb_offset = of_nat (?n * ?bl), rb_length = of_nat ?len\<rparr>,
           \<lparr>rb_offset = of_nat (?n * ADDR_SLOT), rb_length = of_nat ADDR_SLOT\<rparr>)]"
    using s by (auto simp: rio_send_to_def Let_def bind_eq_Some_conv)
  have "take ?len (drop (?n * ?bl) data) = take ?len buf"
    using d by (auto simp: write_at_def split: if_splits)
  moreover have "unat (of_nat (?n * ?bl) :: u32) = ?n * ?bl" "unat (of_nat ?len :: u32) = ?len"
    using w by (simp_all add: unat_of_nat del: of_nat_mult)
  ultimately have "rio_payload core' \<lparr>rb_offset = of_nat (?n * ?bl), rb_length = of_nat ?len\<rparr> = take ?bl buf"
    using e(2) by (simp add: rio_payload_def) (simp add: min_def)
  then show ?thesis using s e(1,3) by auto
qed

lemma decode_feedback_cut:
  assumes "length ns < 2 ^ 16" and "n < 36 + 16 * length ns"
  shows "decode_feedback (take n (feedback_header_bytes h (length ns) @ concat (map nack_bytes ns))) = Some None"
proof (cases "n < 36")
  case False
  have u: "unat (of_nat (length ns) :: u16) = length ns" using assms(1) by (simp add: unat_of_nat)
  have "take n (feedback_header_bytes h (length ns) @ concat (map nack_bytes ns)) =
      feedback_header_bytes h (length ns) @ take (n - 36) (concat (map nack_bytes ns))"
    using False by simp
  then show ?thesis
    using assms(2) False
    by (simp add: decode_feedback_def feedback_header_bytes_def size_defs buffer_simps get_exact u Let_def)
qed (simp add: decode_feedback_def size_defs)

text \<open>Property C37: the Windows backend loses long feedback. A feedback datagram that is longer than the buffer of the data
  socket (the block size and 100 bytes) is cut to that length; the call reports success, but what is sent is a datagram
  that the sender's decoder refuses.\<close>

theorem rio_cuts_feedback:
  assumes "rio_run bl ld dl h core" and "NSLOTS * bl < 2 ^ 32" and "addr_ok peer" and "length ns < 2 ^ 16"
    and "36 + 16 * length ns \<le> length buf" and "encode_feedback buf fh ns = Some (buf', n)" and "bl < n"
  shows "\<exists>core' d a. rio_send_to False True (take n buf') peer core = Some (Inr bl, core') \<and>
     rc_sends core' = rc_sends core @ [(d, a)] \<and> decode_feedback (rio_payload core' d) = Some None"
proof -
  have g: "rio_geometry core" "rc_buf_len core = bl" using rio_run_inv [OF assms(1,2)] by (simp_all add: rio_inv_def)
  have n: "n = 36 + 16 * length ns" "take n buf' = feedback_header_bytes fh (length ns) @ concat (map nack_bytes ns)"
    using assms(6) encode_feedback_eq [OF assms(5), of fh] by auto
  let ?pkt = "feedback_header_bytes fh (length ns) @ concat (map nack_bytes ns)"
  have len: "min (length ?pkt) bl = bl" "decode_feedback (take bl ?pkt) = Some None"
    using assms(7) n(1) decode_feedback_cut [OF assms(4), of bl fh] by (simp_all add: length_concat comp_def sum_list_triv)
  obtain core' d a where "rio_send_to False True ?pkt peer core = Some (Inr (min (length ?pkt) bl), core')"
      "rc_sends core' = rc_sends core @ [(d, a)]" "rio_payload core' d = take bl ?pkt"
    using rio_send_posts [OF g(1) assms(3), of False ?pkt] unfolding g(2) by (elim exE conjE)
  then show ?thesis unfolding n(2) len(1) using len(2) by metis
qed

theorem rio_cuts_feedback_witness:
  "\<exists>core core' d a. rio_send_to False True
       (feedback_header_bytes \<lparr>fh_tick_is_network = False, fh_nack_count = 0, fh_session = 7, fh_tick = 0, fh_target_rate = 64000,
          fh_hi_contig = 0, fh_done = False\<rparr> 21 @ concat (map nack_bytes (replicate 21 \<lparr>ne_block_seq = 3, ne_rex_index = 3\<rparr>)))
       (V4 [127, 0, 0, 1] 7400) core = Some (Inr 356, core') \<and>
     rc_sends core' = rc_sends core @ [(d, a)] \<and> decode_feedback (rio_payload core' d) = Some None"
proof -
  let ?fh = "\<lparr>fh_tick_is_network = False, fh_nack_count = 0, fh_session = 7, fh_tick = 0, fh_target_rate = 64000, fh_hi_contig = 0,
    fh_done = False\<rparr>" and ?ns = "replicate 21 \<lparr>ne_block_seq = 3, ne_rex_index = 3\<rparr>"
  have b: "NSLOTS * 356 < 2 ^ 32" by (simp add: NSLOTS_def)
  obtain core where c: "rio_run 356 [] [] rio_worker core" using sample_engine [OF b] by blast
  have e: "encode_feedback (replicate 372 0) ?fh ?ns = Some (feedback_header_bytes ?fh 21 @ concat (map nack_bytes ?ns), 372)"
    using encode_feedback_eq [of ?ns "replicate 372 0" ?fh] by simp
  have "\<exists>core' d a. rio_send_to False True (take 372 (feedback_header_bytes ?fh 21 @ concat (map nack_bytes ?ns))) (V4 [127, 0, 0, 1] 7400) core =
       Some (Inr 356, core') \<and> rc_sends core' = rc_sends core @ [(d, a)] \<and> decode_feedback (rio_payload core' d) = Some None"
    by (rule rio_cuts_feedback [OF c b _ _ _ e]) simp_all
  moreover have "take 372 (feedback_header_bytes ?fh 21 @ concat (map nack_bytes ?ns)) = feedback_header_bytes ?fh 21 @ concat (map nack_bytes ?ns)"
    by (rule take_all) (simp only: length_append length_feedback_header_bytes length_concat_nacks, simp)
  ultimately show ?thesis by metis
qed

text \<open>Setting up: every handle of a core that was built is closed by its drop except the request queue, which goes with
  the socket; but a step that fails before the core exists leaves what was opened so far open, with the buffers
  registered while their memory is freed.\<close>

lemma rio_drop_closes:
  "NSLOTS * bl < 2 ^ 32 \<Longrightarrow> rio_core_new ra bl = Some (Inr core, hs) \<Longrightarrow> rio_drop hs = [RequestQueue]"
  by (drule (1) rio_new_ok(2)) (simp add: rio_drop_def)

lemma rio_setup_leaks:
  "ra_table ra \<Longrightarrow> ra_data ra \<Longrightarrow> ra_addr ra \<Longrightarrow> ra_send_data ra \<Longrightarrow> ra_send_addr ra \<Longrightarrow> \<not> ra_event ra \<Longrightarrow>
   rio_core_new ra bl = Some (Inl OtherIO, [DataBuffer, AddrBuffer, SendDataBuffer, SendAddrBuffer])"
  by (simp add: rio_core_new_def Let_def)

text \<open>The ring of send buffers: a call rewrites the slot that is next, whether or not the send posted from it sixteen
  calls ago has completed.\<close>

lemma rio_send_reuses_slot:
  assumes "rio_geometry core" and "addr_ok peer" and "length buf = rc_buf_len core" and "rc_sends core = (d, a) # ss"
    and "unat (rb_offset d) = rc_next core * rc_buf_len core" and "unat (rb_length d) = rc_buf_len core"
  shows "\<exists>r core'. rio_send_to corrupt ok buf peer core = Some (r, core') \<and> (d, a) \<in> set (rc_sends core') \<and> rio_payload core' d = buf"
proof -
  obtain r core' where s: "rio_send_to corrupt ok buf peer core = Some (r, core')" using rio_send_ok [OF assms(1,2)] by blast
  then obtain data where w: "write_at (rc_send_data core) (rc_next core * rc_buf_len core) buf = Some data" "rc_send_data core' = data"
      "(d, a) \<in> set (rc_sends core')"
    using assms(3,4) by (auto simp: rio_send_to_def Let_def bind_eq_Some_conv split: if_splits)
  moreover have "take (length buf) (drop (rc_next core * rc_buf_len core) data) = buf" using w(1) by (auto simp: write_at_def split: if_splits)
  ultimately show ?thesis using s assms(3,5,6) by (simp add: rio_payload_def)
qed

end
