(* ===== verification/Receiver_Threads.thy ===== *)
theory Receiver_Threads
  imports Data_Receiver Registered_IO
begin

text \<open>
  The thread bodies of \<open>src/src/receiver.rs\<close> around the steps of Data_Receiver: the ingest loop with the
  answers of its socket, the ticker of the feedback loop, and the flusher loop. The ingest loop is then
  put on top of the Windows backend.
\<close>

section \<open>The ingest loop\<close>

text \<open>What one \<open>br.recv\<close> gives: datagrams with the time each is handled, a time-out, or another error.\<close>

datatype recv_answer = Got "(nat \<times> byte list \<times> socket_addr option) list" | Quiet | Broken io_error

datatype ingest_end = Waiting | Stopped | Fatal io_error

fun ingest_loop ::
  "'k recv_env \<Rightarrow> (bool \<times> recv_answer) list \<Rightarrow> 'k recv_state \<Rightarrow> (ingest_end \<times> 'k recv_state) may_panic" where
  "ingest_loop env [] st = Some (Waiting, st)"
| "ingest_loop env ((stop, answer) # turns) st =
     (if should_stop stop (rs_control st) \<or> rs_done st then Some (Stopped, st)
      else case answer of
             Got ps \<Rightarrow> ingest_batch env ps st \<bind> ingest_loop env turns
           | Quiet \<Rightarrow> ingest_loop env turns st
           | Broken e \<Rightarrow> Some (Fatal e, st))"

section \<open>The ticker of the feedback loop\<close>

text \<open>One turn: how long it sleeps, and the next due time; \<open>after\<close> is the clock after the sleep.\<close>

definition next_tick :: "nat \<Rightarrow> nat \<Rightarrow> nat \<Rightarrow> nat \<Rightarrow> nat \<times> nat" where
  "next_tick interval now_i after due =
     (let sleep = (if due > now_i then due - now_i else 0);
          due = due + interval;
          due = (if due \<le> after then after + interval else due)
      in (sleep, due))"

text \<open>The clock is not behind its due time after the sleep; the next turn is then due after the present moment and
  at most one interval away: turns that were missed are dropped.\<close>

lemma next_tick_no_burst:
  assumes "next_tick interval now_i after due = (sleep, due')" and "now_i + sleep \<le> after" and "0 < interval"
  shows "after < due'" "due' \<le> after + interval" "due \<le> after"
  using assms by (auto simp: next_tick_def Let_def split: if_splits)

section \<open>The flusher loop\<close>

text \<open>A run of \<open>flusher_loop\<close> against the receiver states it finds: every turn flushes while the frontier is
  ready, returns at the last block or when stopped, and otherwise waits.\<close>

function flush_ready :: "'k recv_env \<Rightarrow> 'k recv_state \<Rightarrow> 'k recv_state may_panic" where
  "flush_ready env st =
     (if rs_flushed st < re_total_blocks env then do {
        ready \<leftarrow> is_set (rs_ready_bm st) (rs_flushed st);
        if ready then flush_ready env (flush_block env st) else Some st
      } else Some st)"
  by auto
termination
  by (relation "measure (\<lambda>(env, st). re_total_blocks env - rs_flushed st)")
     (auto simp: flush_block_def Let_def split: option.splits sum.splits)

declare flush_ready.simps [simp del]

text \<open>It is the single steps of the flusher, one after the other.\<close>

fun flush_steps :: "nat \<Rightarrow> 'k recv_env \<Rightarrow> 'k recv_state \<Rightarrow> 'k recv_state may_panic" where
  "flush_steps 0 env st = Some st"
| "flush_steps (Suc n) env st = flush_step env st \<bind> flush_steps n env"

lemma flush_ready_steps:
  "\<exists>n \<le> re_total_blocks env - rs_flushed st. flush_ready env st = flush_steps n env st"
proof (induction env st rule: flush_ready.induct)
  case (1 env st)
  show ?case
  proof (cases "rs_flushed st < re_total_blocks env")
    case True
    show ?thesis
    proof (cases "is_set (rs_ready_bm st) (rs_flushed st)")
      case None
      then have "flush_ready env st = flush_steps 1 env st" using True by (subst flush_ready.simps) (simp add: flush_step_def)
      then show ?thesis using True by (intro exI [of _ 1]) simp
    next
      case (Some ready)
      show ?thesis
      proof (cases ready)
        case r: True
        have f: "rs_flushed (flush_block env st) = rs_flushed st + 1" by (simp add: flush_block_def Let_def)
        obtain n where "n \<le> re_total_blocks env - rs_flushed (flush_block env st)"
            "flush_ready env (flush_block env st) = flush_steps n env (flush_block env st)"
          using "1.IH" [OF True, of True] Some r by auto
        moreover have "flush_ready env st = flush_ready env (flush_block env st)" using True Some r by (subst flush_ready.simps) simp
        moreover have "flush_steps (Suc n) env st = flush_steps n env (flush_block env st)" for n
          using True Some r by (simp add: flush_step_def)
        ultimately show ?thesis using f True by (intro exI [of _ "Suc n"]) simp
      next
        case False
        then have "flush_ready env st = flush_steps 0 env st" using True Some by (subst flush_ready.simps) simp
        then show ?thesis by blast
      qed
    qed
  next
    case False
    then have "flush_ready env st = flush_steps 0 env st" by (subst flush_ready.simps) simp
    then show ?thesis by blast
  qed
qed

section \<open>The ingest loop on the Windows backend\<close>

definition stamped :: "nat \<Rightarrow> datagram list \<Rightarrow> (nat \<times> byte list \<times> socket_addr option) list" where
  "stamped now ds = map (\<lambda>(d, a). (now, d, a)) ds"

lemma ingest_batch_shown: "ingest_batch env (stamped now ds) st = ingest_batch env (stamped now (shown ds)) st"
proof (induction ds arbitrary: st)
  case (Cons p ds)
  obtain d a where p: "p = (d, a)" by (cases p)
  show ?case
    using Cons.IH
    by (cases "handle_packet env now d a (count_packet d st)") (simp_all add: p stamped_def shown_def)
qed (simp add: shown_def)

text \<open>When everything that was completed has been harvested, ingesting what the Windows harvester showed is ingesting
  what landed, in order.\<close>

lemma windows_ingest:
  assumes "rio_run bl ld dl h core" and "NSLOTS * bl < 2 ^ 32" and "rc_cq core = []"
  shows "ingest_batch env (stamped now dl) st = ingest_batch env (stamped now ld) st"
proof -
  have "shown dl = shown ld" using rio_run_inv [OF assms(1,2)] assms(3) by (simp add: rio_queue_def)
  then show ?thesis using ingest_batch_shown [of env now dl st] ingest_batch_shown [of env now ld st] by simp
qed

end
