(* ===== verification/Command_Line.thy ===== *)
theory Command_Line
  imports Client_Properties
begin

text \<open>
  The command \<open>girth\<close> of \<open>src/src/bin/girth.rs\<close>: the flag parser and \<open>main\<close>, with the logging
  facade of \<open>src/src/log.rs\<close> and the termination flag of \<open>src/src/sys/mod.rs\<close> that only the command installs.

  \<open>str::parse::<f64>\<close> is written out by its grammar; a finite value is the real number it is
  rounded to. A magnitude beyond the range of \<open>f64\<close>, which Rust reads as an infinity, stays a large real: every
  value is only used through a saturating cast. What the file system answers is an argument of \<open>girth_main\<close>, and
  so is everything the network does, as in the client and server theories.
\<close>

section \<open>Reading numbers\<close>

datatype f64_text = Fin real | Inf bool | NaN

definition is_digit :: "char \<Rightarrow> bool" where
  "is_digit c \<longleftrightarrow> c \<in> set ''0123456789''"

definition digits_value :: "string \<Rightarrow> nat" where
  "digits_value ds = foldl (\<lambda>n c. 10 * n + (of_char c - 48)) 0 ds"

definition split_sign :: "string \<Rightarrow> bool \<times> string" where
  "split_sign s =
     (case s of [] \<Rightarrow> (False, s) | c # cs \<Rightarrow> if c = CHR ''-'' then (True, cs) else if c = CHR ''+'' then (False, cs) else (False, s))"

definition parse_exponent :: "string \<Rightarrow> int option" where
  "parse_exponent s =
     (case split_sign s of (neg, ds) \<Rightarrow>
        if ds \<noteq> [] \<and> list_all is_digit ds then Some (if neg then - int (digits_value ds) else int (digits_value ds)) else None)"

text \<open>Digits with an optional point, at least one digit, and an optional exponent.\<close>

definition parse_number :: "string \<Rightarrow> real option" where
  "parse_number s =
     (let whole = takeWhile is_digit s;
          r = dropWhile is_digit s;
          (frac, r) = (case r of [] \<Rightarrow> ([], []) | c # cs \<Rightarrow> if c = CHR ''.'' then (takeWhile is_digit cs, dropWhile is_digit cs) else ([], r))
      in if whole = [] \<and> frac = [] then None
         else map_option (\<lambda>e. f64_round (real (digits_value (whole @ frac)) * 10 powi (e - int (length frac))))
                (case r of [] \<Rightarrow> Some 0 | c # cs \<Rightarrow> if c = CHR ''e'' \<or> c = CHR ''E'' then parse_exponent cs else None))"

definition lower :: "char \<Rightarrow> char" where
  "lower c = (if 65 \<le> (of_char c :: nat) \<and> (of_char c :: nat) \<le> 90 then char_of (of_char c + 32 :: nat) else c)"

definition parse_f64 :: "string \<Rightarrow> f64_text option" where
  "parse_f64 s =
     (case split_sign s of (neg, r) \<Rightarrow>
        if map lower r = ''inf'' \<or> map lower r = ''infinity'' then Some (Inf neg)
        else if map lower r = ''nan'' then Some NaN
        else map_option (\<lambda>x. Fin (if neg then - x else x)) (parse_number r))"

fun text_as_u64 :: "f64_text \<Rightarrow> nat" where
  "text_as_u64 (Fin x) = as_u64 x"
| "text_as_u64 (Inf neg) = (if neg then 0 else 2 ^ 64 - 1)"
| "text_as_u64 NaN = 0"

definition text_as_u32 :: "f64_text \<Rightarrow> nat" where
  "text_as_u32 v = min (text_as_u64 v) (2 ^ 32 - 1)"

fun text_as_i64 :: "f64_text \<Rightarrow> int" where
  "text_as_i64 (Fin x) =
     (if 2 ^ 63 \<le> x then 2 ^ 63 - 1 else if x \<le> - (2 ^ 63) then - (2 ^ 63) else if 0 \<le> x then \<lfloor>x\<rfloor> else \<lceil>x\<rceil>)"
| "text_as_i64 (Inf neg) = (if neg then - (2 ^ 63) else 2 ^ 63 - 1)"
| "text_as_i64 NaN = 0"

text \<open>\<open>(mbps * 1e6) as u64\<close>.\<close>

fun mbps_to_bps :: "f64_text \<Rightarrow> nat" where
  "mbps_to_bps (Fin x) = as_u64 (fmul x 1000000)"
| "mbps_to_bps v = text_as_u64 v"

section \<open>Flags\<close>

text \<open>The variables of \<open>parse\<close>, and \<open>Parsed\<close>.\<close>

record parse_state =
  pc_params :: transfer_params
  pc_rate_mbps :: f64_text
  pc_max_mbps :: f64_text
  pc_alpha_mbps :: f64_text
  pc_report_ms :: int
  pc_addr :: string
  pc_dir :: string
  pc_auth_token :: "string option"
  pc_allow_unauthenticated :: bool
  pc_positionals :: "string list"

record parsed =
  pd_params :: transfer_params
  pd_addr :: string
  pd_dir :: string
  pd_auth_token :: "string option"
  pd_allow_unauthenticated :: bool
  pd_positionals :: "string list"

definition parse_start :: parse_state where
  "parse_start = \<lparr>pc_params = default_params, pc_rate_mbps = Fin 100, pc_max_mbps = Fin 10000, pc_alpha_mbps = Fin 30,
     pc_report_ms = 1000, pc_addr = '':7400'', pc_dir = ''.'', pc_auth_token = None, pc_allow_unauthenticated = False,
     pc_positionals = []\<rparr>"

datatype 'a flags = Flags 'a | HelpShown | BadFlag string

definition is_bool_flag :: "string \<Rightarrow> bool" where
  "is_bool_flag name \<longleftrightarrow> name = ''adaptive'' \<or> name = ''encrypt'' \<or> name = ''allow-unauthenticated''"

definition flag_num :: "string \<Rightarrow> string \<Rightarrow> (f64_text \<Rightarrow> parse_state) \<Rightarrow> parse_state flags" where
  "flag_num name value k =
     (case parse_f64 value of None \<Rightarrow> BadFlag (''flag -'' @ name @ '': invalid number'') | Some v \<Rightarrow> Flags (k v))"

text \<open>The \<open>match\<close> on the flag's name; \<open>value\<close> is the empty string for a flag without one, which does not read it.\<close>

definition set_flag :: "string \<Rightarrow> string \<Rightarrow> parse_state \<Rightarrow> parse_state flags" where
  "set_flag name value st =
     (let p = pc_params st
      in if name = ''rate'' then flag_num name value (\<lambda>v. st\<lparr>pc_rate_mbps := v\<rparr>)
         else if name = ''max'' then flag_num name value (\<lambda>v. st\<lparr>pc_max_mbps := v\<rparr>)
         else if name = ''alpha'' then flag_num name value (\<lambda>v. st\<lparr>pc_alpha_mbps := v\<rparr>)
         else if name = ''adaptive'' then Flags (st\<lparr>pc_params := p\<lparr>tp_adaptive := True\<rparr>\<rparr>)
         else if name = ''encrypt'' then Flags (st\<lparr>pc_params := p\<lparr>tp_encrypt := True\<rparr>\<rparr>)
         else if name = ''auth'' then Flags (st\<lparr>pc_auth_token := Some value\<rparr>)
         else if name = ''allow-unauthenticated'' then Flags (st\<lparr>pc_allow_unauthenticated := True\<rparr>)
         else if name = ''block'' then flag_num name value (\<lambda>v. st\<lparr>pc_params := p\<lparr>tp_block_size := text_as_u64 v\<rparr>\<rparr>)
         else if name = ''workers'' then flag_num name value (\<lambda>v. st\<lparr>pc_params := p\<lparr>tp_read_workers := text_as_u64 v\<rparr>\<rparr>)
         else if name = ''fb'' then flag_num name value (\<lambda>v. st\<lparr>pc_params := p\<lparr>tp_feedback_interval_us := text_as_u32 v\<rparr>\<rparr>)
         else if name = ''report'' then flag_num name value (\<lambda>v. st\<lparr>pc_report_ms := text_as_i64 v\<rparr>)
         else if name = ''addr'' then Flags (st\<lparr>pc_addr := value\<rparr>)
         else if name = ''dir'' then Flags (st\<lparr>pc_dir := value\<rparr>)
         else if name = ''procs'' then Flags st
         else if name = ''h'' \<or> name = ''help'' then HelpShown
         else BadFlag (''unknown flag -'' @ name))"

definition split_once :: "char \<Rightarrow> string \<Rightarrow> string \<times> string option" where
  "split_once sep s =
     (case dropWhile (\<lambda>c. c \<noteq> sep) s of [] \<Rightarrow> (s, None) | c # cs \<Rightarrow> (takeWhile (\<lambda>c. c \<noteq> sep) s, Some cs))"

fun then_flags :: "'a flags \<Rightarrow> ('a \<Rightarrow> 'b flags) \<Rightarrow> 'b flags" where
  "then_flags (Flags x) k = k x"
| "then_flags HelpShown k = HelpShown"
| "then_flags (BadFlag e) k = BadFlag e"

lemma then_flags_cong [fundef_cong]:
  "r = r' \<Longrightarrow> (\<And>x. r' = Flags x \<Longrightarrow> k x = k' x) \<Longrightarrow> then_flags r k = then_flags r' k'"
  by (cases r') auto

text \<open>The loop over the arguments.\<close>

fun parse_args :: "string list \<Rightarrow> parse_state \<Rightarrow> parse_state flags" where
  "parse_args [] st = Flags st"
| "parse_args (a # args) st =
     (if a = [] \<or> hd a \<noteq> CHR ''-'' then parse_args args (st\<lparr>pc_positionals := pc_positionals st @ [a]\<rparr>)
      else case split_once (CHR ''='') (tl a) of (name, inline) \<Rightarrow>
        if is_bool_flag name then then_flags (set_flag name [] st) (parse_args args)
        else case inline of
          Some v \<Rightarrow> then_flags (set_flag name v st) (parse_args args)
        | None \<Rightarrow>
            (case args of
               [] \<Rightarrow> BadFlag (''flag -'' @ name @ '' needs a value'')
             | v # rest \<Rightarrow> then_flags (set_flag name v st) (parse_args rest)))"

definition parse_finish :: "parse_state \<Rightarrow> parsed" where
  "parse_finish st =
     \<lparr>pd_params = (pc_params st)\<lparr>tp_rate_bps := mbps_to_bps (pc_rate_mbps st), tp_max_bps := mbps_to_bps (pc_max_mbps st),
        tp_alpha_bps := mbps_to_bps (pc_alpha_mbps st),
        tp_report_interval := (if pc_report_ms st > 0 then nat (pc_report_ms st) * 1000 else 3600 * 1000000)\<rparr>,
      pd_addr = pc_addr st, pd_dir = pc_dir st, pd_auth_token = pc_auth_token st,
      pd_allow_unauthenticated = pc_allow_unauthenticated st, pd_positionals = pc_positionals st\<rparr>"

definition parse :: "string list \<Rightarrow> parsed flags" where
  "parse args = then_flags (parse_args args parse_start) (\<lambda>st. Flags (parse_finish st))"

section \<open>The command\<close>

datatype cli_result =
    CliExit nat
  | CliServe server
  | CliSend client_run
  | CliRecv string client_run

definition girth_main ::
  "'secret world \<Rightarrow> 'secret exchange \<Rightarrow> (string \<Rightarrow> any_source io) \<Rightarrow> (string \<Rightarrow> any_sink io) \<Rightarrow> (string \<Rightarrow> bool) \<Rightarrow> string list \<Rightarrow> cli_result"
where
  "girth_main w ex opened created is_dir argv =
     (if length argv < 2 then CliExit 2
      else let cmd = argv ! 1
           in if cmd = ''-h'' \<or> cmd = ''--help'' \<or> cmd = ''help'' then CliExit 0
              else case parse (drop 2 argv) of
                HelpShown \<Rightarrow> CliExit 0
              | BadFlag e \<Rightarrow> CliExit 2
              | Flags pd \<Rightarrow>
                  (let token = map_option as_bytes (pd_auth_token pd); pos = pd_positionals pd
                   in if cmd = ''server'' then
                        (let srv = server_new (pd_addr pd) (pd_dir pd) (pd_params pd)
                         in case token of
                              Some t \<Rightarrow> CliServe (with_authorizer (\<lambda>ctx. Inr t) srv)
                            | None \<Rightarrow> if \<not> pd_allow_unauthenticated pd then CliExit 2 else CliServe srv)
                      else if cmd = ''send'' then
                        (if length pos \<noteq> 2 then CliExit 2
                         else case opened (pos ! 0) of
                                Inl e \<Rightarrow> CliExit 1
                              | Inr source \<Rightarrow> CliSend (client_send_from w ex (pos ! 1) source (basename (pos ! 0)) (pd_params pd) None token))
                      else if cmd = ''recv'' then
                        (if length pos \<noteq> 3 then CliExit 2
                         else let out = recv_out_path is_dir (pos ! 2) (pos ! 1)
                              in case created out of
                                   Inl e \<Rightarrow> CliExit 1
                                 | Inr sink \<Rightarrow> CliRecv out (client_recv_into w ex (pos ! 0) (pos ! 1) sink (pd_params pd) None token))
                      else CliExit 2))"

text \<open>The exit code, once what was started has ended; \<open>listened\<close> is what the listener returned.\<close>

definition cli_exit_code :: "unit io option \<Rightarrow> cli_result \<Rightarrow> nat option" where
  "cli_exit_code listened r =
     (let of_run = (\<lambda>c. case cr_result c of Ended (Inr u) \<Rightarrow> Some 0 | Ended (Inl e) \<Rightarrow> Some 1 | _ \<Rightarrow> None)
      in case r of
           CliExit n \<Rightarrow> Some n
         | CliServe sv \<Rightarrow> map_option (\<lambda>l. case l of Inr u \<Rightarrow> 0 | Inl e \<Rightarrow> 1) listened
         | CliSend c \<Rightarrow> of_run c
         | CliRecv out c \<Rightarrow> of_run c)"

section \<open>Logging\<close>

datatype level = LError | LWarn | LInfo

fun level_str :: "level \<Rightarrow> string" where
  "level_str LError = ''error''"
| "level_str LWarn = ''warn''"
| "level_str LInfo = ''info''"

text \<open>The process-wide cell: the installed logger as the line it writes for a message.\<close>

type_synonym logger_cell = "(level \<Rightarrow> string \<Rightarrow> string) option"

definition set_logger :: "(level \<Rightarrow> string \<Rightarrow> string) \<Rightarrow> logger_cell \<Rightarrow> bool \<times> logger_cell" where
  "set_logger f cell = (case cell of None \<Rightarrow> (True, Some f) | Some g \<Rightarrow> (False, cell))"

definition log_to :: "logger_cell \<Rightarrow> level \<Rightarrow> string \<Rightarrow> string list" where
  "log_to cell lv msg = (case cell of None \<Rightarrow> [] | Some l \<Rightarrow> [l lv msg])"

definition stderr_logger :: "level \<Rightarrow> string \<Rightarrow> string" where
  "stderr_logger lv msg = ''girth ['' @ level_str lv @ ''] '' @ msg"

definition init_stderr_logger :: "logger_cell \<Rightarrow> logger_cell" where
  "init_stderr_logger cell = snd (set_logger stderr_logger cell)"

section \<open>Termination\<close>

text \<open>\<open>SIGNALLED\<close>, the flag handed to the transfer, and whether the polling thread still runs.\<close>

record stop_watch =
  tm_signalled :: bool
  tm_stop :: bool
  tm_polling :: bool

definition install_termination_handler :: "bool \<Rightarrow> stop_watch" where
  "install_termination_handler signalled = \<lparr>tm_signalled = signalled, tm_stop = False, tm_polling = True\<rparr>"

datatype stop_event = Signal | Poll

fun stop_step :: "stop_event \<Rightarrow> stop_watch \<Rightarrow> stop_watch" where
  "stop_step Signal t = t\<lparr>tm_signalled := True\<rparr>"
| "stop_step Poll t =
     (if tm_polling t \<and> tm_signalled t then t\<lparr>tm_stop := True, tm_polling := False\<rparr> else t)"

section \<open>What the flags decide\<close>

definition flag_given :: "string \<Rightarrow> string list \<Rightarrow> bool" where
  "flag_given name args \<longleftrightarrow> (\<exists>a \<in> set args. a = CHR ''-'' # name \<or> (\<exists>v. a = CHR ''-'' # name @ CHR ''='' # v))"

lemma split_once_shape:
  assumes "split_once sep s = (name, inline)"
  shows "case inline of None \<Rightarrow> s = name | Some v \<Rightarrow> s = name @ sep # v"
proof (cases "dropWhile (\<lambda>c. c \<noteq> sep) s")
  case (Cons c cs)
  then have "c = sep" using hd_dropWhile [of "\<lambda>c. c \<noteq> sep" s] by simp
  moreover have "s = takeWhile (\<lambda>c. c \<noteq> sep) s @ c # cs" using Cons takeWhile_dropWhile_id [of "\<lambda>c. c \<noteq> sep" s] by simp
  ultimately show ?thesis using assms Cons by (simp add: split_once_def) (metis option.simps(5))
qed (use assms in \<open>auto simp: split_once_def simp del: dropWhile_eq_Nil_conv\<close>)

lemma flag_num_Flags: "flag_num name value k = Flags st \<longleftrightarrow> (\<exists>v. parse_f64 value = Some v \<and> st = k v)"
  by (auto simp: flag_num_def split: option.splits)

lemma set_flag_origin:
  assumes "set_flag name value st = Flags st'"
  shows "pc_allow_unauthenticated st' \<longleftrightarrow> pc_allow_unauthenticated st \<or> name = ''allow-unauthenticated''"
    and "pc_auth_token st' = (if name = ''auth'' then Some value else pc_auth_token st)"
  using assms by (auto simp: set_flag_def Let_def flag_num_Flags split: if_splits)

lemma then_flags_Flags: "then_flags r k = Flags y \<longleftrightarrow> (\<exists>x. r = Flags x \<and> k x = Flags y)"
  by (cases r) auto

lemma flag_given_Cons: "flag_given name args \<Longrightarrow> flag_given name (a # args)"
  by (auto simp: flag_given_def)

lemma parse_args_origin:
  assumes "parse_args args st = Flags st'"
  shows "(pc_allow_unauthenticated st' \<longrightarrow> pc_allow_unauthenticated st \<or> flag_given ''allow-unauthenticated'' args) \<and>
     (pc_auth_token st' = pc_auth_token st \<or> (\<exists>t. pc_auth_token st' = Some t \<and> (t \<in> set args \<or> ''-auth='' @ t \<in> set args)))"
  using assms
proof (induction args st rule: parse_args.induct)
  case (2 a args st)
  show ?case
  proof (cases "a = [] \<or> hd a \<noteq> CHR ''-''")
    case True
    then show ?thesis using 2 by (fastforce intro: flag_given_Cons)
  next
    case False
    obtain name inline where n: "split_once (CHR ''='') (tl a) = (name, inline)" by fastforce
    have a: "a = CHR ''-'' # tl a" using False by (cases a) auto
    have given: "flag_given name (a # args)"
      using split_once_shape [OF n] a by (cases inline) (auto simp: flag_given_def)
    show ?thesis
    proof (cases "is_bool_flag name")
      case True
      then obtain st1 where f: "set_flag name [] st = Flags st1" "parse_args args st1 = Flags st'"
        using "2.prems" False n by (auto simp: then_flags_Flags)
      have "name \<noteq> ''auth''" using True by (auto simp: is_bool_flag_def)
      then show ?thesis
        using "2.IH"(2) [OF False n [symmetric] True f(1,2)] set_flag_origin [OF f(1)] given
        by (auto intro: flag_given_Cons)
    next
      case nb: False
      then have name: "name \<noteq> ''allow-unauthenticated''" by (auto simp: is_bool_flag_def)
      show ?thesis
      proof (cases inline)
        case (Some v)
        then obtain st1 where f: "set_flag name v st = Flags st1" "parse_args args st1 = Flags st'"
          using "2.prems" False n nb by (auto simp: then_flags_Flags)
        have "name = ''auth'' \<Longrightarrow> ''-auth='' @ v = a" using split_once_shape [OF n] Some a by simp
        then show ?thesis
          using "2.IH"(4) [OF False n [symmetric] nb Some f(1,2)] set_flag_origin [OF f(1)] name
          by (auto intro: flag_given_Cons split: if_splits)
      next
        case None
        then obtain v rest st1 where f: "args = v # rest" "set_flag name v st = Flags st1" "parse_args rest st1 = Flags st'"
          using "2.prems" False n nb by (auto simp: then_flags_Flags split: list.splits)
        show ?thesis
          using "2.IH"(3) [OF False n [symmetric] nb None f(1-3)] set_flag_origin [OF f(2)] name f(1)
          by (auto intro: flag_given_Cons split: if_splits)
      qed
    qed
  qed
qed simp

text \<open>Property C38: a server started from the command line is open only on request. When \<open>girth server\<close> starts to listen
  without an authorizer, \<open>-allow-unauthenticated\<close> was among its arguments; otherwise its authorizer gives the token that
  was among them, for every request.\<close>

theorem server_needs_a_decision:
  assumes "girth_main w ex opened created is_dir (prog # ''server'' # args) = CliServe sv"
  shows "sv_authorizer sv = None \<and> flag_given ''allow-unauthenticated'' args \<or>
     (\<exists>t. sv_authorizer sv = Some (\<lambda>ctx. Inr (as_bytes t)) \<and> (t \<in> set args \<or> ''-auth='' @ t \<in> set args))"
proof -
  obtain st where st: "parse_args args parse_start = Flags st"
      and sv: "case pc_auth_token st of
          Some t \<Rightarrow> sv_authorizer sv = Some (\<lambda>ctx. Inr (as_bytes t))
        | None \<Rightarrow> sv_authorizer sv = None \<and> pc_allow_unauthenticated st"
    using assms
    by (cases "parse_args args parse_start")
       (auto simp: girth_main_def parse_def parse_finish_def with_authorizer_def server_new_def Let_def split: option.splits if_splits)
  show ?thesis using parse_args_origin [OF st] sv by (cases "pc_auth_token st") (auto simp: parse_start_def)
qed

theorem server_needs_a_decision_witness:
  "\<exists>sv. girth_main sample_world (sample_exchange ack_default) (\<lambda>p. Inl NoSuchFile) (\<lambda>p. Inl NoSuchFile) (\<lambda>p. False) [''girth'', ''server'', ''-auth'', ''s3cret''] = CliServe sv \<and> sv_authorizer sv \<noteq> None"
proof -
  have p: "parse [''-auth'', ''s3cret''] = Flags (parse_finish (parse_start\<lparr>pc_auth_token := Some ''s3cret''\<rparr>))"
    by (simp add: parse_def split_once_def is_bool_flag_def set_flag_def)
  then obtain sv where sv: "girth_main sample_world (sample_exchange ack_default) (\<lambda>p. Inl NoSuchFile) (\<lambda>p. Inl NoSuchFile) (\<lambda>p. False) [''girth'', ''server'', ''-auth'', ''s3cret''] = CliServe sv"
    by (simp add: girth_main_def parse_finish_def Let_def)
  have "\<not> flag_given ''allow-unauthenticated'' [''-auth'', ''s3cret'']" by (auto simp: flag_given_def)
  then show ?thesis using server_needs_a_decision [OF sv] sv by auto
qed

text \<open>Property C39: a \<open>girth server\<close> and a \<open>girth send\<close> that were given the same token, or both none, authenticate: the
  server accepts the proof in the request that the client sends.\<close>

theorem cli_ends_authenticate:
  assumes "girth_main ws exs opened_s created_s is_dir_s (prog_s # ''server'' # sargs) = CliServe sv" and "parse sargs = Flags ps"
    and "girth_main wc ex opened created is_dir (prog # ''send'' # cargs) = CliSend r" and "parse cargs = Flags pc"
    and "pd_auth_token ps = pd_auth_token pc" and "wd_hmac ws = wd_hmac wc" and "cr_hello r = Some h"
  shows "\<exists>auth. check_auth ws sv h peer_addr = Inr auth"
proof -
  let ?token = "map_option as_bytes (pd_auth_token pc)"
  have sv: "sv_authorizer sv = map_option (\<lambda>t ctx. Inr t) ?token"
    using assms(1,2,5) by (auto simp: girth_main_def server_new_def with_authorizer_def Let_def split: option.splits if_splits)
  obtain host source name where r: "r = client_send_from wc ex host source name (pd_params pc) None ?token"
    using assms(3,4) by (auto simp: girth_main_def Let_def split: sum.splits if_splits)
  obtain stats warm where "r = send_core_with_stream wc ex host source name (pd_params pc) stats None warm ?token"
    using r assms(7) by (auto simp: client_send_from_def send_core_def failed_run_def Let_def mark_phase_def split: sum.splits)
  then obtain sz crc pub where "h = client_hello wc MODE_SEND name sz crc (pd_params pc) (warm_for_params (pd_params pc) warm) pub
      (request_mac wc ?token MODE_SEND name sz pub)"
    using assms(7)
    by (auto simp: send_core_with_stream_def push_data_def Let_def split: sum.splits prod.splits option.splits)
  from shared_token_accepted [OF assms(6) sv this] show ?thesis by simp
qed

theorem cli_ends_authenticate_witness:
  "\<exists>sv r h auth. girth_main sample_world (sample_exchange ack_default) (\<lambda>p. Inr (MemSource [])) (\<lambda>p. Inl NoSuchFile) (\<lambda>p. False)
       [''girth'', ''server'', ''-auth'', ''s3cret''] = CliServe sv \<and>
     girth_main sample_world (sample_exchange ack_default) (\<lambda>p. Inr (MemSource [])) (\<lambda>p. Inl NoSuchFile) (\<lambda>p. False)
       [''girth'', ''send'', ''-auth=s3cret'', ''a'', ''h:7400''] = CliSend r \<and>
     cr_hello r = Some h \<and> check_auth sample_world sv h sample_peer = Inr auth"
proof -
  let ?main = "girth_main sample_world (sample_exchange ack_default) (\<lambda>p. Inr (MemSource [])) (\<lambda>p. Inl NoSuchFile) (\<lambda>p. False)"
  have ps: "parse [''-auth'', ''s3cret''] = Flags (parse_finish (parse_start\<lparr>pc_auth_token := Some ''s3cret''\<rparr>))"
    by (simp add: parse_def split_once_def is_bool_flag_def set_flag_def)
  have pc: "parse [''-auth=s3cret'', ''a'', ''h:7400''] =
      Flags (parse_finish (parse_start\<lparr>pc_auth_token := Some ''s3cret'', pc_positionals := [''a'', ''h:7400'']\<rparr>))"
    by (simp add: parse_def split_once_def is_bool_flag_def set_flag_def) (simp add: parse_start_def)
  obtain sv where sv: "?main [''girth'', ''server'', ''-auth'', ''s3cret''] = CliServe sv"
    using ps by (simp add: girth_main_def parse_finish_def Let_def)
  obtain r where r: "?main [''girth'', ''send'', ''-auth=s3cret'', ''a'', ''h:7400''] = CliSend r"
    using pc by (simp add: girth_main_def parse_finish_def Let_def)
  have "source_crc32c any_len any_read_exact_at (wd_crc sample_world) (MemSource []) = Inr 0"
    by (simp add: source_crc32c_def crc_loop.simps mem_len_def)
  then have "\<exists>h. cr_hello r = Some h"
    using r pc
    by (auto simp: girth_main_def parse_finish_def client_send_from_def send_core_def send_core_with_stream_def sample_exchange_def
        handshake_def push_data_def Let_def split: sum.splits prod.splits option.splits)
  then obtain h where h: "cr_hello r = Some h" by blast
  show ?thesis using cli_ends_authenticate [OF sv ps r pc _ refl h, of sample_peer] sv r h by (auto simp: parse_finish_def)
qed

text \<open>A value cannot switch a boolean flag off. \<open>-allow-unauthenticated=false\<close>, like any other value, opens the
  server, and \<open>-encrypt=false\<close> encrypts.\<close>

theorem boolean_flags_ignore_values:
  "girth_main w ex opened created is_dir [prog, ''server'', ''-allow-unauthenticated='' @ v] =
     CliServe (server_new '':7400'' ''.'' (pd_params (parse_finish parse_start))) \<and>
   parse ((''-encrypt='' @ v) # args) = parse (''-encrypt'' # args)"
  by (simp add: girth_main_def parse_def split_once_def is_bool_flag_def set_flag_def parse_finish_def parse_start_def Let_def)

text \<open>The help flag is not boolean: as the last argument it is an error.\<close>

lemma help_needs_a_value: "girth_main w ex opened created is_dir [prog, ''send'', ''-h''] = CliExit 2"
  by (simp add: girth_main_def parse_def split_once_def is_bool_flag_def)

section \<open>Logging and termination\<close>

text \<open>The library is silent until a logger is set, and the first one stays.\<close>

lemma silent_by_default: "log_to None lv msg = []"
  by (simp add: log_to_def)

lemma first_logger_wins:
  "set_logger f cell = (ok, cell') \<Longrightarrow> set_logger g cell' = (ok', cell'') \<Longrightarrow> \<not> ok' \<and> log_to cell'' = log_to cell'"
  by (auto simp: set_logger_def split: option.splits)

text \<open>The stop flag is raised by the first poll after a signal and never without one.\<close>

lemma stop_needs_a_signal:
  assumes "fold stop_step es (install_termination_handler False) = t"
  shows "tm_stop t \<longleftrightarrow> (\<exists>xs ys. es = xs @ Poll # ys \<and> Signal \<in> set xs)"
proof -
  have inv: "(tm_signalled s \<longleftrightarrow> Signal \<in> set es) \<and> (tm_stop s \<longleftrightarrow> (\<exists>xs ys. es = xs @ Poll # ys \<and> Signal \<in> set xs)) \<and> (tm_polling s \<longleftrightarrow> \<not> tm_stop s)"
    if "s = fold stop_step es (install_termination_handler False)" for es s
    using that
  proof (induction es arbitrary: s rule: rev_induct)
    case (snoc e es)
    have "(\<exists>xs ys. es @ [e] = xs @ Poll # ys \<and> Signal \<in> set xs) \<longleftrightarrow>
        (\<exists>xs ys. es = xs @ Poll # ys \<and> Signal \<in> set xs) \<or> e = Poll \<and> Signal \<in> set es" (is "?l \<longleftrightarrow> ?r")
    proof
      assume ?l
      then obtain xs ys where x: "es @ [e] = xs @ Poll # ys" "Signal \<in> set xs" by blast
      then show ?r by (cases ys rule: rev_cases) auto
    next
      assume ?r
      then consider xs ys where "es = xs @ Poll # ys" "Signal \<in> set xs" | "e = Poll" "Signal \<in> set es" by blast
      then show ?l
      proof cases
        case 1
        then show ?thesis by (intro exI [of _ xs] exI [of _ "ys @ [e]"]) simp
      next
        case 2
        then show ?thesis by (intro exI [of _ es] exI [of _ "[]"]) simp
      qed
    qed
    then show ?case using snoc.IH [OF refl] snoc.prems by (cases e) auto
  qed (simp add: install_termination_handler_def)
  show ?thesis using inv [of t es] assms by simp
qed

end
