(* ===== verification/Spec2Isabelle.thy ===== *)
theory Spec2Isabelle
  imports Wire Loss_Tracker Block_IO Data_Crypto Auth_Mac Control_Plane Errors Statistics Transfer_Runtime
    Net_Batch Sender_Properties Receiver_Data Receiver_Progress Receiver_Completion Server_Listener Client_Properties
    Whole_Transfer Sender_Progress Loss_Free Registered_IO Receiver_Threads Command_Line
begin

text \<open>
  A verification library for girth, a file transfer program for long fat networks (\<open>src/src\<close>): a client pushes an object
  to a server or pulls one from it. A TCP control connection carries one request and one reply as JSON; the object itself
  travels as numbered UDP datagrams, which the receiver requests again when they are missing.

  \<^bold>\<open>The parts and how they interact.\<close> A request (\<open>transfer.rs\<close>) is authenticated (\<open>auth.rs\<close>), a data key may be
  agreed (\<open>crypto.rs\<close>), and then one side runs a sender (\<open>sender.rs\<close>) and the other a receiver (\<open>receiver.rs\<close>). The
  sender reads a source and paces DATA datagrams at the rate that the receiver's controller (\<open>rate.rs\<close>) asks for; the
  receiver checks them, writes them to a sink (\<open>io.rs\<close>), and reports back what is missing (\<open>losstracker.rs\<close>). The wire
  format is \<open>protocol.rs\<close>, the control messages \<open>control.rs\<close>, the operating system layer \<open>sys\<close>. A transfer can be watched
  and cancelled through a handle (\<open>runtime.rs\<close>, \<open>stats.rs\<close>).

  \<^bold>\<open>Which theory models which part.\<close>
  \<^item> \<open>Prelude\<close>: machine integers, panics as \<open>None\<close>, byte buffers, little-endian codecs, the priority queue interface.
    \<open>Float64\<close>: \<open>f64\<close> arithmetic as rounding to 53 bits, and the casts.
  \<^item> \<open>Wire\<close>: \<open>protocol.rs\<close>. \<open>Loss_Tracker\<close>: the bitmap and the scanner of \<open>losstracker.rs\<close>. \<open>Rate_Control\<close>: the RTT
    estimator and the controller of \<open>rate.rs\<close>.
  \<^item> \<open>Block_IO\<close>: the sources and sinks of \<open>io.rs\<close> and the positional file access of \<open>sys/mod.rs\<close>. \<open>Net_Batch\<close>: the batched and
    per-packet socket backends of \<open>sys/linux.rs\<close> and \<open>sys/portable.rs\<close>. \<open>Registered_IO\<close>: the Windows backend \<open>sys/rio.rs\<close>.
  \<^item> \<open>Data_Crypto\<close>: \<open>crypto.rs\<close>. \<open>Auth_Mac\<close>: \<open>auth.rs\<close>. \<open>Control_Plane\<close>: the messages of \<open>control.rs\<close>, their framing, the transfer
    parameters, paths. \<open>Errors\<close>: \<open>error.rs\<close>. \<open>Statistics\<close>: \<open>stats.rs\<close>. \<open>Transfer_Runtime\<close>: \<open>runtime.rs\<close>.
  \<^item> \<open>Data_Pdu\<close>, \<open>Data_Sender\<close>: \<open>sender.rs\<close>, with the prefetcher, the pacing loop and the feedback thread as steps of one state.
    \<open>Sender_Invariant\<close>, \<open>Sender_Properties\<close>: what it puts on the wire; \<open>Sender_Progress\<close>: that it comes to the end of the file.
  \<^item> \<open>Data_Receiver\<close>: \<open>receiver.rs\<close>, with the ingest workers, the flusher and the feedback thread as the step relation \<open>recv_step\<close>;
    \<open>Receiver_Exec\<close> runs a list of actions, \<open>Receiver_Threads\<close> has the loops around the steps. \<open>Receiver_Invariant\<close>,
    \<open>Receiver_Data\<close>, \<open>Receiver_Sink\<close>, \<open>Receiver_Progress\<close> and \<open>Receiver_Completion\<close> hold its theorems.
  \<^item> \<open>Served_Objects\<close>, \<open>Server_Session\<close>, \<open>Client_Session\<close>: \<open>transfer.rs\<close>: object names and files, the server with its request
    handlers, connection loop and accept loop, the client functions and \<open>ClientSession\<close>. \<open>Server_Properties\<close>, \<open>Server_Listener\<close>
    and \<open>Client_Properties\<close> hold the theorems.
  \<^item> \<open>Command_Line\<close>: \<open>bin/girth.rs\<close>, \<open>log.rs\<close> and the termination flag of \<open>sys/mod.rs\<close>.
  \<^item> \<open>Data_Path\<close>, \<open>Loss_Free\<close>, \<open>Whole_Transfer\<close> and this theory: sender and receiver, client and server put together.

  \<^bold>\<open>How state and operations correspond to the code.\<close> A struct is a record with the fields of the struct, abbreviated by a
  prefix (\<open>rs_\<close> for the mutable fields of the receiver's \<open>Shared\<close>, \<open>re_\<close> for its constants, and so on); an enum is a datatype; a
  function of the source is a definition of the same name where HOL leaves it free. A panic is \<open>None\<close> (the release profile aborts on
  it), an \<open>io::Error\<close> is \<open>Inl\<close>. Wire fields and the sequence numbers of the sender are words; sequence numbers of
  the receiver and \<open>usize\<close> values are natural numbers, with the bounds under which they cannot wrap as hypotheses or
  invariants. Threads that share state are atomic steps between two accesses to shared state, and a run is any sequence of them.
  What the program does not decide is an argument: the answers of system calls and of the network, clocks, random numbers and the
  cryptographic and checksum primitives (\<open>world\<close>, \<open>request\<close>, \<open>exchange\<close>, the event lists). What the theorems assume of the
  primitives is named: \<open>aead_correct\<close> and \<open>dec_lengths\<close> (opening inverts sealing and keeps lengths), \<open>x25519_agrees\<close>,
  \<open>crc_incremental\<close>, and \<open>opens_only\<close> (nothing but the blocks of one object opens under its key).

  \<^bold>\<open>What the groups of lemmas show.\<close>
  \<^item> Whole transfers (C1 to C3, here; C4): a finished push or pull leaves exactly the object of the other side, if the datagrams came from it
    in any order, number and with any losses; under encryption, whatever the datagrams were. When nothing is lost, sender
    and receiver do come to that end.
  \<^item> The data planes (C5 to C9, C20 to C24, C33): reassembly for every interleaving, absence of panics, faithful datagrams and
    feedback, retransmission, progress of the sender and of the flusher, announcement of completion to the sender; two error paths that hang or lie.
  \<^item> Server and client (C10 to C19): stored and fetched objects carry the announced checksum, both sides agree on keys and proofs, nothing
    happens before authorization, only files of the served directory change, connections stay bounded; which request aborts the
    server and which do not; when a session keeps its connection.
  \<^item> Single parts (C25 to C32, C40): the scanner forgets no hole, encryption fails closed, MACs bind requests (up to NUL bytes in
    names), rates and time-outs stay in bounds, codecs round trip, batched sending equals single sending. Further
    theorems: file writes reassemble (\<open>file_scatter_reassembles\<close>), phases and errors of a handle agree (\<open>handle_coherent\<close>), a value does
    not switch a boolean flag off (\<open>boolean_flags_ignore_values\<close>).
  \<^item> The Windows backend (C34 to C37) and the command line (C38, C39).
  The interfaces are locales, each interpreted on the model: the priority queue, the rounding function, the block bitmap, block sources and sinks,
  batch senders.

  \<^bold>\<open>Bounds and fuel.\<close> The loops of the program are structural recursions over their input, functions with a termination proof
  (the checksum loop, the posting and reaping loops of the Windows backend, the frontier loop of the flusher, printing sizes), or,
  where they wait for the world, folds over the list of what the world does; no definition uses fuel. A loop that has consumed
  its events is reported as still running (\<open>Running\<close>, \<open>Busy\<close>, \<open>Waiting\<close>), never as a result, and the liveness
  theorems say which events are enough: eight ticks announce completion, the flusher needs one turn for each block
  left, a queued retransmission goes out within as many turns as the queue is long, an undisturbed sender needs
  one round more than there are blocks. Whole transfers assume objects below \<open>2^62\<close> bytes
  and block sizes below \<open>2^16\<close> (the length field of a DATA header), so that no byte offset wraps; the server admits less of both. A
  maximal rate of 0 or at least 64000 bit/s excludes the abort of C16. The Windows engine assumes \<open>4096 * buf_len < 2^32\<close>, the range of
  its descriptors, which block sizes below \<open>2^16\<close> imply.

  \<^bold>\<open>Not modelled.\<close>
  \<^item> Creating and configuring sockets (\<open>new_udp_socket\<close>, \<open>connect_control\<close>, \<open>local_udp_port\<close>), pacing and writeback hints
    (\<open>set_max_pacing_rate\<close>, \<open>sync_file_range_write\<close>) and \<open>finalize\<close>: single system calls whose answer is an argument of the caller's model.
  \<^item> JSON and base64 text of the control messages: the code of \<open>serde\<close> and \<open>base64\<close>; the messages are records and their
    serialisation is a parameter of the framing.
  \<^item> The primitives themselves: CRC32C, X25519, HKDF, HMAC, AES-GCM and ChaCha20-Poly1305 are crates.
  \<^item> The text of log lines, of the usage message and of most error messages; \<open>trace\<close>; the environment switches \<open>GIRTH_PACE\<close>,
    \<open>GIRTH_NOWB\<close> and \<open>GIRTH_TRACE\<close>.
  \<^item> The checks for symbolic links on systems other than unix, where \<open>O_NOFOLLOW\<close> is not available.
  \<^item> Memory orderings: the relaxed atomics are read as sequentially consistent between steps.
  \<^item> \<open>lib.rs\<close>, which only declares modules and names.
\<close>

section \<open>Whole transfers\<close>

text \<open>Property C1: a push between a client and a server that run the same primitives delivers the object. When
  the server accepts the request of the client and finishes it, and the datagrams that reached its receiver were
  sent by that client (in any order, any number of times, with anything else that is no DATA datagram between
  them), the served directory holds exactly the bytes of the client's source under the checked base name of the
  request.\<close>

theorem push_delivers_the_object:
  assumes "compatible wc ws" and "fits source (tp_block_size p)" and "sv_sink_resolver sv = None"
    and "tp_max_bps (request_params (sv_params sv) h) = 0 \<or> 64000 \<le> tp_max_bps (request_params (sv_params sv) h)"
    and "r = send_core_with_stream wc ex server_addr source name p stats handle warm token" and "cr_hello r = Some h" and "ex_ack ex = Inr a"
    and "handle_request ws sv peer_addr rq h s = (Next, s')" and "sr_replies s' = sr_replies s @ [a]" and "a_ok a"
    and "\<not> rq_run_stop rq" and "\<forall>x \<in> set (rq_actions rq). delivers (set (cr_wire r)) x"
  shows "\<exists>b. served_object_name name = Inr b \<and> sr_files s' (path_join (sv_dir sv) b) = Some (Regular (source_bytes source))"
  by (rule push_reassembled [OF assms])

theorem push_delivers_the_object_witness:
  "\<exists>s'. handle_request sample_world sample_server sample_peer sample_push_request sample_pushed sample_srv = (Next, s') \<and>
     sr_files s' ''/srv/a'' = Some (Regular [])"
proof -
  obtain s' where s': "handle_request sample_world sample_server sample_peer sample_push_request sample_pushed sample_srv = (Next, s')"
      "sr_replies s' = [sample_push_ack]"
    using sample_pushed_handled by blast
  have f: "fits sample_source (tp_block_size default_params)" "sv_sink_resolver sample_server = None" "sv_dir sample_server = ''/srv''"
      "tp_max_bps (request_params (sv_params sample_server) sample_pushed) = 0 \<or>
       64000 \<le> tp_max_bps (request_params (sv_params sample_server) sample_pushed)"
      "ex_ack (sample_exchange sample_push_ack) = Inr sample_push_ack" "a_ok sample_push_ack" "source_bytes sample_source = []"
    by (simp_all add: fits_def sample_source_def sample_server_def server_new_def request_params_def sample_pushed_defs
        sample_exchange_def sample_push_ack_def)
  have rq: "\<not> rq_run_stop sample_push_request" "\<forall>x \<in> set (rq_actions sample_push_request). delivers (set (cr_wire sample_push_run)) x"
    using ending_delivered [of "set (cr_wire sample_push_run)"] by (simp_all add: sample_push_request_def)
  have rep: "sr_replies s' = sr_replies sample_srv @ [sample_push_ack]" using s'(2) by (simp add: sample_srv_def)
  show ?thesis
    using push_delivers_the_object [OF compatible_sample f(1,2,4) refl sample_push_client(1) f(5) s'(1) rep f(6) rq] s'(1) f(3,7)
    by (simp add: sample_name sample_path)
qed

text \<open>Property C2: a pull between a client and a server that run the same primitives fetches the object. When the
  client reports success, the server prepared the source, answered with that reply and sent the datagrams of its
  sender, and what reached the client's receiver was among them or no DATA datagram, the client's file holds
  exactly the bytes of the served file.\<close>

theorem pull_delivers_the_object:
  assumes "compatible wc ws" and "0 < tp_block_size p" and "tp_block_size p < 2 ^ 16" and "tp_max_bps p = 0 \<or> 64000 \<le> tp_max_bps p"
    and "sv_source_resolver sv = None" and "max_object_size (sv_limits sv) < 2 ^ 62"
    and "r = recv_core_with_stream wc ex server_addr name (FileSink path k) p stats handle warm token"
    and "cr_result r = Ended (Inr ())" and "cr_hello r = Some h" and "ex_ack ex = Inr a"
    and "prepare_source ws sv h s = (Inr (source, sz, crc), s1)" and "negotiate ws rq h = Inr (enc, cipher, spub, crypto)"
    and "a = ok_ack ws rq h auth port (int sz) crc (enc, cipher, spub)"
    and "serve_pull ws rq h (request_params (sv_params sv) h) peer_addr crypto source sz = (res, wire)"
    and "\<not> should_stop (ex_stop ex) (map_option th_control handle)" and "\<forall>x \<in> set (ex_actions ex). delivers (set wire) x"
  shows "\<exists>b f. served_object_name name = Inr b \<and> sr_files s (path_join (sv_dir sv) b) = Some (Regular (fsnk_file f)) \<and>
           cr_sink r = Some (FileSink path f)"
  by (rule pull_reassembled [OF assms])

theorem pull_delivers_the_object_witness:
  "sr_files sample_store ''/srv/a'' = Some (Regular []) \<and> (\<exists>f. cr_sink sample_pull_run = Some (FileSink ''/srv/a'' f) \<and> fsnk_file f = [])"
proof -
  let ?rq = "sample_request sample_pulled"
  have f: "0 < tp_block_size default_params" "tp_block_size default_params < 2 ^ 16"
      "tp_max_bps default_params = 0 \<or> 64000 \<le> tp_max_bps default_params"
      "sv_source_resolver sample_server = None" "max_object_size (sv_limits sample_server) < 2 ^ 62" "sv_dir sample_server = ''/srv''"
      "ex_ack sample_pull_exchange = Inr sample_pull_ack" "\<not> should_stop (ex_stop sample_pull_exchange) (map_option th_control None)"
      "ex_actions sample_pull_exchange = ending"
    by (simp_all add: default_params_def DEFAULT_BLOCK_SIZE_def sample_server_def server_new_def default_limits_def
        sample_pull_exchange_def sample_exchange_def should_stop_def)
  have n: "negotiate sample_world ?rq sample_pulled = Inr (False, [], [], None)"
    by (simp add: negotiate_def negotiate_crypto_server_def sample_pulled_def default_params_def)
  obtain res wire where w: "serve_pull sample_world ?rq sample_pulled (request_params (sv_params sample_server) sample_pulled) sample_peer None
      (FileSource (file_source_from_file [])) 0 = (res, wire)" by fastforce
  have a: "sample_pull_ack = ok_ack sample_world ?rq sample_pulled None 5000 (int 0) 0 (False, [], [])" by (simp add: sample_pull_ack_def)
  have d: "\<forall>x \<in> set (ex_actions sample_pull_exchange). delivers (set wire) x" using ending_delivered [of "set wire"] f(9) by simp
  show ?thesis
    using pull_delivers_the_object [OF compatible_sample f(1-5) refl sample_pull_client f(7) sample_prepared_source n a w f(8) d]
    by (auto simp: sample_name sample_path f(6) sample_store_def)
qed



end
